(* ===== verification/Prelude.thy ===== *)
theory Prelude
  imports Main "HOL-Library.Word" "HOL-Library.Monad_Syntax"
begin

text \<open>
  Shared vocabulary of the development.

  \<^item> The model of a Rust computation that may panic is the option type: None is the panic,
    and the monad of HOL's option type sequences computations as the code does.
  \<^item> usize is a natural number; the sums and products the code computes wrap at
    \<open>2 ^ 64\<close> (the kernel is built in release mode, where integer overflow wraps), which
    \<open>uadd\<close>, \<open>usub\<close> and \<open>umul\<close> write out.
  \<^item> Slices are lists; \<open>slice\<close>, \<open>with_slice\<close> and \<open>copy_from_slice\<close> carry the bounds
    checks of the language.
  \<^item> UTF-8 validation is the one of the language's core library.
\<close>

unbundle bit_operations_syntax

type_synonym byte = "8 word"
type_synonym bytes = "8 word list"
type_synonym usize = nat
type_synonym 'a rust = "'a option"

abbreviation panic :: "'a rust" where
  "panic \<equiv> None"

abbreviation returns :: "'a rust \<Rightarrow> bool" where
  "returns m \<equiv> m \<noteq> None"

named_theorems rust_simps \<open>bounds-checked slice operations on lists of known shape\<close>
named_theorems inv_simps \<open>unfolding of the component invariants\<close>

subsection \<open>Machine-size unsigned arithmetic\<close>

definition uadd :: "usize \<Rightarrow> usize \<Rightarrow> usize" where
  "uadd a b = (a + b) mod 2 ^ 64"

definition usub :: "usize \<Rightarrow> usize \<Rightarrow> usize" where
  "usub a b = (a + (2 ^ 64 - b mod 2 ^ 64)) mod 2 ^ 64"

definition umul :: "usize \<Rightarrow> usize \<Rightarrow> usize" where
  "umul a b = (a * b) mod 2 ^ 64"

subsection \<open>Slices\<close>

definition slice :: "'a list \<Rightarrow> nat \<Rightarrow> nat \<Rightarrow> 'a list rust" where
  "slice xs a b = (if a \<le> b \<and> b \<le> length xs then Some (take (b - a) (drop a xs)) else panic)"

definition index :: "'a list \<Rightarrow> nat \<Rightarrow> 'a rust" where
  "index xs i = (if i < length xs then Some (xs ! i) else panic)"

definition set_index :: "'a list \<Rightarrow> nat \<Rightarrow> 'a \<Rightarrow> 'a list rust" where
  "set_index xs i v = (if i < length xs then Some (xs[i := v]) else panic)"

definition copy_from_slice :: "'a list \<Rightarrow> 'a list \<Rightarrow> 'a list rust" where
  "copy_from_slice dst src = (if length dst = length src then Some src else panic)"

definition write_prefix :: "'a list \<Rightarrow> 'a list \<Rightarrow> 'a list rust" where
  "write_prefix dst src =
    (if length src \<le> length dst then Some (src @ drop (length src) dst) else panic)"

text \<open>Mutably borrow \<open>xs[a..b]\<close>, run \<open>f\<close> on it, and put the result back in place.\<close>

definition with_slice :: "'a list \<Rightarrow> nat \<Rightarrow> nat \<Rightarrow> ('a list \<Rightarrow> 'a list rust) \<Rightarrow> 'a list rust" where
  "with_slice xs a b f = do {
     s \<leftarrow> slice xs a b;
     s' \<leftarrow> f s;
     Some (take a xs @ s' @ drop b xs) }"

fun position :: "('a \<Rightarrow> bool) \<Rightarrow> 'a list \<Rightarrow> nat option" where
  "position P [] = None"
| "position P (x # xs) = (if P x then Some 0 else map_option Suc (position P xs))"

subsection \<open>Little-endian memory\<close>

primrec le_bytes :: "nat \<Rightarrow> nat \<Rightarrow> bytes" where
  "le_bytes 0 x = []"
| "le_bytes (Suc n) x = of_nat x # le_bytes n (x div 256)"

primrec le_nat :: "bytes \<Rightarrow> nat" where
  "le_nat [] = 0"
| "le_nat (b # bs) = unat b + 256 * le_nat bs"

subsection \<open>UTF-8 validation\<close>

definition utf8_cont :: "byte \<Rightarrow> bool" where
  "utf8_cont b \<longleftrightarrow> 0x80 \<le> b \<and> b \<le> 0xBF"

definition utf8_second3 :: "byte \<Rightarrow> byte \<Rightarrow> bool" where
  "utf8_second3 a b \<longleftrightarrow>
    (a = 0xE0 \<and> 0xA0 \<le> b \<and> b \<le> 0xBF) \<or>
    (0xE1 \<le> a \<and> a \<le> 0xEC \<and> utf8_cont b) \<or>
    (a = 0xED \<and> 0x80 \<le> b \<and> b \<le> 0x9F) \<or>
    (0xEE \<le> a \<and> a \<le> 0xEF \<and> utf8_cont b)"

definition utf8_second4 :: "byte \<Rightarrow> byte \<Rightarrow> bool" where
  "utf8_second4 a b \<longleftrightarrow>
    (a = 0xF0 \<and> 0x90 \<le> b \<and> b \<le> 0xBF) \<or>
    (0xF1 \<le> a \<and> a \<le> 0xF3 \<and> utf8_cont b) \<or>
    (a = 0xF4 \<and> 0x80 \<le> b \<and> b \<le> 0x8F)"

fun utf8_valid :: "bytes \<Rightarrow> bool" where
  "utf8_valid [] = True"
| "utf8_valid (a # r) =
    (if a < 0x80 then utf8_valid r
     else (case r of [] \<Rightarrow> False | b # r1 \<Rightarrow>
       if 0xC2 \<le> a \<and> a \<le> 0xDF then utf8_cont b \<and> utf8_valid r1
       else (case r1 of [] \<Rightarrow> False | c # r2 \<Rightarrow>
         if utf8_second3 a b then utf8_cont c \<and> utf8_valid r2
         else (case r2 of [] \<Rightarrow> False | d # r3 \<Rightarrow>
           utf8_second4 a b \<and> utf8_cont c \<and> utf8_cont d \<and> utf8_valid r3))))"

definition from_utf8 :: "bytes \<Rightarrow> bytes option" where
  "from_utf8 bs = (if utf8_valid bs then Some bs else None)"

subsection \<open>Lemmas on wrapping arithmetic\<close>

lemma uadd_exact [simp]: "a + b < 2 ^ 64 \<Longrightarrow> uadd a b = a + b"
  by (simp add: uadd_def)

lemma umul_exact [simp]: "a * b < 2 ^ 64 \<Longrightarrow> umul a b = a * b"
  by (simp add: umul_def)

lemma usub_exact [simp]:
  assumes "b \<le> a" "a < 2 ^ 64"
  shows "usub a b = a - b"
proof -
  have "a + (2 ^ 64 - b mod 2 ^ 64) = (a - b) + 2 ^ 64" using assms by simp
  then have "usub a b = ((a - b) + 2 ^ 64) mod 2 ^ 64" by (simp only: usub_def)
  also have "\<dots> = (a - b) mod 2 ^ 64" by (rule mod_add_self2)
  finally show ?thesis using assms by simp
qed

lemma uadd_less [simp]: "uadd a b < 2 ^ 64"
  by (simp add: uadd_def)

lemma usub_less [simp]: "usub a b < 2 ^ 64"
  by (simp add: usub_def)

lemma unat_exp64:
  assumes "k < 64"
  shows "unat (2 ^ k :: 64 word) = 2 ^ k"
proof -
  have "(2 :: nat) ^ k < 2 ^ 64" using assms by (intro power_strict_increasing) auto
  then show ?thesis using unat_of_nat [of "2 ^ k", where 'a = 64] by simp
qed

lemma unat_add64: "unat x + unat y < 2 ^ 64 \<Longrightarrow> unat (x + y :: 64 word) = unat x + unat y"
  by (simp add: unat_word_ariths)

lemma unat_sub64: "unat y \<le> unat x \<Longrightarrow> unat (x - y :: 64 word) = unat x - unat y"
  by (simp add: unat_sub_if')

subsection \<open>Lemmas on slices\<close>

lemma slice_full [rust_simps]: "slice xs 0 (length xs) = Some xs"
  by (simp add: slice_def)

lemma slice_append3 [rust_simps]:
  "slice (xs @ ys @ zs) (length xs) (length xs + length ys) = Some ys"
  by (simp add: slice_def)

lemma slice_suffix: "slice (xs @ ys) (length xs) (length (xs @ ys)) = Some ys"
  by (simp add: slice_def)

lemma slice_returns: "a \<le> b \<Longrightarrow> b \<le> length xs \<Longrightarrow> slice xs a b = Some (take (b - a) (drop a xs))"
  by (simp add: slice_def)

lemma slice_length: "slice xs a b = Some ys \<Longrightarrow> length ys = b - a"
  by (auto simp: slice_def split: if_splits)

lemma with_slice_append3:
  "with_slice (xs @ ys @ zs) (length xs) (length xs + length ys) f =
    map_option (\<lambda>y. xs @ y @ zs) (f ys)"
  by (cases "f ys") (simp_all add: with_slice_def slice_append3)

lemma with_slice_at:
  assumes "n = length xs" "m = n + length ys"
  shows "with_slice (xs @ ys @ zs) n m f = map_option (\<lambda>y. xs @ y @ zs) (f ys)"
  using assms with_slice_append3 by simp

lemma with_slice_prefix:
  "m = length ys \<Longrightarrow> with_slice (ys @ zs) 0 m f = map_option (\<lambda>y. y @ zs) (f ys)"
  using with_slice_at [of 0 "[]" m ys zs f] by simp

lemma with_slice_suffix:
  "n = length xs \<Longrightarrow> m = n + length ys \<Longrightarrow>
    with_slice (xs @ ys) n m f = map_option (\<lambda>y. xs @ y) (f ys)"
  using with_slice_at [of n xs m ys "[]" f] by simp

lemma with_slice_cong [fundef_cong]:
  "xs = xs' \<Longrightarrow> a = a' \<Longrightarrow> b = b' \<Longrightarrow> (\<And>s. f s = f' s) \<Longrightarrow>
    with_slice xs a b f = with_slice xs' a' b' f'"
  by (simp add: with_slice_def)

lemma write_prefix_exact [rust_simps]:
  "length dst = length src \<Longrightarrow> write_prefix dst src = Some src"
  by (simp add: write_prefix_def)

lemma copy_from_slice_exact [rust_simps]:
  "length dst = length src \<Longrightarrow> copy_from_slice dst src = Some src"
  by (simp add: copy_from_slice_def)

lemma set_index_at [rust_simps]:
  "n = length xs \<Longrightarrow> set_index (xs @ y # ys) n v = Some (xs @ v # ys)"
  by (simp add: set_index_def)

lemma split_at:
  assumes "n \<le> length xs"
  obtains ys zs where "xs = ys @ zs" "length ys = n"
  using assms by (metis append_take_drop_id length_take min.absorb2)

subsection \<open>Lemmas on positions\<close>

lemma position_Some: "position P xs = Some i \<Longrightarrow> i < length xs \<and> P (xs ! i)"
  by (induction xs arbitrary: i) (auto split: if_splits)

lemma position_first: "position P xs = Some i \<Longrightarrow> j < i \<Longrightarrow> \<not> P (xs ! j)"
proof (induction xs arbitrary: i j)
  case (Cons x xs)
  then show ?case by (cases j) (auto split: if_splits)
qed simp

lemma position_None_iff: "position P xs = None \<longleftrightarrow> (\<forall>x \<in> set xs. \<not> P x)"
  by (induction xs) auto

lemma position_append_hit:
  "\<forall>x \<in> set xs. \<not> P x \<Longrightarrow> P y \<Longrightarrow> position P (xs @ y # ys) = Some (length xs)"
  by (induction xs) auto

subsection \<open>Lemmas on little-endian bytes\<close>

lemma length_le_bytes [simp]: "length (le_bytes n x) = n"
  by (induction n arbitrary: x) auto

lemma le_nat_le_bytes: "le_nat (le_bytes n x) = x mod 256 ^ n"
proof (induction n arbitrary: x)
  case (Suc n)
  have "x mod (256 * 256 ^ n) = 256 * (x div 256 mod 256 ^ n) + x mod 256"
    by (rule mod_mult2_eq)
  then show ?case using Suc by (simp add: unat_of_nat)
qed simp

lemma le_nat_bound: "le_nat bs < 256 ^ length bs"
proof (induction bs)
  case (Cons b bs)
  have "unat b < 2 ^ LENGTH(8)" by (rule unsigned_less)
  then show ?case using Cons by simp
qed simp

lemma utf8_valid_ascii: "\<forall>b \<in> set bs. b < 0x80 \<Longrightarrow> utf8_valid bs"
  by (induction bs) auto

end
