(* ===== verification/Sos.thy ===== *)
theory Sos
  imports Prelude
begin

text \<open>
  The SOS value codec of sos-rs/src/lib.rs: the value type, the encoder \<open>encode_sos\<close>, which
  writes into a caller-supplied buffer, and the decoder \<open>decode_sos\<close> with its iterator.
  The byteorder crate is a parameter: a record of its reading and writing functions, with the
  laws its documentation gives in \<open>byteorder_ok\<close>.  Strings are the bytes of a valid UTF-8
  sequence; floating-point values are their bit patterns.
\<close>

subsection \<open>The byteorder parameter\<close>

record byteorder =
  write_i32 :: "32 word \<Rightarrow> bytes"
  read_i32 :: "bytes \<Rightarrow> 32 word"
  write_u32 :: "32 word \<Rightarrow> bytes"
  read_u32 :: "bytes \<Rightarrow> 32 word"
  write_i64 :: "64 word \<Rightarrow> bytes"
  read_i64 :: "bytes \<Rightarrow> 64 word"
  write_u64 :: "64 word \<Rightarrow> bytes"
  read_u64 :: "bytes \<Rightarrow> 64 word"
  write_f32 :: "32 word \<Rightarrow> bytes"
  read_f32 :: "bytes \<Rightarrow> 32 word"
  write_f64 :: "64 word \<Rightarrow> bytes"
  read_f64 :: "bytes \<Rightarrow> 64 word"

definition codec_ok :: "nat \<Rightarrow> ('a \<Rightarrow> bytes) \<Rightarrow> (bytes \<Rightarrow> 'a) \<Rightarrow> bool" where
  "codec_ok n w r \<longleftrightarrow> (\<forall>x. length (w x) = n \<and> r (w x) = x)"

definition byteorder_ok :: "byteorder \<Rightarrow> bool" where
  "byteorder_ok bo \<longleftrightarrow>
    codec_ok 4 (write_i32 bo) (read_i32 bo) \<and> codec_ok 4 (write_u32 bo) (read_u32 bo) \<and>
    codec_ok 8 (write_i64 bo) (read_i64 bo) \<and> codec_ok 8 (write_u64 bo) (read_u64 bo) \<and>
    codec_ok 4 (write_f32 bo) (read_f32 bo) \<and> codec_ok 8 (write_f64 bo) (read_f64 bo)"

definition le32_write :: "32 word \<Rightarrow> bytes" where
  "le32_write x = le_bytes 4 (unat x)"

definition le32_read :: "bytes \<Rightarrow> 32 word" where
  "le32_read bs = of_nat (le_nat bs)"

definition le64_write :: "64 word \<Rightarrow> bytes" where
  "le64_write x = le_bytes 8 (unat x)"

definition le64_read :: "bytes \<Rightarrow> 64 word" where
  "le64_read bs = of_nat (le_nat bs)"

definition little_endian :: byteorder where
  "little_endian = \<lparr>
    write_i32 = le32_write, read_i32 = le32_read, write_u32 = le32_write, read_u32 = le32_read,
    write_i64 = le64_write, read_i64 = le64_read, write_u64 = le64_write, read_u64 = le64_read,
    write_f32 = le32_write, read_f32 = le32_read, write_f64 = le64_write, read_f64 = le64_read \<rparr>"

subsection \<open>Values\<close>

record function_name =
  fn_module :: bytes
  fn_name :: bytes

record decode_iter =
  di_count :: usize
  di_buff :: bytes
  di_lazy :: bool

datatype sos_value =
    Int32 "32 word" | UInt32 "32 word" | Int64 "64 word" | UInt64 "64 word"
  | Float "32 word" | Double "64 word"
  | ErrorV bytes | StringV bytes | Opaque bytes | FunctionV function_name
  | EmbeddedOut decode_iter | EmbeddedIn "sos_value list" | EmbeddedVec "sos_value list"

datatype ctype =
    CInvalid | CInt32 | CUInt32 | CInt64 | CUInt64 | CFloat | CDouble
  | CError | CString | COpaque | CFunction | CEmbedded

fun ctype_of :: "sos_value \<Rightarrow> ctype" where
  "ctype_of (Int32 _) = CInt32"
| "ctype_of (UInt32 _) = CUInt32"
| "ctype_of (Int64 _) = CInt64"
| "ctype_of (UInt64 _) = CUInt64"
| "ctype_of (Float _) = CFloat"
| "ctype_of (Double _) = CDouble"
| "ctype_of (StringV _) = CString"
| "ctype_of (ErrorV _) = CError"
| "ctype_of (Opaque _) = COpaque"
| "ctype_of (FunctionV _) = CFunction"
| "ctype_of (EmbeddedOut _) = CEmbedded"
| "ctype_of (EmbeddedIn _) = CEmbedded"
| "ctype_of (EmbeddedVec _) = CEmbedded"

fun ctype_as_u8 :: "ctype \<Rightarrow> byte" where
  "ctype_as_u8 CInvalid = 0"
| "ctype_as_u8 CInt32 = 1"
| "ctype_as_u8 CUInt32 = 2"
| "ctype_as_u8 CInt64 = 3"
| "ctype_as_u8 CUInt64 = 4"
| "ctype_as_u8 CFloat = 5"
| "ctype_as_u8 CDouble = 6"
| "ctype_as_u8 CError = 7"
| "ctype_as_u8 CString = 8"
| "ctype_as_u8 COpaque = 9"
| "ctype_as_u8 CFunction = 10"
| "ctype_as_u8 CEmbedded = 11"

definition ctype_from_u8 :: "byte \<Rightarrow> ctype option" where
  "ctype_from_u8 i =
    (if i = 0 then Some CInvalid
     else if i = 1 then Some CInt32
     else if i = 2 then Some CUInt32
     else if i = 3 then Some CInt64
     else if i = 4 then Some CUInt64
     else if i = 5 then Some CFloat
     else if i = 6 then Some CDouble
     else if i = 7 then Some CError
     else if i = 8 then Some CString
     else if i = 9 then Some COpaque
     else if i = 10 then Some CFunction
     else if i = 11 then Some CEmbedded
     else None)"

text \<open>The types whose payload has a fixed size and no length field.\<close>

fun fixed_size :: "ctype \<Rightarrow> nat option" where
  "fixed_size CInt32 = Some 4"
| "fixed_size CUInt32 = Some 4"
| "fixed_size CFloat = Some 4"
| "fixed_size CInt64 = Some 8"
| "fixed_size CUInt64 = Some 8"
| "fixed_size CDouble = Some 8"
| "fixed_size _ = None"

subsection \<open>The encoder\<close>

fun encoded_size :: "sos_value \<Rightarrow> usize" and encoded_len :: "sos_value list \<Rightarrow> usize"
  and encoded_sizes :: "sos_value list \<Rightarrow> usize" where
  "encoded_size (Int32 _) = 4"
| "encoded_size (UInt32 _) = 4"
| "encoded_size (Float _) = 4"
| "encoded_size (Int64 _) = 8"
| "encoded_size (UInt64 _) = 8"
| "encoded_size (Double _) = 8"
| "encoded_size (StringV i) = length i + 1 + 4"
| "encoded_size (ErrorV i) = length i + 1 + 4"
| "encoded_size (Opaque i) = length i + 4"
| "encoded_size (EmbeddedIn i) = encoded_len i + 4"
| "encoded_size (EmbeddedOut f) = length (di_buff f) + 4"
| "encoded_size (EmbeddedVec i) = encoded_len i + 4"
| "encoded_size (FunctionV f) = length (fn_module f) + length (fn_name f) + 2 + 4"
| "encoded_len vs = length vs + 8 + encoded_sizes vs"
| "encoded_sizes [] = 0"
| "encoded_sizes (v # vs) = encoded_size v + encoded_sizes vs"

definition decode_iter_encode :: "byteorder \<Rightarrow> decode_iter \<Rightarrow> bytes \<Rightarrow> (bytes \<times> usize) rust" where
  "decode_iter_encode bo it buf = do {
     buf \<leftarrow> with_slice buf 0 4 (\<lambda>w. write_prefix w (write_u32 bo (of_nat (di_count it))));
     buf \<leftarrow> with_slice buf 4 8 (\<lambda>w. write_prefix w (write_u32 bo 0));
     buf \<leftarrow> with_slice buf 8 (length buf) (\<lambda>w. copy_from_slice w (di_buff it));
     Some (buf, length (di_buff it) + 8) }"

definition write_string :: "bytes \<Rightarrow> bytes \<Rightarrow> bytes rust" where
  "write_string i wbuf = do {
     wbuf \<leftarrow> with_slice wbuf 0 (length wbuf - 1) (\<lambda>w. copy_from_slice w i);
     set_index wbuf (length wbuf - 1) 0 }"

definition write_function :: "function_name \<Rightarrow> bytes \<Rightarrow> bytes rust" where
  "write_function f wbuf = do {
     let modlen = length (fn_module f);
     wbuf \<leftarrow> with_slice wbuf 0 modlen (\<lambda>w. copy_from_slice w (fn_module f));
     wbuf \<leftarrow> set_index wbuf modlen 0;
     wbuf \<leftarrow> with_slice wbuf (1 + modlen) (length wbuf - 1) (\<lambda>w. copy_from_slice w (fn_name f));
     set_index wbuf (length wbuf - 1) 0 }"

fun encode_value :: "byteorder \<Rightarrow> sos_value \<Rightarrow> bytes \<Rightarrow> bytes rust"
  and encode_sos :: "byteorder \<Rightarrow> sos_value list \<Rightarrow> bytes \<Rightarrow> (bytes \<times> usize) rust"
  and encode_loop :: "byteorder \<Rightarrow> sos_value list \<Rightarrow> bytes \<Rightarrow> usize \<Rightarrow> (bytes \<times> usize) rust" where
  "encode_value bo (Int32 i) wbuf = write_prefix wbuf (write_i32 bo i)"
| "encode_value bo (UInt32 i) wbuf = write_prefix wbuf (write_u32 bo i)"
| "encode_value bo (Int64 i) wbuf = write_prefix wbuf (write_i64 bo i)"
| "encode_value bo (UInt64 i) wbuf = write_prefix wbuf (write_u64 bo i)"
| "encode_value bo (Float i) wbuf = write_prefix wbuf (write_f32 bo i)"
| "encode_value bo (Double i) wbuf = write_prefix wbuf (write_f64 bo i)"
| "encode_value bo (StringV i) wbuf = write_string i wbuf"
| "encode_value bo (ErrorV i) wbuf = write_string i wbuf"
| "encode_value bo (Opaque i) wbuf = copy_from_slice wbuf i"
| "encode_value bo (EmbeddedIn i) wbuf = map_option fst (encode_sos bo i wbuf)"
| "encode_value bo (EmbeddedOut f) wbuf = map_option fst (decode_iter_encode bo f wbuf)"
| "encode_value bo (EmbeddedVec i) wbuf = map_option fst (encode_sos bo i wbuf)"
| "encode_value bo (FunctionV f) wbuf = write_function f wbuf"
| "encode_sos bo values buf =
    (let len = encoded_len values in
     if length buf < len then panic
     else do {
       let rest = drop len buf;
       let buf = take len buf;
       buf \<leftarrow> with_slice buf 0 4 (\<lambda>w. write_prefix w (write_u32 bo (of_nat (length values))));
       buf \<leftarrow> with_slice buf 4 8 (\<lambda>w. write_prefix w (write_u32 bo (of_nat len)));
       (buf, coffset) \<leftarrow> encode_loop bo values buf 8;
       Some (buf @ rest, coffset) })"
| "encode_loop bo [] buf coffset = Some (buf, coffset)"
| "encode_loop bo (value # values) buf coffset = do {
     buf \<leftarrow> set_index buf coffset (ctype_as_u8 (ctype_of value));
     (buf, coffset, length) \<leftarrow> (case fixed_size (ctype_of value) of
        Some _ \<Rightarrow> Some (buf, coffset + 1, encoded_size value)
      | None \<Rightarrow> do {
          let length = encoded_size value - 4;
          buf \<leftarrow> with_slice buf (coffset + 1) (coffset + 4 + 1)
                   (\<lambda>w. write_prefix w (write_u32 bo (of_nat length)));
          Some (buf, coffset + 5, length) });
     buf \<leftarrow> with_slice buf coffset (coffset + length) (\<lambda>wbuf. encode_value bo value wbuf);
     encode_loop bo values buf (coffset + length) }"

subsection \<open>The decoder\<close>

text \<open>A read of the byteorder crate: it panics on a slice shorter than the integer.\<close>

definition bo_read :: "nat \<Rightarrow> (bytes \<Rightarrow> 'a) \<Rightarrow> bytes \<Rightarrow> 'a rust" where
  "bo_read n r d = (if length d < n then panic else Some (r (take n d)))"

definition decode_sos :: "byteorder \<Rightarrow> bytes \<Rightarrow> bool \<Rightarrow> decode_iter option rust" where
  "decode_sos bo buf lzy =
    (if length buf \<le> 8 then Some None
     else do {
       c \<leftarrow> slice buf 0 4;
       s \<leftarrow> slice buf 4 8;
       let cnt = unat (read_u32 bo c);
       let sz = unat (read_u32 bo s);
       if length buf < sz \<or> sz < 8 then Some None
       else do {
         b \<leftarrow> slice buf 8 sz;
         Some (Some \<lparr> di_count = cnt, di_buff = b, di_lazy = lzy \<rparr>) } })"

text \<open>The part of \<open>next\<close> that finds the payload: its type, its bytes and the offset after it.\<close>

definition next_payload :: "byteorder \<Rightarrow> decode_iter \<Rightarrow> (ctype \<times> bytes \<times> usize) option rust" where
  "next_payload bo it =
    (let buf = di_buff it in
     if length buf < 5 \<or> di_count it = 0 then Some None
     else do {
       b \<leftarrow> index buf 0;
       (case ctype_from_u8 b of
          None \<Rightarrow> Some None
        | Some val_type \<Rightarrow> do {
            (offset, val_length) \<leftarrow> (case fixed_size val_type of
               Some n \<Rightarrow> Some (1, n)
             | None \<Rightarrow> do { s \<leftarrow> slice buf 1 5; Some (1 + 4, unat (read_u32 bo s)) });
            if length buf < val_length + offset then Some None
            else do {
              d \<leftarrow> slice buf offset (offset + val_length);
              Some (Some (val_type, d, val_length + offset)) } }) })"

definition read_string :: "bytes \<Rightarrow> bytes option rust" where
  "read_string d = do {
     s \<leftarrow> slice d 0 (if length d = 0 then 0 else length d - 1);
     Some (from_utf8 s) }"

definition read_function :: "bytes \<Rightarrow> function_name option rust" where
  "read_function d = do {
     vec \<leftarrow> slice d 0 (if length d = 0 then 0 else length d - 1);
     (case position (\<lambda>x. x = 0) vec of
        None \<Rightarrow> Some None
      | Some pos \<Rightarrow> do {
          m \<leftarrow> slice vec 0 pos;
          n \<leftarrow> slice vec (pos + 1) (length vec);
          Some (case (from_utf8 m, from_utf8 n) of
                  (Some m, Some n) \<Rightarrow> Some \<lparr> fn_module = m, fn_name = n \<rparr>
                | _ \<Rightarrow> None) }) }"

lemma decode_sos_shorter:
  "decode_sos bo d lzy = Some (Some it) \<Longrightarrow> length (di_buff it) + 8 \<le> length d"
  by (auto simp: decode_sos_def slice_def Let_def split: if_splits option.splits
      elim!: bind_eq_Some_conv [THEN iffD1, elim_format])

lemma next_payload_shorter:
  assumes "next_payload bo it = Some (Some (t, d, n))"
  shows "length d < length (di_buff it)" "0 < n" "n \<le> length (di_buff it)"
    "length d + 1 \<le> n"
  using assms
  by (auto simp: next_payload_def slice_def index_def Let_def bind_eq_Some_conv
      split: if_splits option.splits)

function decode_value :: "byteorder \<Rightarrow> bool \<Rightarrow> ctype \<Rightarrow> bytes \<Rightarrow> sos_value option rust"
  and collect_values :: "byteorder \<Rightarrow> decode_iter \<Rightarrow> sos_value list rust" where
  "decode_value bo lzy t d =
    (case t of
       CInvalid \<Rightarrow> Some None
     | CInt32 \<Rightarrow> map_option (\<lambda>x. Some (Int32 x)) (bo_read 4 (read_i32 bo) d)
     | CUInt32 \<Rightarrow> map_option (\<lambda>x. Some (UInt32 x)) (bo_read 4 (read_u32 bo) d)
     | CInt64 \<Rightarrow> map_option (\<lambda>x. Some (Int64 x)) (bo_read 8 (read_i64 bo) d)
     | CUInt64 \<Rightarrow> map_option (\<lambda>x. Some (UInt64 x)) (bo_read 8 (read_u64 bo) d)
     | CFloat \<Rightarrow> map_option (\<lambda>x. Some (Float x)) (bo_read 4 (read_f32 bo) d)
     | CDouble \<Rightarrow> map_option (\<lambda>x. Some (Double x)) (bo_read 8 (read_f64 bo) d)
     | CString \<Rightarrow> map_option (map_option StringV) (read_string d)
     | CError \<Rightarrow> map_option (map_option ErrorV) (read_string d)
     | COpaque \<Rightarrow> map_option (\<lambda>x. Some (Opaque x)) (slice d 0 (length d))
     | CFunction \<Rightarrow> map_option (map_option FunctionV) (read_function d)
     | CEmbedded \<Rightarrow>
         (case decode_sos bo d lzy of
            None \<Rightarrow> panic
          | Some None \<Rightarrow> Some None
          | Some (Some it) \<Rightarrow>
              if lzy then Some (Some (EmbeddedOut it))
              else (case collect_values bo it of
                      None \<Rightarrow> panic
                    | Some vs \<Rightarrow> Some (Some (EmbeddedVec vs)))))"
| "collect_values bo it =
    (case next_payload bo it of
       None \<Rightarrow> panic
     | Some None \<Rightarrow> Some []
     | Some (Some (t, d, n)) \<Rightarrow>
         (case decode_value bo (di_lazy it) t d of
            None \<Rightarrow> panic
          | Some None \<Rightarrow> Some []
          | Some (Some v) \<Rightarrow>
              (case slice (di_buff it) n (length (di_buff it)) of
                 None \<Rightarrow> panic
               | Some rest \<Rightarrow>
                   (case collect_values bo (it\<lparr>di_buff := rest, di_count := di_count it - 1\<rparr>) of
                      None \<Rightarrow> panic
                    | Some vs \<Rightarrow> Some (v # vs)))))"
  by pat_completeness auto

termination
proof (relation "measure (case_sum (\<lambda>(bo, lzy, t, d). 2 * length d + 1) (\<lambda>(bo, it). 2 * length (di_buff it)))",
    goal_cases)
  case (2 bo lzy t d x1 it)
  then show ?case using decode_sos_shorter [of bo d lzy it] by auto
next
  case (3 bo it x1 a t p d n)
  then show ?case using next_payload_shorter [of bo it t d n] by auto
next
  case (4 bo it x1 a t p d n b v rest)
  then show ?case
    using next_payload_shorter [of bo it t d n] by (auto simp: slice_def split: if_splits)
qed simp

definition next_value :: "byteorder \<Rightarrow> decode_iter \<Rightarrow> (sos_value option \<times> decode_iter) rust" where
  "next_value bo it = do {
     p \<leftarrow> next_payload bo it;
     (case p of
        None \<Rightarrow> Some (None, it)
      | Some (t, d, n) \<Rightarrow> do {
          v \<leftarrow> decode_value bo (di_lazy it) t d;
          (case v of
             None \<Rightarrow> Some (None, it)
           | Some v \<Rightarrow> do {
               rest \<leftarrow> slice (di_buff it) n (length (di_buff it));
               Some (Some v, it\<lparr>di_buff := rest, di_count := di_count it - 1\<rparr>) }) }) }"

subsection \<open>The wire format, as a specification\<close>

fun payload :: "byteorder \<Rightarrow> sos_value \<Rightarrow> bytes"
  and sos_bytes :: "byteorder \<Rightarrow> sos_value list \<Rightarrow> bytes"
  and items :: "byteorder \<Rightarrow> sos_value list \<Rightarrow> bytes" where
  "payload bo (Int32 i) = write_i32 bo i"
| "payload bo (UInt32 i) = write_u32 bo i"
| "payload bo (Int64 i) = write_i64 bo i"
| "payload bo (UInt64 i) = write_u64 bo i"
| "payload bo (Float i) = write_f32 bo i"
| "payload bo (Double i) = write_f64 bo i"
| "payload bo (StringV i) = i @ [0]"
| "payload bo (ErrorV i) = i @ [0]"
| "payload bo (Opaque i) = i"
| "payload bo (FunctionV f) = fn_module f @ 0 # fn_name f @ [0]"
| "payload bo (EmbeddedOut it) = []"
| "payload bo (EmbeddedIn vs) = sos_bytes bo vs"
| "payload bo (EmbeddedVec vs) = sos_bytes bo vs"
| "sos_bytes bo vs =
    write_u32 bo (of_nat (length vs)) @ write_u32 bo (of_nat (encoded_len vs)) @ items bo vs"
| "items bo [] = []"
| "items bo (v # vs) =
    ctype_as_u8 (ctype_of v) #
    (case fixed_size (ctype_of v) of
       Some _ \<Rightarrow> []
     | None \<Rightarrow> write_u32 bo (of_nat (length (payload bo v)))) @
    payload bo v @ items bo vs"

fun encodable :: "sos_value \<Rightarrow> bool" where
  "encodable (EmbeddedOut _) = False"
| "encodable (EmbeddedIn vs) = list_all encodable vs"
| "encodable (EmbeddedVec vs) = list_all encodable vs"
| "encodable _ = True"

definition payload_size :: "sos_value \<Rightarrow> nat" where
  "payload_size v = (case fixed_size (ctype_of v) of Some n \<Rightarrow> n | None \<Rightarrow> encoded_size v - 4)"

declare encode_sos.simps [simp del] sos_bytes.simps [simp del] encoded_len.simps [simp del]
declare decode_value.simps [simp del] collect_values.simps [simp del]

lemma write_string_correct:
  assumes "length wbuf = length i + 1"
  shows "write_string i wbuf = Some (i @ [0])"
proof -
  obtain a b where w: "wbuf = a @ [b]" "length a = length i"
    using assms by (cases wbuf rule: rev_cases) auto
  then show ?thesis
    by (simp add: write_string_def with_slice_prefix rust_simps)
qed

lemma write_function_correct:
  assumes "length wbuf = length (fn_module f) + length (fn_name f) + 2"
  shows "write_function f wbuf = Some (fn_module f @ 0 # fn_name f @ [0])"
proof -
  obtain a r where r: "wbuf = a @ r" "length a = length (fn_module f)"
    using assms split_at [of "length (fn_module f)" wbuf] by auto
  then obtain z r1 where r1: "r = z # r1" "length r1 = length (fn_name f) + 1"
    using assms by (cases r) auto
  then obtain b y where b: "r1 = b @ [y]" "length b = length (fn_name f)"
    by (cases r1 rule: rev_cases) auto
  have step: "with_slice (fn_module f @ 0 # b @ [y]) (Suc (length (fn_module f)))
      (Suc (length (fn_module f) + length (fn_name f))) (\<lambda>w. copy_from_slice w (fn_name f)) =
      Some (fn_module f @ 0 # fn_name f @ [y])"
    using with_slice_at [of "Suc (length (fn_module f))" "fn_module f @ [0]"
        "Suc (length (fn_module f) + length (fn_name f))" b "[y]" "\<lambda>w. copy_from_slice w (fn_name f)"] b
    by (simp add: rust_simps)
  have last: "set_index (fn_module f @ 0 # fn_name f @ [y])
      (Suc (length (fn_module f) + length (fn_name f))) 0 = Some (fn_module f @ 0 # fn_name f @ [0])"
    by (simp add: set_index_def list_update_append)
  show ?thesis
    using r r1 b step last
    by (simp add: write_function_def Let_def with_slice_prefix rust_simps)
qed

end
