(* ===== verification/Sos_Codec.thy ===== *)
theory Sos_Codec
  imports Sos
begin

text \<open>
  Correctness of the SOS codec: the interface of the byteorder crate as a locale, the refinement
  of the in-place encoder to the wire format \<open>sos_bytes\<close>, absence of panics in the decoder on
  arbitrary bytes, and the round trips through both decoding modes.
\<close>

locale byte_order =
  fixes bo :: byteorder
  assumes laws: "byteorder_ok bo"
begin

lemma write_length [simp]:
  "length (write_i32 bo i) = 4" "length (write_u32 bo i) = 4" "length (write_f32 bo i) = 4"
  "length (write_i64 bo j) = 8" "length (write_u64 bo j) = 8" "length (write_f64 bo j) = 8"
  using laws by (auto simp: byteorder_ok_def codec_ok_def)

lemma read_write [simp]:
  "read_i32 bo (write_i32 bo i) = i" "read_u32 bo (write_u32 bo i) = i"
  "read_f32 bo (write_f32 bo i) = i" "read_i64 bo (write_i64 bo j) = j"
  "read_u64 bo (write_u64 bo j) = j" "read_f64 bo (write_f64 bo j) = j"
  using laws by (auto simp: byteorder_ok_def codec_ok_def)

lemma length_payload:
  "encodable v \<Longrightarrow> length (payload bo v) = payload_size v"
  "list_all encodable vs \<Longrightarrow> length (sos_bytes bo vs) = encoded_len vs"
  "list_all encodable vs \<Longrightarrow> length (items bo vs) = encoded_sizes vs + length vs"
proof (induction v and vs and vs rule: encoded_size_encoded_len_encoded_sizes.induct)
  case (16 v vs)
  then show ?case
    by (cases v) (auto simp: payload_size_def)
qed (auto simp: payload_size_def sos_bytes.simps encoded_len.simps)

lemma encode_header:
  assumes "length buf = 8 + n"
  shows "with_slice buf 0 4 (\<lambda>w. write_prefix w (write_u32 bo x)) \<bind>
      (\<lambda>buf. with_slice buf 4 8 (\<lambda>w. write_prefix w (write_u32 bo y)) \<bind> k) =
    k (write_u32 bo x @ write_u32 bo y @ drop 8 buf)"
proof -
  obtain a r where a: "buf = a @ r" "length a = 4"
    using assms split_at [of 4 buf] by auto
  then obtain b c where b: "r = b @ c" "length b = 4"
    using assms split_at [of 4 r] by auto
  then show ?thesis
    using a by (simp add: with_slice_prefix with_slice_at write_prefix_exact)
qed

lemma encode_item:
  assumes tail: "\<And>buf. length buf = payload_size v \<Longrightarrow> encode_value bo v buf = Some (payload bo v)"
    and v: "encodable v" and n: "length post = encoded_size v + 1 + n"
  shows "encode_loop bo (v # vs) (pre @ post) (length pre) =
    encode_loop bo vs (pre @ items bo [v] @ drop (encoded_size v + 1) post)
      (length pre + encoded_size v + 1)"
proof -
  obtain z r where z: "post = z # r" "length r = encoded_size v + n"
    using n by (cases post) auto
  show ?thesis
  proof (cases "fixed_size (ctype_of v)")
    case (Some k)
    then have k: "encoded_size v = k" "payload_size v = k"
      by (cases v; simp add: payload_size_def)+
    obtain a b where a: "r = a @ b" "length a = k"
      using z k split_at [of k r] by auto
    have "with_slice (pre @ t # a @ b) (length pre + 1) (length pre + 1 + k) (encode_value bo v) =
        Some (pre @ t # payload bo v @ b)" for t
      using with_slice_at [of "length pre + 1" "pre @ [t]" "length pre + 1 + k" a b] tail [of a] a k
      by simp
    then show ?thesis using z a Some k by (simp add: set_index_at ac_simps)
  next
    case None
    then have k: "encoded_size v = payload_size v + 4"
      using v by (cases v; simp add: payload_size_def)
    obtain l q where l: "r = l @ q" "length l = 4"
      using z k split_at [of 4 r] by auto
    then have "length q = payload_size v + n" using z k by simp
    then obtain a b where a: "q = a @ b" "length a = payload_size v"
      using split_at [of "payload_size v" q] by auto
    let ?l = "write_u32 bo (of_nat (payload_size v))"
    have hd: "with_slice (pre @ t # l @ a @ b) (length pre + 1) (length pre + 4 + 1)
        (\<lambda>w. write_prefix w ?l) = Some (pre @ t # ?l @ a @ b)" for t
      using with_slice_at [of "length pre + 1" "pre @ [t]" "length pre + 4 + 1" l "a @ b"] l
      by (simp add: write_prefix_exact)
    have bd: "with_slice (pre @ t # ?l @ a @ b) (length pre + 5) (length pre + 5 + payload_size v)
        (encode_value bo v) = Some (pre @ t # ?l @ payload bo v @ b)" for t
      using with_slice_at [of "length pre + 5" "pre @ t # ?l" "length pre + 5 + payload_size v" a b]
        tail [of a] a by simp
    have lp: "length (payload bo v) = payload_size v" using length_payload(1) v .
    show ?thesis
      using z l a None k hd bd lp by (simp add: set_index_at Let_def ac_simps numeral_eq_Suc)
  qed
qed

lemma encode_refines:
  "encodable v \<Longrightarrow> length wbuf = payload_size v \<Longrightarrow> encode_value bo v wbuf = Some (payload bo v)"
  "list_all encodable vs \<Longrightarrow> encoded_len vs \<le> length buf \<Longrightarrow>
    encode_sos bo vs buf = Some (sos_bytes bo vs @ drop (encoded_len vs) buf, encoded_len vs)"
  "list_all encodable vs \<Longrightarrow> length post = encoded_sizes vs + length vs \<Longrightarrow>
    encode_loop bo vs (pre @ post) (length pre) =
      Some (pre @ items bo vs, length pre + encoded_sizes vs + length vs)"
proof (induction v and vs and vs arbitrary: wbuf and buf and pre post
    rule: encoded_size_encoded_len_encoded_sizes.induct)
  case (14 vs)
  let ?h = "write_u32 bo (of_nat (length vs)) @ write_u32 bo (of_nat (encoded_len vs))"
  have len: "length (take (encoded_len vs) buf) = 8 + (encoded_sizes vs + length vs)"
    using "14.prems" by (simp add: encoded_len.simps)
  note h = encode_header [OF len, of "of_nat (length vs)" "of_nat (encoded_len vs)"]
  have "encode_loop bo vs (?h @ drop 8 (take (encoded_len vs) buf)) (length ?h) =
      Some (?h @ items bo vs, length ?h + encoded_sizes vs + length vs)"
    using "14.prems" len by (intro "14.IH") auto
  moreover have "encode_sos bo vs buf =
      encode_loop bo vs (?h @ drop 8 (take (encoded_len vs) buf)) 8 \<bind>
        (\<lambda>(b, c). Some (b @ drop (encoded_len vs) buf, c))"
    using "14.prems" by (simp add: encode_sos.simps Let_def h)
  ultimately show ?case
    by (simp add: sos_bytes.simps encoded_len.simps)
next
  case (16 v vs)
  have "encode_loop bo (v # vs) (pre @ post) (length pre) =
      encode_loop bo vs ((pre @ items bo [v]) @ drop (encoded_size v + 1) post)
        (length (pre @ items bo [v]))"
    using encode_item [of v post "encoded_sizes vs + length vs" vs pre] 16 length_payload(3) [of "[v]"]
    by simp
  also have "\<dots> = Some ((pre @ items bo [v]) @ items bo vs,
      length (pre @ items bo [v]) + encoded_sizes vs + length vs)"
    using 16 by (intro "16.IH") auto
  finally show ?case using "16.prems" length_payload(3) [of "[v]"] by simp
qed (auto simp: payload_size_def rust_simps write_string_correct write_function_correct
    encoded_len.simps)

end

subsection \<open>The decoder never panics\<close>

lemma decode_sos_returns: "returns (decode_sos bo d lzy)"
  by (auto simp: decode_sos_def slice_def Let_def)

lemma next_payload_returns: "returns (next_payload bo it)"
  by (cases "di_buff it")
    (auto simp: next_payload_def slice_def index_def Let_def split: option.splits)

lemma next_payload_fixed:
  "next_payload bo it = Some (Some (t, d, n)) \<Longrightarrow> fixed_size t = Some k \<Longrightarrow> length d = k"
  by (auto simp: next_payload_def slice_def index_def Let_def bind_eq_Some_conv
      split: if_splits option.splits)

lemma read_string_returns: "returns (read_string d)"
  by (simp add: read_string_def slice_def)

lemma read_function_returns: "returns (read_function d)"
  using position_Some [of "\<lambda>x. x = 0"]
  by (fastforce simp: read_function_def slice_def split: option.splits)

lemma decode_returns:
  "(\<And>k. fixed_size t = Some k \<Longrightarrow> length d = k) \<Longrightarrow> returns (decode_value bo lzy t d)"
  "returns (collect_values bo it)"
proof (induction bo lzy t d and bo it rule: decode_value_collect_values.induct)
  case (1 bo lzy t d)
  then show ?case
    using read_string_returns [of d] read_function_returns [of d] decode_sos_returns [of bo d lzy]
    by (subst decode_value.simps)
      (auto simp: bo_read_def slice_def split: ctype.splits option.splits)
next
  case (2 bo it)
  have "returns (slice (di_buff it) n (length (di_buff it)))"
    if "next_payload bo it = Some (Some (t, d, n))" for t d n
    using next_payload_shorter [OF that] by (simp add: slice_def)
  then show ?case
    using next_payload_returns [of bo it] next_payload_fixed [of bo it] "2.IH"
    by (subst collect_values.simps) (auto split: option.splits; fastforce)
qed

lemma collect_values_next:
  "collect_values bo it =
    (case next_value bo it of
       None \<Rightarrow> panic
     | Some (None, _) \<Rightarrow> Some []
     | Some (Some v, it') \<Rightarrow> map_option ((#) v) (collect_values bo it'))"
  by (subst collect_values.simps)
    (auto simp: next_value_def map_option_case split: option.splits prod.splits)

subsection \<open>Round trips\<close>

text \<open>
  The values that survive a round trip: strings are valid UTF-8 (which the type &str guarantees),
  a function's module name holds no NUL byte, and an embedded list is not empty.
\<close>

fun storable :: "sos_value \<Rightarrow> bool" where
  "storable (StringV i) = utf8_valid i"
| "storable (ErrorV i) = utf8_valid i"
| "storable (FunctionV f) = (utf8_valid (fn_module f) \<and> utf8_valid (fn_name f) \<and> 0 \<notin> set (fn_module f))"
| "storable (EmbeddedOut _) = False"
| "storable (EmbeddedIn vs) = (vs \<noteq> [] \<and> list_all storable vs)"
| "storable (EmbeddedVec vs) = (vs \<noteq> [] \<and> list_all storable vs)"
| "storable _ = True"

text \<open>What the decoder gives back for a value: lists come back as a vector, or, in lazy mode, as
  an iterator over the embedded bytes.\<close>

fun decoded :: "byteorder \<Rightarrow> bool \<Rightarrow> sos_value \<Rightarrow> sos_value" where
  "decoded bo lzy (EmbeddedIn vs) =
    (if lzy then EmbeddedOut \<lparr> di_count = length vs, di_buff = items bo vs, di_lazy = True \<rparr>
     else EmbeddedVec (map (decoded bo lzy) vs))"
| "decoded bo lzy (EmbeddedVec vs) =
    (if lzy then EmbeddedOut \<lparr> di_count = length vs, di_buff = items bo vs, di_lazy = True \<rparr>
     else EmbeddedVec (map (decoded bo lzy) vs))"
| "decoded bo lzy v = v"

lemma ctype_from_as_u8 [simp]: "ctype_from_u8 (ctype_as_u8 t) = Some t"
  by (cases t) (simp_all add: ctype_from_u8_def)

lemma storable_encodable: "storable v \<Longrightarrow> encodable v"
  by (induction v) (auto simp: list_all_iff)

lemma storable_encodables: "list_all storable vs \<Longrightarrow> list_all encodable vs"
  by (auto simp: list_all_iff storable_encodable)

lemma read_string_payload: "utf8_valid i \<Longrightarrow> read_string (i @ [0]) = Some (Some i)"
  by (simp add: read_string_def slice_def from_utf8_def)

lemma read_function_payload:
  assumes "utf8_valid (fn_module f)" "utf8_valid (fn_name f)" "0 \<notin> set (fn_module f)"
  shows "read_function (fn_module f @ 0 # fn_name f @ [0]) = Some (Some f)"
proof -
  let ?v = "fn_module f @ 0 # fn_name f"
  have "position (\<lambda>x. x = 0) ?v = Some (length (fn_module f))"
    using assms by (intro position_append_hit) auto
  moreover have "slice (?v @ [0]) 0 (length ?v) = Some ?v" by (simp add: slice_def)
  ultimately show ?thesis
    using assms by (simp add: read_function_def slice_def from_utf8_def)
qed

lemma encoded_size_pos: "0 < encoded_size v"
  by (cases v) auto

lemma payload_size_le: "payload_size v \<le> encoded_size v"
  by (cases v) (auto simp: payload_size_def)

lemma collect_values_empty:
  "length b < 5 \<Longrightarrow> collect_values bo \<lparr> di_count = n, di_buff = b, di_lazy = lzy \<rparr> = Some []"
  by (simp add: collect_values.simps next_payload_def)

context byte_order
begin

lemma read_u32_of_nat: "n < 2 ^ 32 \<Longrightarrow> unat (read_u32 bo (write_u32 bo (of_nat n))) = n"
  by (simp add: unat_of_nat)

lemma decode_sos_bytes:
  assumes "list_all encodable vs" "vs \<noteq> []" "encoded_len vs < 2 ^ 32"
  shows "decode_sos bo (sos_bytes bo vs @ rest) lzy =
    Some (Some \<lparr> di_count = length vs, di_buff = items bo vs, di_lazy = lzy \<rparr>)"
proof -
  have "length (items bo vs) = encoded_sizes vs + length vs" using assms length_payload(3) by blast
  moreover have "0 < length vs" "length vs < 2 ^ 32" using assms by (auto simp: encoded_len.simps)
  ultimately show ?thesis
    using assms read_u32_of_nat [of "length vs"] read_u32_of_nat [of "encoded_len vs"]
    by (simp add: decode_sos_def sos_bytes.simps slice_def Let_def encoded_len.simps)
qed

lemma next_payload_item:
  assumes "encodable v" "payload_size v < 2 ^ 32"
  shows "next_payload bo \<lparr> di_count = Suc n, di_buff = items bo [v] @ rest, di_lazy = lzy \<rparr> =
    Some (Some (ctype_of v, payload bo v, length (items bo [v])))"
proof (cases "fixed_size (ctype_of v)")
  case (Some k)
  then have "length (payload bo v) = k" "4 \<le> k"
    using assms(1) length_payload(1) by (cases v; auto simp: payload_size_def)+
  then show ?thesis
    using Some by (simp add: next_payload_def index_def slice_def Let_def)
next
  case None
  then show ?thesis
    using assms length_payload(1) [OF assms(1)] read_u32_of_nat [of "payload_size v"]
    by (simp add: next_payload_def index_def slice_def Let_def)
qed

lemma bo_read_payload [simp]:
  "bo_read 4 (read_i32 bo) (write_i32 bo i) = Some i"
  "bo_read 4 (read_u32 bo) (write_u32 bo i) = Some i"
  "bo_read 4 (read_f32 bo) (write_f32 bo i) = Some i"
  "bo_read 8 (read_i64 bo) (write_i64 bo j) = Some j"
  "bo_read 8 (read_u64 bo) (write_u64 bo j) = Some j"
  "bo_read 8 (read_f64 bo) (write_f64 bo j) = Some j"
  by (simp_all add: bo_read_def)

lemma decode_payload:
  "storable v \<Longrightarrow> payload_size v < 2 ^ 32 \<Longrightarrow>
    decode_value bo lzy (ctype_of v) (payload bo v) = Some (Some (decoded bo lzy v))"
  "list_all storable vs \<Longrightarrow> encoded_len vs < 2 ^ 32 \<Longrightarrow> vs \<noteq> [] \<Longrightarrow>
    decode_value bo lzy CEmbedded (sos_bytes bo vs) = Some (Some (decoded bo lzy (EmbeddedVec vs)))"
  "list_all storable vs \<Longrightarrow> encoded_sizes vs < 2 ^ 32 \<Longrightarrow>
    collect_values bo \<lparr> di_count = length vs + n, di_buff = items bo vs @ rest, di_lazy = lzy \<rparr> =
      map_option ((@) (map (decoded bo lzy) vs))
        (collect_values bo \<lparr> di_count = n, di_buff = rest, di_lazy = lzy \<rparr>)"
proof (induction v and vs and vs arbitrary: and and n rest rule: encoded_size_encoded_len_encoded_sizes.induct)
  case (14 vs)
  have "collect_values bo \<lparr> di_count = length vs, di_buff = items bo vs, di_lazy = lzy \<rparr> =
      Some (map (decoded bo lzy) vs)"
    using 14 "14.IH" [of 0 "[]"] by (simp add: collect_values_empty encoded_len.simps)
  then show ?case
    using 14 decode_sos_bytes [of vs "[]" lzy] storable_encodables
    by (cases lzy) (simp_all add: decode_value.simps)
next
  case 15
  then show ?case by (simp add: option.map_ident)
next
  case (16 v vs)
  let ?r = "items bo vs @ rest"
  let ?it = "\<lparr> di_count = Suc (length vs + n), di_buff = items bo [v] @ ?r, di_lazy = lzy \<rparr>"
  have b: "payload_size v < 2 ^ 32" using 16 payload_size_le [of v] by simp
  have "next_payload bo ?it = Some (Some (ctype_of v, payload bo v, length (items bo [v])))"
    using 16 b by (intro next_payload_item) (auto simp: storable_encodable)
  moreover have "slice (items bo [v] @ ?r) (length (items bo [v])) (length (items bo [v] @ ?r)) = Some ?r"
    by (rule slice_suffix)
  ultimately show ?case
    using 16 b
    by (subst collect_values.simps)
      (cases "collect_values bo \<lparr> di_count = n, di_buff = rest, di_lazy = lzy \<rparr>"; simp)
qed (auto simp: decode_value.simps payload_size_def read_string_payload read_function_payload slice_def)

end

subsection \<open>Iterators cannot be encoded, empty lists cannot be decoded\<close>

lemma with_slice_length:
  assumes "with_slice xs a b f = Some ys" "\<And>s s'. f s = Some s' \<Longrightarrow> length s' = length s"
  shows "length ys = length xs"
proof -
  obtain s s' where s: "slice xs a b = Some s" "f s = Some s'" "ys = take a xs @ s' @ drop b xs"
    using assms(1) by (auto simp: with_slice_def bind_eq_Some_conv)
  moreover have "a \<le> b" "b \<le> length xs" using s(1) by (auto simp: slice_def split: if_splits)
  ultimately show ?thesis using assms(2) [OF s(2)] slice_length [OF s(1)] by simp
qed

lemma write_prefix_length: "write_prefix d s = Some d' \<Longrightarrow> length d' = length d"
  by (auto simp: write_prefix_def split: if_splits)

lemma decode_iter_encode_panics:
  assumes "length w = length (di_buff it)"
  shows "decode_iter_encode bo it w = panic"
proof (rule ccontr)
  assume "\<not> ?thesis"
  then obtain w1 w2 w3 where
    w: "with_slice w 0 4 (\<lambda>w. write_prefix w (write_u32 bo (of_nat (di_count it)))) = Some w1"
      "with_slice w1 4 8 (\<lambda>w. write_prefix w (write_u32 bo 0)) = Some w2"
      "with_slice w2 8 (length w2) (\<lambda>w. copy_from_slice w (di_buff it)) = Some w3"
    by (auto simp: decode_iter_encode_def bind_eq_None_conv)
  have "length w1 = length w" "length w2 = length w1"
    using with_slice_length [OF w(1) write_prefix_length] with_slice_length [OF w(2) write_prefix_length]
    by simp_all
  then show False using w(3) assms
    by (auto simp: with_slice_def slice_def copy_from_slice_def bind_eq_Some_conv split: if_splits)
qed

lemma encode_loop_embedded_out:
  "EmbeddedOut it \<in> set vs \<Longrightarrow> encode_loop bo vs buf c = panic"
proof (induction vs arbitrary: buf c)
  case (Cons v vs)
  show ?case
  proof (cases "v = EmbeddedOut it")
    case True
    have "with_slice b k (k + length (di_buff it)) (encode_value bo v) = panic" for b k
    proof (cases "slice b k (k + length (di_buff it))")
      case (Some w)
      then show ?thesis
        using True slice_length [OF Some] by (simp add: with_slice_def decode_iter_encode_panics)
    qed (simp add: with_slice_def)
    then show ?thesis using True by (auto simp: Let_def bind_eq_None_conv)
  next
    case False
    then have "encode_loop bo vs b k = panic" for b k using Cons by auto
    then show ?thesis by (auto simp: Let_def bind_eq_None_conv split: option.splits)
  qed
qed simp

lemma le32_codec: "codec_ok 4 le32_write le32_read"
proof -
  have w: "unat x < 4294967296" for x :: "32 word" using unsigned_less [of x] by simp
  show ?thesis by (simp add: codec_ok_def le32_write_def le32_read_def le_nat_le_bytes w)
qed

lemma le64_codec: "codec_ok 8 le64_write le64_read"
proof -
  have w: "unat x < 18446744073709551616" for x :: "64 word" using unsigned_less [of x] by simp
  show ?thesis by (simp add: codec_ok_def le64_write_def le64_read_def le_nat_le_bytes w)
qed

lemma little_endian_ok: "byteorder_ok little_endian"
  by (simp add: byteorder_ok_def little_endian_def le32_codec le64_codec)

interpretation native: byte_order little_endian
  by unfold_locales (rule little_endian_ok)

subsection \<open>Properties\<close>

text \<open>C1: encoding any list of values without iterators into a large enough buffer does not panic,
  writes exactly the wire format of the list at the front of the buffer, leaves the bytes behind it
  alone, and returns the number of bytes written, which is \<open>encoded_len\<close>.\<close>

theorem encode_sos_correct:
  assumes "byteorder_ok bo" "list_all encodable vs" "encoded_len vs \<le> length buf"
  shows "encode_sos bo vs buf = Some (sos_bytes bo vs @ drop (encoded_len vs) buf, encoded_len vs)"
  using byte_order.encode_refines(2) [OF byte_order.intro] assms by blast

theorem encode_sos_correct_witness:
  "encode_sos little_endian [UInt32 7, EmbeddedIn [StringV [65]]] (replicate 40 9) =
    Some (sos_bytes little_endian [UInt32 7, EmbeddedIn [StringV [65]]] @ replicate 7 9, 33)"
  using encode_sos_correct [of little_endian "[UInt32 7, EmbeddedIn [StringV [65]]]" "replicate 40 9"]
  by (simp add: little_endian_ok encoded_len.simps)

text \<open>C2: whatever the buffer held before, decoding what the encoder wrote gives back the encoded
  values, nested lists included; the values must be valid UTF-8 where they are strings, hold no
  empty embedded list, no iterator and no NUL in a module name, and take less than 4 GiB.\<close>

theorem sos_roundtrip:
  assumes "byteorder_ok bo" "list_all storable vs" "vs \<noteq> []"
    and "encoded_len vs < 2 ^ 32" "encoded_len vs \<le> length buf"
  shows "\<exists>out it. encode_sos bo vs buf = Some (out, encoded_len vs) \<and>
    decode_sos bo out False = Some (Some it) \<and>
    collect_values bo it = Some (map (decoded bo False) vs)"
proof -
  have bo: "byte_order bo" using assms(1) by (rule byte_order.intro)
  have "collect_values bo \<lparr> di_count = length vs, di_buff = items bo vs, di_lazy = False \<rparr> =
      Some (map (decoded bo False) vs)"
    using byte_order.decode_payload(3) [OF bo assms(2), where n = 0 and rest = "[]"] assms(4)
    by (simp add: collect_values_empty encoded_len.simps)
  then show ?thesis
    using byte_order.encode_refines(2) [OF bo] byte_order.decode_sos_bytes [OF bo]
      storable_encodables assms by blast
qed

theorem sos_roundtrip_witness:
  "\<exists>out it. encode_sos little_endian [EmbeddedIn [UInt64 5], StringV [72, 105]] (replicate 38 0) =
      Some (out, 38) \<and>
    decode_sos little_endian out False = Some (Some it) \<and>
    collect_values little_endian it = Some [EmbeddedVec [UInt64 5], StringV [72, 105]]"
  using sos_roundtrip [of little_endian "[EmbeddedIn [UInt64 5], StringV [72, 105]]" "replicate 38 0"]
  by (simp add: little_endian_ok encoded_len.simps)

text \<open>C3: in lazy mode an embedded list comes back as an iterator, and running that iterator gives
  the embedded values, again lazily.\<close>

theorem sos_lazy_roundtrip:
  assumes "byteorder_ok bo" "list_all storable vs" "vs \<noteq> []" "list_all storable inner" "inner \<noteq> []"
    and "encoded_len (EmbeddedIn inner # vs) < 2 ^ 32"
  shows "\<exists>it sub. decode_sos bo (sos_bytes bo (EmbeddedIn inner # vs)) True = Some (Some it) \<and>
    collect_values bo it = Some (EmbeddedOut sub # map (decoded bo True) vs) \<and>
    collect_values bo sub = Some (map (decoded bo True) inner)"
proof -
  let ?vs = "EmbeddedIn inner # vs"
  have bo: "byte_order bo" using assms(1) by (rule byte_order.intro)
  have ok: "list_all storable ?vs" using assms by simp
  have len: "encoded_sizes ?vs < 2 ^ 32" "encoded_sizes inner < 2 ^ 32"
    using assms(6) by (auto simp: encoded_len.simps)
  note c = byte_order.decode_payload(3) [OF bo, where lzy = True and n = 0 and rest = "[]"]
  have "collect_values bo \<lparr> di_count = length ?vs, di_buff = items bo ?vs, di_lazy = True \<rparr> =
      Some (map (decoded bo True) ?vs)"
    using c [OF ok len(1)] by (simp add: collect_values_empty)
  moreover have "collect_values bo \<lparr> di_count = length inner, di_buff = items bo inner, di_lazy = True \<rparr> =
      Some (map (decoded bo True) inner)"
    using c [OF assms(4) len(2)] by (simp add: collect_values_empty)
  ultimately show ?thesis
    using byte_order.decode_sos_bytes [OF bo storable_encodables [OF ok], of "[]" True] assms(6) by auto
qed

theorem sos_lazy_roundtrip_witness:
  "\<exists>it sub. decode_sos little_endian (sos_bytes little_endian [EmbeddedIn [Int32 3], Opaque [1]]) True =
      Some (Some it) \<and>
    collect_values little_endian it = Some [EmbeddedOut sub, Opaque [1]] \<and>
    collect_values little_endian sub = Some [Int32 3]"
  using sos_lazy_roundtrip [of little_endian "[Opaque [1]]" "[Int32 3]"]
  by (simp add: little_endian_ok encoded_len.simps)

text \<open>C4: decoding never panics: for every byte string, in both modes, \<open>decode_sos\<close> returns, every
  call of the iterator returns, and running the iterator to its end returns a list.\<close>

theorem sos_decode_never_panics:
  "returns (decode_sos bo buf lzy) \<and> returns (next_value bo it) \<and> returns (collect_values bo it)"
proof -
  have "returns (next_value bo it)"
    using decode_returns(2) [of bo it] by (subst (asm) collect_values_next) (auto split: option.splits)
  then show ?thesis using decode_sos_returns decode_returns(2) by blast
qed

text \<open>C5: encoding a list that holds a decoder's iterator (an EmbeddedOut value) always panics,
  whatever the buffer: the size reserved for the iterator does not count its 8-byte header.\<close>

theorem encode_embedded_out_panics:
  assumes "EmbeddedOut it \<in> set vs"
  shows "encode_sos bo vs buf = panic"
  using encode_loop_embedded_out [OF assms]
  by (auto simp: encode_sos.simps Let_def bind_eq_None_conv)

theorem encode_embedded_out_panics_witness:
  "encode_sos little_endian
    [EmbeddedOut \<lparr> di_count = 1, di_buff = [1, 7, 0, 0, 0], di_lazy = True \<rparr>] (replicate 100 0) = panic"
  by (rule encode_embedded_out_panics) simp

text \<open>C6: an empty embedded list ends the decoding of the list around it: the values encoded after
  it are lost without an error, since \<open>decode_sos\<close> refuses the eight bytes of an empty list.\<close>

theorem empty_embedded_truncates:
  assumes "byteorder_ok bo" "list_all storable vs" "list_all encodable vs'"
    and "encoded_len (vs @ EmbeddedIn [] # vs') < 2 ^ 32"
  shows "\<exists>it. decode_sos bo (sos_bytes bo (vs @ EmbeddedIn [] # vs')) False = Some (Some it) \<and>
    collect_values bo it = Some (map (decoded bo False) vs)"
proof -
  let ?vs = "vs @ EmbeddedIn [] # vs'"
  have bo: "byte_order bo" using assms(1) by (rule byte_order.intro)
  have it: "items bo ?vs = items bo vs @ items bo [EmbeddedIn []] @ items bo vs'"
    by (induction vs) auto
  have sz: "encoded_sizes vs \<le> encoded_sizes ?vs" by (induction vs) auto
  have "next_payload bo \<lparr> di_count = Suc n, di_buff = items bo [EmbeddedIn []] @ items bo vs', di_lazy = False \<rparr> =
      Some (Some (CEmbedded, sos_bytes bo [], length (items bo [EmbeddedIn []])))" for n
    using byte_order.next_payload_item [OF bo, of "EmbeddedIn []" n "items bo vs'" False]
    by (simp add: payload_size_def encoded_len.simps)
  moreover have "decode_value bo False CEmbedded (sos_bytes bo []) = Some None"
    using byte_order.write_length [OF bo]
    by (simp add: decode_value.simps sos_bytes.simps decode_sos_def)
  ultimately have "collect_values bo
      \<lparr> di_count = Suc n, di_buff = items bo [EmbeddedIn []] @ items bo vs', di_lazy = False \<rparr> = Some []" for n
    by (subst collect_values.simps) simp
  then have "collect_values bo \<lparr> di_count = length ?vs, di_buff = items bo ?vs, di_lazy = False \<rparr> =
      Some (map (decoded bo False) vs)"
    using byte_order.decode_payload(3) [OF bo assms(2), where n = "Suc (length vs')" and lzy = False]
      assms(4) sz by (simp add: it encoded_len.simps)
  then show ?thesis
    using byte_order.decode_sos_bytes [OF bo, of ?vs "[]" False] assms storable_encodables by auto
qed

theorem empty_embedded_truncates_witness:
  "\<exists>it. decode_sos little_endian (sos_bytes little_endian [UInt32 1, EmbeddedIn [], UInt32 2]) False =
      Some (Some it) \<and> collect_values little_endian it = Some [UInt32 1]"
  using empty_embedded_truncates [of little_endian "[UInt32 1]" "[UInt32 2]"]
  by (simp add: little_endian_ok encoded_len.simps)

end
