(* ===== verification/Ringbuf.thy ===== *)
theory Ringbuf
  imports Prelude
begin

text \<open>
  The single-producer single-consumer ring buffer of ringbuf/src/lib.rs.  The header's atomics and
  cells are the fields of a record, kept at their width of 64 bits; the data area is the byte list
  behind the header.  Each operation is a function on the record; the interleavings of a producer
  and a consumer are a step relation whose events carry the bytes that pass through the buffer.
\<close>

subsection \<open>The header\<close>

record ring =
  rb_capacity :: "64 word"
  rb_allocated_size :: "64 word"
  rb_head :: "64 word"
  rb_shadow_tail :: "64 word"
  rb_tail :: "64 word"
  rb_shadow_head :: "64 word"
  rb_data :: bytes

definition sizeof_header :: nat where
  "sizeof_header = 3 * 64"

definition prev_power_of_two :: "64 word \<Rightarrow> 64 word" where
  "prev_power_of_two x =
    (let x = x OR drop_bit 1 x;
         x = x OR drop_bit 2 x;
         x = x OR drop_bit 4 x;
         x = x OR drop_bit 8 x;
         x = x OR drop_bit 16 x
     in x - drop_bit 1 x)"

definition new_inline_at :: "bytes \<Rightarrow> ring rust" where
  "new_inline_at buff =
    (if length buff \<le> sizeof_header then panic
     else do {
       let cap = prev_power_of_two (of_nat (length buff - sizeof_header));
       d \<leftarrow> slice buff sizeof_header (sizeof_header + unat cap);
       Some \<lparr> rb_capacity = cap, rb_allocated_size = cap, rb_head = 0, rb_shadow_tail = 0,
              rb_tail = 0, rb_shadow_head = 0, rb_data = d \<rparr> })"

text \<open>\<open>Producer::from_slice\<close> and \<open>Consumer::from_slice\<close>: find the header at the front of the
  slice and check that its capacity is the one the length of the slice gives.\<close>

definition handle_from_slice :: "ring \<Rightarrow> bytes \<Rightarrow> ring rust" where
  "handle_from_slice hdr buff =
    (let cap = prev_power_of_two (of_nat (length buff - sizeof_header)) in
     if cap \<noteq> rb_capacity hdr then panic
     else do {
       d \<leftarrow> slice buff sizeof_header (sizeof_header + unat cap);
       Some (hdr\<lparr>rb_data := d\<rparr>) })"

definition rb_size :: "ring \<Rightarrow> 64 word" where
  "rb_size r = rb_tail r - rb_head r"

definition rb_free_space :: "ring \<Rightarrow> 64 word" where
  "rb_free_space r = rb_capacity r - rb_size r"

subsection \<open>The producer\<close>

record handle =
  at :: "64 word"
  amount :: "64 word"

definition would_overrun :: "ring \<Rightarrow> 64 word \<Rightarrow> bool" where
  "would_overrun r n \<longleftrightarrow> rb_shadow_head r + rb_capacity r \<le> rb_tail r + n"

definition refresh_head :: "ring \<Rightarrow> ring" where
  "refresh_head r = r\<lparr>rb_shadow_head := rb_head r\<rparr>"

definition try_write :: "ring \<Rightarrow> 64 word \<Rightarrow> ring \<times> handle option" where
  "try_write r n =
    (let current_tail = rb_tail r in
     if would_overrun r n then
       (let r = refresh_head r in
        if would_overrun r n then (r, None)
        else (r, Some \<lparr> at = current_tail, amount = n \<rparr>))
     else (r, Some \<lparr> at = current_tail, amount = n \<rparr>))"

definition handle_offset :: "ring \<Rightarrow> handle \<Rightarrow> nat" where
  "handle_offset r h = unat (at h AND (rb_allocated_size r - 1))"

definition handle_deref :: "ring \<Rightarrow> handle \<Rightarrow> bytes rust" where
  "handle_deref r h = slice (rb_data r) (handle_offset r h) (handle_offset r h + unat (amount h))"

text \<open>Store the bytes \<open>bs\<close> through the mutable slice of a write handle.\<close>

definition write_through :: "ring \<Rightarrow> handle \<Rightarrow> bytes \<Rightarrow> ring rust" where
  "write_through r h bs = do {
     d \<leftarrow> with_slice (rb_data r) (handle_offset r h) (handle_offset r h + unat (amount h))
           (\<lambda>w. copy_from_slice w bs);
     Some (r\<lparr>rb_data := d\<rparr>) }"

definition write_drop :: "ring \<Rightarrow> handle \<Rightarrow> ring" where
  "write_drop r h = r\<lparr>rb_tail := at h + amount h\<rparr>"

subsection \<open>The consumer\<close>

definition must_wait :: "ring \<Rightarrow> 64 word \<Rightarrow> bool" where
  "must_wait r n \<longleftrightarrow> rb_shadow_tail r - rb_head r < n"

definition refresh_tail :: "ring \<Rightarrow> ring" where
  "refresh_tail r = r\<lparr>rb_shadow_tail := rb_tail r\<rparr>"

fun try_read :: "ring \<Rightarrow> 64 word \<Rightarrow> nat \<Rightarrow> ring \<times> handle option" where
  "try_read r n 0 =
    (if must_wait r n then (refresh_tail r, None)
     else (r, Some \<lparr> at = rb_head r, amount = n \<rparr>))"
| "try_read r n (Suc m) =
    (if must_wait r n then try_read (refresh_tail r) n m
     else (r, Some \<lparr> at = rb_head r, amount = n \<rparr>))"

definition skip_n :: "ring \<Rightarrow> 64 word \<Rightarrow> ring \<times> 64 word" where
  "skip_n r n =
    (let current_head = rb_head r; r = refresh_tail r in
     if current_head = rb_shadow_tail r then (r, 0)
     else
       (let diff = rb_shadow_tail r - current_head;
            diff = (if diff > n then n else diff)
        in (r\<lparr>rb_head := current_head + diff\<rparr>, diff)))"

definition read_drop :: "ring \<Rightarrow> handle \<Rightarrow> ring" where
  "read_drop r h = r\<lparr>rb_head := at h + amount h\<rparr>"

text \<open>The blocking variants spin until the other side has moved; when nothing moves they do not
  return, which is the value None.\<close>

partial_function (option) write_spin :: "ring \<Rightarrow> 64 word \<Rightarrow> (ring \<times> handle) option" where
  "write_spin r n =
    (if would_overrun r n then write_spin (refresh_head r) n
     else Some (r, \<lparr> at = rb_tail r, amount = n \<rparr>))"

partial_function (option) read_spin :: "ring \<Rightarrow> 64 word \<Rightarrow> (ring \<times> handle) option" where
  "read_spin r n =
    (if must_wait r n then read_spin (refresh_tail r) n
     else Some (r, \<lparr> at = rb_head r, amount = n \<rparr>))"

subsection \<open>Producer and consumer interleaved\<close>

datatype event = Wrote bytes | Got bytes | Tau

record system =
  s_ring :: ring
  s_writer :: "handle option"
  s_reader :: "handle option"

definition wrap_free :: "ring \<Rightarrow> 64 word \<Rightarrow> bool" where
  "wrap_free r n \<longleftrightarrow> unat (rb_tail r) + unat n + unat (rb_capacity r) < 2 ^ 64"

inductive step :: "system \<Rightarrow> event \<Rightarrow> system \<Rightarrow> bool" where
  try_write: "s_writer s = None \<Longrightarrow> wrap_free (s_ring s) n \<Longrightarrow> try_write (s_ring s) n = (r, h) \<Longrightarrow>
    step s Tau (s\<lparr>s_ring := r, s_writer := h\<rparr>)"
| write_wait: "s_writer s = None \<Longrightarrow> would_overrun (s_ring s) n \<Longrightarrow>
    step s Tau (s\<lparr>s_ring := refresh_head (s_ring s)\<rparr>)"
| fill: "s_writer s = Some h \<Longrightarrow> write_through (s_ring s) h bs = Some r \<Longrightarrow>
    step s Tau (s\<lparr>s_ring := r\<rparr>)"
| write_drop: "s_writer s = Some h \<Longrightarrow> handle_deref (s_ring s) h = Some bs \<Longrightarrow>
    step s (Wrote bs) (s\<lparr>s_ring := write_drop (s_ring s) h, s_writer := None\<rparr>)"
| read_wait: "s_reader s = None \<Longrightarrow> must_wait (s_ring s) n \<Longrightarrow>
    step s Tau (s\<lparr>s_ring := refresh_tail (s_ring s)\<rparr>)"
| read: "s_reader s = None \<Longrightarrow> \<not> must_wait (s_ring s) n \<Longrightarrow>
    step s Tau (s\<lparr>s_reader := Some \<lparr> at = rb_head (s_ring s), amount = n \<rparr>\<rparr>)"
| read_drop: "s_reader s = Some h \<Longrightarrow> handle_deref (s_ring s) h = Some bs \<Longrightarrow>
    step s (Got bs) (s\<lparr>s_ring := read_drop (s_ring s) h, s_reader := None\<rparr>)"

inductive steps :: "system \<Rightarrow> event list \<Rightarrow> system \<Rightarrow> bool" where
  steps_nil: "steps s [] s"
| steps_snoc: "steps s es s' \<Longrightarrow> step s' e s'' \<Longrightarrow> steps s (es @ [e]) s''"

fun written :: "event list \<Rightarrow> bytes" where
  "written [] = []"
| "written (Wrote bs # es) = bs @ written es"
| "written (_ # es) = written es"

fun got :: "event list \<Rightarrow> bytes" where
  "got [] = []"
| "got (Got bs # es) = bs @ got es"
| "got (_ # es) = got es"

subsection \<open>Invariant and abstraction to a queue\<close>

definition rb_inv :: "ring \<Rightarrow> bool" where
  "rb_inv r \<longleftrightarrow>
    (\<exists>k < 64. rb_capacity r = 2 ^ k) \<and> rb_allocated_size r = rb_capacity r \<and>
    length (rb_data r) = unat (rb_capacity r) \<and>
    unat (rb_shadow_head r) \<le> unat (rb_head r) \<and>
    unat (rb_head r) \<le> unat (rb_shadow_tail r) \<and>
    unat (rb_shadow_tail r) \<le> unat (rb_tail r) \<and>
    unat (rb_tail r) \<le> unat (rb_head r) + unat (rb_capacity r) \<and>
    unat (rb_tail r) + unat (rb_capacity r) < 2 ^ 64"

text \<open>The bytes at the stream positions \<open>i, \<dots>, j - 1\<close>.\<close>

definition window :: "ring \<Rightarrow> nat \<Rightarrow> nat \<Rightarrow> bytes" where
  "window r i j = map (\<lambda>p. rb_data r ! (p mod unat (rb_capacity r))) [i..<j]"

definition contents :: "ring \<Rightarrow> bytes" where
  "contents r = window r (unat (rb_head r)) (unat (rb_tail r))"

definition sys_inv :: "system \<Rightarrow> bool" where
  "sys_inv s \<longleftrightarrow> rb_inv (s_ring s) \<and>
    (case s_writer s of None \<Rightarrow> True
     | Some h \<Rightarrow> at h = rb_tail (s_ring s) \<and> wrap_free (s_ring s) (amount h) \<and>
         unat (at h) + unat (amount h) < unat (rb_head (s_ring s)) + unat (rb_capacity (s_ring s))) \<and>
    (case s_reader s of None \<Rightarrow> True
     | Some h \<Rightarrow> at h = rb_head (s_ring s) \<and>
         unat (at h) + unat (amount h) \<le> unat (rb_shadow_tail (s_ring s)))"

end
