(* ===== verification/Ringbuf_Queue.thy ===== *)
theory Ringbuf_Queue
  imports Ringbuf
begin

text \<open>
  The ring buffer implements a queue of bytes: the size computation, the index arithmetic, the
  effect of every operation on the abstract queue, and the invariant of all interleavings.
\<close>

subsection \<open>The power of two below a size\<close>






subsection \<open>Index arithmetic\<close>

lemma rb_inv_capacity:
  assumes "rb_inv r"
  obtains k where "k < 64" "rb_capacity r = 2 ^ k" "unat (rb_capacity r) = 2 ^ k"
proof -
  obtain k where k: "k < 64" "rb_capacity r = 2 ^ k" using assms by (auto simp: rb_inv_def)
  then have "unat (rb_capacity r) = 2 ^ k" by (simp add: unat_exp64)
  with k that show ?thesis by blast
qed

lemma rb_inv_cap_pos: "rb_inv r \<Longrightarrow> 0 < unat (rb_capacity r)"
  by (metis rb_inv_capacity zero_less_numeral zero_less_power)

lemma handle_offset_mod:
  assumes "rb_inv r"
  shows "handle_offset r h = unat (at h) mod unat (rb_capacity r)"
proof -
  obtain k where k: "k < 64" "rb_capacity r = 2 ^ k" "unat (rb_capacity r) = 2 ^ k"
    using rb_inv_capacity [OF assms] .
  have "rb_allocated_size r - 1 = mask k"
    using assms k by (simp add: rb_inv_def mask_eq_exp_minus_1)
  then have "at h AND (rb_allocated_size r - 1) = take_bit k (at h)"
    by (simp add: take_bit_eq_mask)
  then show ?thesis
    using k by (simp add: handle_offset_def unsigned_take_bit_eq)
      (simp add: take_bit_eq_mod)
qed

lemma mod_apart:
  fixes p s c :: nat
  assumes "p < s" "s < p + c"
  shows "p mod c \<noteq> s mod c"
proof
  assume "p mod c = s mod c"
  then have "c dvd s - p" using assms(1) by (metis less_imp_le mod_eq_dvd_iff_nat)
  then have "c \<le> s - p" using assms(1) by (intro dvd_imp_le) auto
  then show False using assms by simp
qed

lemma mod_add_within:
  fixes i j c :: nat
  assumes "i mod c + j < c"
  shows "(i + j) mod c = i mod c + j"
  using assms by (metis mod_add_left_eq mod_less)

lemma window_slice:
  assumes "length (rb_data r) = unat (rb_capacity r)" "i mod unat (rb_capacity r) + n \<le> unat (rb_capacity r)"
  shows "window r i (i + n) = take n (drop (i mod unat (rb_capacity r)) (rb_data r))"
  using assms by (intro nth_equalityI) (auto simp: window_def mod_add_within)

lemma window_append: "i \<le> j \<Longrightarrow> j \<le> k \<Longrightarrow> window r i j @ window r j k = window r i k"
  unfolding window_def by (metis le_Suc_ex map_append upt_add_eq_append)

lemma length_window [simp]: "length (window r i j) = j - i"
  by (simp add: window_def)

lemma window_outside:
  fixes r :: ring
  defines "c \<equiv> unat (rb_capacity r)"
  assumes d: "d = take (t mod c) (rb_data r) @ bs @ drop (t mod c + length bs) (rb_data r)"
    and len: "length (rb_data r) = c" "t mod c + length bs \<le> c"
    and ij: "j \<le> t" "t + length bs \<le> i + c"
  shows "window (r\<lparr>rb_data := d\<rparr>) i j = window r i j"
proof -
  have "d ! (p mod c) = rb_data r ! (p mod c)" if p: "i \<le> p" "p < j" for p
  proof -
    have c: "p mod c < c" using len p ij by (metis add_0 mod_less_divisor not_gr0 not_less le_add1
          order_less_le_trans add.commute le_trans)
    have "p mod c \<noteq> t mod c + q" if "q < length bs" for q
      using mod_apart [of p "t + q" c] mod_add_within [of t c q] that p ij len by simp
    then have "p mod c < t mod c \<or> t mod c + length bs \<le> p mod c"
      by (metis add_less_cancel_left le_add_diff_inverse not_less)
    then show ?thesis using c len by (auto simp: d nth_append min_def)
  qed
  then show ?thesis by (auto simp: window_def c_def)
qed

subsection \<open>The operations on the abstract queue\<close>

lemma would_overrun_iff:
  assumes "rb_inv r" "wrap_free r n"
  shows "would_overrun r n \<longleftrightarrow>
    unat (rb_shadow_head r) + unat (rb_capacity r) \<le> unat (rb_tail r) + unat n"
proof -
  have "unat (rb_shadow_head r + rb_capacity r) = unat (rb_shadow_head r) + unat (rb_capacity r)"
    "unat (rb_tail r + n) = unat (rb_tail r) + unat n"
    using assms by (auto intro!: unat_add64 simp: rb_inv_def wrap_free_def)
  then show ?thesis by (simp add: would_overrun_def word_le_nat_alt)
qed

lemma refresh_head_inv: "rb_inv r \<Longrightarrow> rb_inv (refresh_head r)"
  by (simp add: rb_inv_def refresh_head_def)

lemma refresh_tail_inv: "rb_inv r \<Longrightarrow> rb_inv (refresh_tail r)"
  by (auto simp: rb_inv_def refresh_tail_def)

lemma contents_refresh [simp]:
  "contents (refresh_head r) = contents r" "contents (refresh_tail r) = contents r"
  by (simp_all add: contents_def window_def refresh_head_def refresh_tail_def)

lemma refresh_select [simp]:
  "rb_tail (refresh_head r) = rb_tail r" "rb_head (refresh_head r) = rb_head r"
  "rb_capacity (refresh_head r) = rb_capacity r" "rb_shadow_tail (refresh_head r) = rb_shadow_tail r"
  "rb_tail (refresh_tail r) = rb_tail r" "rb_head (refresh_tail r) = rb_head r"
  "rb_capacity (refresh_tail r) = rb_capacity r" "rb_shadow_head (refresh_head r) = rb_head r"
  "rb_shadow_tail (refresh_tail r) = rb_tail r"
  by (simp_all add: refresh_head_def refresh_tail_def)

lemma wrap_free_refresh [simp]:
  "wrap_free (refresh_head r) n = wrap_free r n" "wrap_free (refresh_tail r) n = wrap_free r n"
  by (simp_all add: wrap_free_def)

lemma try_write_cases:
  assumes "rb_inv r" "wrap_free r n" "try_write r n = (r', h)"
  shows "(r' = r \<or> r' = refresh_head r) \<and>
    h = (if unat (rb_tail r) + unat n < unat (rb_head r) + unat (rb_capacity r)
         then Some \<lparr> at = rb_tail r, amount = n \<rparr> else None)"
proof -
  have "unat (rb_shadow_head r) \<le> unat (rb_head r)" using assms(1) by (simp add: rb_inv_def)
  then show ?thesis
    using assms would_overrun_iff [OF assms(1,2)]
      would_overrun_iff [OF refresh_head_inv [OF assms(1)], of n]
    by (auto simp: try_write_def Let_def split: if_splits)
qed

lemma handle_deref_window:
  assumes "rb_inv r" "unat (at h) mod unat (rb_capacity r) + unat (amount h) \<le> unat (rb_capacity r)"
  shows "handle_deref r h = Some (window r (unat (at h)) (unat (at h) + unat (amount h)))"
  using assms window_slice [of r "unat (at h)" "unat (amount h)"]
  by (simp add: handle_deref_def handle_offset_mod slice_def rb_inv_def)

lemma handle_deref_crossing:
  assumes "rb_inv r" "unat (rb_capacity r) < unat (at h) mod unat (rb_capacity r) + unat (amount h)"
  shows "handle_deref r h = panic"
  using assms by (simp add: handle_deref_def handle_offset_mod slice_def rb_inv_def)

lemma write_through_cases:
  assumes "rb_inv r" "write_through r h bs = Some r'"
  shows "length bs = unat (amount h)"
    "unat (at h) mod unat (rb_capacity r) + length bs \<le> unat (rb_capacity r)"
    "r' = r\<lparr>rb_data := take (unat (at h) mod unat (rb_capacity r)) (rb_data r) @ bs @
      drop (unat (at h) mod unat (rb_capacity r) + length bs) (rb_data r)\<rparr>"
  using assms
  by (auto simp: write_through_def handle_offset_mod with_slice_def slice_def copy_from_slice_def
      bind_eq_Some_conv rb_inv_def split: if_splits)

lemma write_through_inv:
  assumes "rb_inv r" "write_through r h bs = Some r'"
  shows "rb_inv r'"
  using assms(1) write_through_cases [OF assms] by (auto simp: rb_inv_def)

lemma write_through_contents:
  assumes "rb_inv r" "write_through r h bs = Some r'" "at h = rb_tail r"
    and "unat (at h) + unat (amount h) \<le> unat (rb_head r) + unat (rb_capacity r)"
  shows "contents r' = contents r" "handle_deref r' h = Some bs"
proof -
  note c = write_through_cases [OF assms(1,2)]
  have len: "length (rb_data r) = unat (rb_capacity r)" using assms(1) by (simp add: rb_inv_def)
  have "window r' (unat (rb_head r)) (unat (rb_tail r)) = window r (unat (rb_head r)) (unat (rb_tail r))"
    unfolding c(3) by (rule window_outside) (use c len assms in auto)
  then show "contents r' = contents r" by (simp add: contents_def c(3))
  have "handle_offset r' h = unat (at h) mod unat (rb_capacity r)"
    using handle_offset_mod [OF write_through_inv [OF assms(1,2)]] by (simp add: c(3))
  then show "handle_deref r' h = Some bs"
    using c(1,2) len by (simp add: handle_deref_def slice_def c(3))
qed

lemma write_drop_spec:
  assumes "rb_inv r" "at h = rb_tail r" "wrap_free r (amount h)"
    and "unat (at h) + unat (amount h) \<le> unat (rb_head r) + unat (rb_capacity r)"
    and "handle_deref r h = Some bs"
  shows "rb_inv (write_drop r h)" "contents (write_drop r h) = contents r @ bs"
proof -
  have t: "unat (rb_tail r + amount h) = unat (rb_tail r) + unat (amount h)"
    using assms(3) by (intro unat_add64) (simp add: wrap_free_def)
  then show "rb_inv (write_drop r h)"
    using assms by (auto simp: rb_inv_def write_drop_def wrap_free_def)
  have "bs = window r (unat (rb_tail r)) (unat (rb_tail r) + unat (amount h))"
    using assms handle_deref_window [OF assms(1), of h] handle_deref_crossing [OF assms(1), of h]
    by (metis not_le option.distinct(1) option.inject)
  moreover have "contents (write_drop r h) =
      window r (unat (rb_head r)) (unat (rb_tail r) + unat (amount h))"
    using assms(2) t by (simp add: contents_def write_drop_def window_def)
  ultimately show "contents (write_drop r h) = contents r @ bs"
    using assms(1) by (simp add: contents_def window_append rb_inv_def)
qed

lemma must_wait_iff:
  assumes "rb_inv r"
  shows "must_wait r n \<longleftrightarrow> unat (rb_shadow_tail r) < unat (rb_head r) + unat n"
proof -
  have "unat (rb_shadow_tail r - rb_head r) = unat (rb_shadow_tail r) - unat (rb_head r)"
    using assms by (intro unat_sub64) (simp add: rb_inv_def)
  then show ?thesis using assms by (auto simp: must_wait_def word_less_nat_alt rb_inv_def)
qed

lemma read_drop_spec:
  assumes "rb_inv r" "at h = rb_head r" "unat (at h) + unat (amount h) \<le> unat (rb_shadow_tail r)"
    and "handle_deref r h = Some bs"
  shows "rb_inv (read_drop r h)" "contents r = bs @ contents (read_drop r h)"
    "unat (rb_head (read_drop r h)) = unat (rb_head r) + unat (amount h)"
proof -
  have st: "unat (rb_shadow_tail r) < 2 ^ LENGTH(64)" by (rule unsigned_less)
  then have t: "unat (rb_head r + amount h) = unat (rb_head r) + unat (amount h)"
    using assms by (intro unat_add64) auto
  then show "rb_inv (read_drop r h)" "unat (rb_head (read_drop r h)) = unat (rb_head r) + unat (amount h)"
    using assms by (auto simp: rb_inv_def read_drop_def)
  have "bs = window r (unat (rb_head r)) (unat (rb_head r) + unat (amount h))"
    using assms handle_deref_window [OF assms(1), of h] handle_deref_crossing [OF assms(1), of h]
    by (metis not_le option.distinct(1) option.inject)
  moreover have "contents (read_drop r h) =
      window r (unat (rb_head r) + unat (amount h)) (unat (rb_tail r))"
    using assms(2) t by (simp add: contents_def read_drop_def window_def)
  ultimately show "contents r = bs @ contents (read_drop r h)"
    using assms by (simp add: contents_def window_append rb_inv_def)
qed


lemma written_append [simp]: "written (es @ es') = written es @ written es'"
  by (induction es rule: written.induct) auto

lemma got_append [simp]: "got (es @ es') = got es @ got es'"
  by (induction es rule: got.induct) auto




lemma try_read_quiet:
  assumes "rb_inv r"
  shows "snd (try_read r n (Suc m)) =
    (if unat (rb_head r) + unat n \<le> unat (rb_tail r)
     then Some \<lparr> at = rb_head r, amount = n \<rparr> else None)"
proof -
  have w: "must_wait (refresh_tail r) n \<longleftrightarrow> unat (rb_tail r) < unat (rb_head r) + unat n"
    using must_wait_iff [OF refresh_tail_inv [OF assms]] by simp
  have idle: "refresh_tail (refresh_tail r) = refresh_tail r" by (simp add: refresh_tail_def)
  have fixed: "snd (try_read (refresh_tail r) n k) =
      (if must_wait (refresh_tail r) n then None else Some \<lparr> at = rb_head r, amount = n \<rparr>)" for k
    by (induction k) (simp_all add: idle)
  have "unat (rb_shadow_tail r) \<le> unat (rb_tail r)" using assms by (simp add: rb_inv_def)
  then show ?thesis using fixed [of m] w must_wait_iff [OF assms] by auto
qed

lemma skip_n_spec:
  assumes "rb_inv r" "skip_n r n = (r', d)"
  shows "rb_inv r'" "unat d = min (unat n) (length (contents r))"
    "contents r' = drop (unat d) (contents r)"
proof -
  let ?h = "unat (rb_head r)" and ?t = "unat (rb_tail r)"
  have le: "?h \<le> ?t" using assms(1) by (simp add: rb_inv_def)
  have len: "length (contents r) = ?t - ?h" by (simp add: contents_def)
  have sub: "unat (rb_tail r - rb_head r) = ?t - ?h" using le by (rule unat_sub64)
  have eq: "rb_head r = rb_tail r \<longleftrightarrow> ?h = ?t" by (simp add: word_unat_eq_iff)
  show d: "unat d = min (unat n) (length (contents r))"
    using assms(2) len sub eq
    by (auto simp: skip_n_def Let_def word_less_nat_alt split: if_splits)
  have r': "r' = (refresh_tail r)\<lparr>rb_head := rb_head r + d\<rparr>"
    using assms(2) by (auto simp: skip_n_def Let_def refresh_tail_def split: if_splits)
  have "?t < 2 ^ LENGTH(64)" by (rule unsigned_less)
  then have h': "unat (rb_head r + d) = ?h + unat d" using d len le by (intro unat_add64) auto
  then show "rb_inv r'"
    using assms(1) d len le by (auto simp: rb_inv_def r' refresh_tail_def)
  have "contents r' = window r (?h + unat d) ?t"
    using h' by (simp add: contents_def r' window_def refresh_tail_def)
  then show "contents r' = drop (unat d) (contents r)"
    by (simp add: contents_def window_def drop_map drop_upt)
qed

lemma refresh_idem [simp]:
  "refresh_head (refresh_head r) = refresh_head r" "refresh_tail (refresh_tail r) = refresh_tail r"
  by (simp_all add: refresh_head_def refresh_tail_def)



subsection \<open>The queue interface\<close>

text \<open>Store \<open>bs\<close> with a write handle, and take \<open>n\<close> bytes with a read handle, each in one go.\<close>

definition rb_put :: "ring \<Rightarrow> bytes \<Rightarrow> ring rust" where
  "rb_put r bs =
    (case try_write r (of_nat (length bs)) of
       (_, None) \<Rightarrow> panic
     | (r, Some h) \<Rightarrow> map_option (\<lambda>r. write_drop r h) (write_through r h bs))"

definition rb_get :: "ring \<Rightarrow> nat \<Rightarrow> (bytes \<times> ring) rust" where
  "rb_get r n =
    (case try_read r (of_nat n) 1 of
       (_, None) \<Rightarrow> panic
     | (r, Some h) \<Rightarrow> map_option (\<lambda>bs. (bs, read_drop r h)) (handle_deref r h))"

locale byte_queue =
  fixes abs :: "'q \<Rightarrow> bytes" and inv :: "'q \<Rightarrow> bool" and admits :: "'q \<Rightarrow> bytes \<Rightarrow> bool"
    and put :: "'q \<Rightarrow> bytes \<Rightarrow> 'q option" and get :: "'q \<Rightarrow> nat \<Rightarrow> (bytes \<times> 'q) option"
  assumes put_law: "inv q \<Longrightarrow> admits q bs \<Longrightarrow> put q bs = Some q' \<Longrightarrow> inv q' \<and> abs q' = abs q @ bs"
    and get_law: "inv q \<Longrightarrow> n < 2 ^ 64 \<Longrightarrow> get q n = Some (bs, q') \<Longrightarrow>
      inv q' \<and> length bs = n \<and> abs q = bs @ abs q'"
begin

lemma put_then_get:
  assumes "inv q" "abs q = []" "admits q bs" "put q bs = Some q1" "length bs < 2 ^ 64"
    and "get q1 (length bs) = Some (out, q2)"
  shows "out = bs \<and> abs q2 = []"
proof -
  have "inv q1" "abs q1 = bs" using put_law [OF assms(1,3,4)] assms(2) by simp_all
  then have "length out = length bs" "bs = out @ abs q2"
    using get_law [OF _ assms(5,6)] by simp_all
  then show ?thesis by (metis append_Nil2 append_eq_append_conv)
qed

end

lemma rb_put_law:
  assumes "rb_inv r" "length bs < 2 ^ 64" "wrap_free r (of_nat (length bs))" "rb_put r bs = Some r'"
  shows "rb_inv r' \<and> contents r' = contents r @ bs"
proof -
  obtain r1 h r2 where 1: "try_write r (of_nat (length bs)) = (r1, Some h)"
    "write_through r1 h bs = Some r2" "r' = write_drop r2 h"
    using assms(4) by (auto simp: rb_put_def split: prod.splits option.splits)
  note c = try_write_cases [OF assms(1,3) 1(1)]
  have h: "at h = rb_tail r" "amount h = of_nat (length bs)"
    "unat (rb_tail r) + unat (of_nat (length bs) :: 64 word) < unat (rb_head r) + unat (rb_capacity r)"
    using c by (auto split: if_splits)
  have r1: "rb_inv r1" "contents r1 = contents r" "rb_tail r1 = rb_tail r" "rb_head r1 = rb_head r"
    "rb_capacity r1 = rb_capacity r"
    using c assms(1) refresh_head_inv by auto
  note w = write_through_cases [OF r1(1) 1(2)]
  have r2: "rb_inv r2" "contents r2 = contents r" "handle_deref r2 h = Some bs"
    using write_through_inv [OF r1(1) 1(2)] write_through_contents [OF r1(1) 1(2)] r1 h by auto
  have "rb_inv (write_drop r2 h) \<and> contents (write_drop r2 h) = contents r2 @ bs"
    using write_drop_spec [OF r2(1) _ _ _ r2(3)] w(3) r1 h assms(3)
    by (simp add: wrap_free_def)
  then show ?thesis using 1(3) r2(2) by simp
qed

lemma rb_get_law:
  assumes "rb_inv r" "n < 2 ^ 64" "rb_get r n = Some (bs, r')"
  shows "rb_inv r' \<and> length bs = n \<and> contents r = bs @ contents r'"
proof -
  let ?n = "of_nat n :: 64 word"
  have n: "unat ?n = n" using assms(2) by (simp add: unat_of_nat)
  obtain r1 h where 1: "try_read r ?n 1 = (r1, Some h)" "handle_deref r1 h = Some bs" "r' = read_drop r1 h"
    using assms(3) by (auto simp: rb_get_def split: prod.splits option.splits)
  have r1: "rb_inv r1" "contents r1 = contents r" "\<not> must_wait r1 ?n" "h = \<lparr> at = rb_head r1, amount = ?n \<rparr>"
    using 1(1) assms(1) refresh_tail_inv by (auto split: if_splits)
  have "length bs = n"
    using 1(2) r1(4) n slice_length by (fastforce simp: handle_deref_def)
  then show ?thesis
    using read_drop_spec [OF r1(1) _ _ 1(2)] must_wait_iff [OF r1(1), of ?n] r1 n 1(3) by simp
qed

interpretation ring: byte_queue contents rb_inv
  "\<lambda>r bs. length bs < 2 ^ 64 \<and> wrap_free r (of_nat (length bs))" rb_put rb_get
proof (unfold_locales, goal_cases)
  case (1 q bs q') then show ?case using rb_put_law by blast
next
  case (2 q n bs q') then show ?case using rb_get_law by blast
qed

subsection \<open>Properties\<close>




definition demo_ring :: "64 word \<Rightarrow> 64 word \<Rightarrow> ring" where
  "demo_ring st t = \<lparr> rb_capacity = 8, rb_allocated_size = 8, rb_head = 0, rb_shadow_tail = st,
    rb_tail = t, rb_shadow_head = 0, rb_data = replicate 8 0 \<rparr>"


lemma demo_offset [simp]: "handle_offset (demo_ring st t) \<lparr> at = 0, amount = n \<rparr> = 0"
  "handle_offset (demo_ring st 2) \<lparr> at = 2, amount = n \<rparr> = 2"
  by (simp_all add: handle_offset_def demo_ring_def)




lemma demo_inv: "rb_inv (demo_ring 0 0)"
  by (auto simp: rb_inv_def demo_ring_def intro!: exI [of _ 3])


text \<open>C10: the consumer can take \<open>n\<close> bytes with one retry exactly when \<open>n\<close> bytes are in the
  buffer; reading through the handle gives the oldest \<open>n\<close> bytes unless they cross the end of the
  data area, in which case reading panics instead of wrapping around.\<close>

theorem try_read_exact:
  assumes "rb_inv r"
  shows "snd (try_read r n (Suc m)) =
      (if unat n \<le> length (contents r) then Some \<lparr> at = rb_head r, amount = n \<rparr> else None) \<and>
    (unat n \<le> length (contents r) \<longrightarrow>
      handle_deref r \<lparr> at = rb_head r, amount = n \<rparr> =
        (if unat (rb_head r) mod unat (rb_capacity r) + unat n \<le> unat (rb_capacity r)
         then Some (take (unat n) (contents r)) else panic))"
proof -
  have len: "length (contents r) = unat (rb_tail r) - unat (rb_head r)" by (simp add: contents_def)
  have le: "unat (rb_head r) \<le> unat (rb_tail r)" using assms by (simp add: rb_inv_def)
  have "take (unat n) (contents r) = window r (unat (rb_head r)) (unat (rb_head r) + unat n)"
    if "unat n \<le> length (contents r)"
    using that le len window_append [of "unat (rb_head r)" "unat (rb_head r) + unat n" "unat (rb_tail r)" r]
    unfolding contents_def by (metis add_diff_cancel_left' append_eq_conv_conj le_add1 le_diff_conv2
        length_window add.commute)
  then show ?thesis
    using try_read_quiet [OF assms, of n m] len le handle_deref_window [OF assms]
      handle_deref_crossing [OF assms] by auto
qed

theorem try_read_exact_witness:
  "snd (try_read (demo_ring 0 0) 0 (Suc 0)) = Some \<lparr> at = 0, amount = 0 \<rparr> \<and>
   snd (try_read (demo_ring 0 0) 1 (Suc 0)) = None"
  using try_read_exact [OF demo_inv, of 0 0] try_read_exact [OF demo_inv, of 1 0]
  by (simp add: contents_def demo_ring_def)

end
