(* ===== verification/Frames.thy ===== *)
theory Frames
  imports Prelude
begin

text \<open>
  The memory module of the kernel (kernel/src/memory): the memory map with its iterator, frames,
  the bump allocator, the recycling allocator over an inner allocator, and the virtual page
  allocator.  Frames are frame numbers.  The result None of \<open>merge\<close> and of the bump allocator's
  \<open>allocate_frames\<close> means that the call does not return a value: it recurses forever (or, in
  \<open>merge\<close>, the removal of a list element panics).
\<close>

subsection \<open>Memory map and frames\<close>

definition PAGE_SIZE :: usize where
  "PAGE_SIZE = 4096"

record memory_area =
  base_addr :: usize
  area_length :: usize
  area_type :: nat
  area_acpi :: nat

definition MEMORY_AREA_FREE :: nat where
  "MEMORY_AREA_FREE = 1"

record area_iter =
  ai_type :: nat
  ai_i :: nat

definition area_iter_new :: "nat \<Rightarrow> area_iter" where
  "area_iter_new t = \<lparr> ai_type = t, ai_i = 0 \<rparr>"

function area_next :: "memory_area list \<Rightarrow> area_iter \<Rightarrow> memory_area option \<times> area_iter" where
  "area_next mm it =
    (if ai_i it < length mm then
       (let entry = mm ! ai_i it; it = it\<lparr>ai_i := ai_i it + 1\<rparr> in
        if area_type entry = ai_type it then (Some entry, it) else area_next mm it)
     else (None, it))"
  by pat_completeness auto
termination
  by (relation "measure (\<lambda>(mm, it). length mm - ai_i it)") auto

text \<open>All the areas that are left in a clone of the iterator.\<close>

definition areas_left :: "memory_area list \<Rightarrow> area_iter \<Rightarrow> memory_area list" where
  "areas_left mm it = filter (\<lambda>a. area_type a = ai_type it) (drop (ai_i it) mm)"

definition containing_address :: "usize \<Rightarrow> nat" where
  "containing_address address = address div PAGE_SIZE"

definition frame_start_address :: "nat \<Rightarrow> usize" where
  "frame_start_address n = umul n PAGE_SIZE"

function frame_range :: "nat \<Rightarrow> nat \<Rightarrow> nat list" where
  "frame_range s e = (if s \<le> e then s # frame_range (s + 1) e else [])"
  by pat_completeness auto
termination
  by (relation "measure (\<lambda>(s, e). Suc e - s)") auto

subsection \<open>The bump allocator\<close>

record bump =
  next_free_frame :: nat
  current_area :: "memory_area option"
  areas :: "memory_area list"
  kernel_start :: nat
  kernel_end :: nat

definition area_start :: "memory_area \<Rightarrow> nat" where
  "area_start a = containing_address (base_addr a)"

definition area_last :: "memory_area \<Rightarrow> nat" where
  "area_last a = containing_address (usub (uadd (base_addr a) (area_length a)) 1)"

fun min_by_key :: "('a \<Rightarrow> nat) \<Rightarrow> 'a list \<Rightarrow> 'a option" where
  "min_by_key k [] = None"
| "min_by_key k (x # xs) =
    (case min_by_key k xs of
       None \<Rightarrow> Some x
     | Some y \<Rightarrow> if k y < k x then Some y else Some x)"

definition choose_next_area :: "bump \<Rightarrow> bump" where
  "choose_next_area b =
    (let b = b\<lparr>current_area :=
               min_by_key base_addr (filter (\<lambda>a. area_last a \<ge> next_free_frame b) (areas b))\<rparr>
     in case current_area b of
          None \<Rightarrow> b
        | Some a \<Rightarrow>
            if next_free_frame b < area_start a then b\<lparr>next_free_frame := area_start a\<rparr> else b)"

definition bump_new :: "usize \<Rightarrow> usize \<Rightarrow> memory_area list \<Rightarrow> bump" where
  "bump_new ks ke memory_areas = choose_next_area
    \<lparr> next_free_frame = containing_address 0, current_area = None, areas = memory_areas,
      kernel_start = containing_address ks, kernel_end = containing_address ke \<rparr>"

definition in_kernel :: "bump \<Rightarrow> nat \<Rightarrow> bool" where
  "in_kernel b f \<longleftrightarrow> f \<ge> kernel_start b \<and> f \<le> kernel_end b"

definition bump_free_frames :: "bump \<Rightarrow> nat" where
  "bump_free_frames b =
    (\<Sum>a \<leftarrow> areas b. length (filter (\<lambda>f. \<not> in_kernel b f \<and> f \<ge> next_free_frame b)
      (frame_range (area_start a) (area_last a))))"

definition bump_used_frames :: "bump \<Rightarrow> nat" where
  "bump_used_frames b =
    (\<Sum>a \<leftarrow> areas b. length (filter (\<lambda>f. in_kernel b f \<or> \<not> f \<ge> next_free_frame b)
      (frame_range (area_start a) (area_last a))))"

partial_function (option) bump_allocate :: "bump \<Rightarrow> nat \<Rightarrow> (bump \<times> nat option) option" where
  "bump_allocate b count =
    (if count = 0 then Some (b, None)
     else case current_area b of
       None \<Rightarrow> Some (b, None)
     | Some area \<Rightarrow>
         (let start_frame = next_free_frame b;
              end_frame = uadd (next_free_frame b) (count - 1)
          in if end_frame > area_last area then bump_allocate (choose_next_area b) count
             else if in_kernel b start_frame \<or> in_kernel b end_frame
             then bump_allocate (b\<lparr>next_free_frame := uadd (kernel_end b) 1\<rparr>) count
             else Some (b\<lparr>next_free_frame := uadd (next_free_frame b) count\<rparr>, Some start_frame)))"

definition bump_set_noncore :: "bump \<Rightarrow> bool \<Rightarrow> bump" where
  "bump_set_noncore b nc = b"

definition bump_deallocate :: "bump \<Rightarrow> nat \<Rightarrow> nat \<Rightarrow> bump option" where
  "bump_deallocate b frame count = Some b"

subsection \<open>Lists of free blocks\<close>

type_synonym block = "usize \<times> usize"

fun touch :: "usize \<Rightarrow> usize \<Rightarrow> block \<Rightarrow> block option" where
  "touch address count (a, c) =
    (if uadd address (umul count 4096) = a then Some (address, uadd c count)
     else if uadd a (umul c 4096) = address then Some (a, uadd c count)
     else None)"

fun first_touch :: "usize \<Rightarrow> usize \<Rightarrow> nat \<Rightarrow> block list \<Rightarrow> (nat \<times> block) option" where
  "first_touch address count i [] = None"
| "first_touch address count i (b # bs) =
    (case touch address count b of
       Some b' \<Rightarrow> Some (i, b')
     | None \<Rightarrow> first_touch address count (i + 1) bs)"

definition vec_remove :: "'a list \<Rightarrow> nat \<Rightarrow> 'a list option" where
  "vec_remove xs i = (if i < length xs then Some (take i xs @ drop (Suc i) xs) else None)"

partial_function (option) merge :: "block list \<Rightarrow> usize \<Rightarrow> usize \<Rightarrow> (block list \<times> bool) option" where
  "merge free address count =
    (case first_touch address count 0 free of
       None \<Rightarrow> Some (free, False)
     | Some (i, b) \<Rightarrow> do {
         (free', changed) \<leftarrow> merge (free[i := b]) (fst b) (snd b);
         if changed then do { free'' \<leftarrow> vec_remove free' i; Some (free'', True) }
         else Some (free', True) })"

definition free_count :: "block list \<Rightarrow> usize" where
  "free_count free = foldl (\<lambda>n b. uadd n (snd b)) 0 free"

subsection \<open>The recycling allocator\<close>

record 'i recycle =
  rec_inner :: 'i
  rec_noncore :: bool
  rec_free :: "block list"

definition recycle_new :: "'i \<Rightarrow> 'i recycle" where
  "recycle_new i = \<lparr> rec_inner = i, rec_noncore = False, rec_free = [] \<rparr>"

definition set_noncore :: "'i recycle \<Rightarrow> bool \<Rightarrow> 'i recycle" where
  "set_noncore r nc = r\<lparr>rec_noncore := nc\<rparr>"

definition recycle_free_frames :: "('i \<Rightarrow> usize) \<Rightarrow> 'i recycle \<Rightarrow> usize" where
  "recycle_free_frames inner_free r = uadd (inner_free (rec_inner r)) (free_count (rec_free r))"

definition recycle_used_frames :: "('i \<Rightarrow> usize) \<Rightarrow> 'i recycle \<Rightarrow> usize" where
  "recycle_used_frames inner_used r = usub (inner_used (rec_inner r)) (free_count (rec_free r))"

text \<open>The search loop of \<open>allocate_frames\<close>: \<open>small_i\<close> and \<open>small\<close> after the blocks from index
  \<open>i\<close> on.\<close>

fun find_small :: "usize \<Rightarrow> nat option \<times> block \<Rightarrow> nat \<Rightarrow> block list \<Rightarrow> nat option \<times> block" where
  "find_small count (small_i, small) i [] = (small_i, small)"
| "find_small count (small_i, small) i (b # bs) =
    (if snd b \<ge> count \<and> (snd b \<le> snd small \<or> small_i = None)
     then find_small count (Some i, b) (i + 1) bs
     else find_small count (small_i, small) (i + 1) bs)"

definition recycle_allocate ::
  "('i \<Rightarrow> nat \<Rightarrow> ('i \<times> nat option) option) \<Rightarrow> 'i recycle \<Rightarrow> nat \<Rightarrow> ('i recycle \<times> nat option) option" where
  "recycle_allocate inner_allocate r count =
    (case fst (find_small count (None, (0, 0)) 0 (rec_free r)) of
       Some i \<Rightarrow> do {
         let (a, c) = rec_free r ! i;
         let c = usub c count;
         let address = uadd a (umul c 4096);
         fs \<leftarrow> (if c = 0 then vec_remove ((rec_free r)[i := (a, c)]) i else Some ((rec_free r)[i := (a, c)]));
         Some (r\<lparr>rec_free := fs\<rparr>, Some (containing_address address)) }
     | None \<Rightarrow> do {
         (i', f) \<leftarrow> inner_allocate (rec_inner r) count;
         Some (r\<lparr>rec_inner := i'\<rparr>, f) })"

definition recycle_deallocate ::
  "('i \<Rightarrow> nat \<Rightarrow> nat \<Rightarrow> 'i option) \<Rightarrow> 'i recycle \<Rightarrow> nat \<Rightarrow> nat \<Rightarrow> 'i recycle option" where
  "recycle_deallocate inner_deallocate r frame count =
    (if rec_noncore r then do {
       let address = frame_start_address frame;
       (fs, merged) \<leftarrow> merge (rec_free r) address count;
       Some (r\<lparr>rec_free := if merged then fs else fs @ [(address, count)]\<rparr>) }
     else do {
       i' \<leftarrow> inner_deallocate (rec_inner r) frame count;
       Some (r\<lparr>rec_inner := i'\<rparr>) })"

definition memory_init :: "memory_area list \<Rightarrow> usize \<Rightarrow> usize \<Rightarrow> bump recycle" where
  "memory_init mm ks ke =
    recycle_new (bump_new ks ke (areas_left mm (area_iter_new MEMORY_AREA_FREE)))"

subsection \<open>The virtual page allocator\<close>

definition valloc_new :: "usize \<Rightarrow> usize \<Rightarrow> block list" where
  "valloc_new start sz = [(start, sz div PAGE_SIZE)]"

definition valloc_merge :: "block list \<Rightarrow> usize \<Rightarrow> usize \<Rightarrow> (block list \<times> bool) option" where
  "valloc_merge = merge"

text \<open>The search loop of \<open>allocate_pages\<close>; it stops early on an exact fit.\<close>

fun best_fit_from :: "usize \<Rightarrow> (block \<times> nat) option \<Rightarrow> nat \<Rightarrow> block list \<Rightarrow> (block \<times> nat) option" where
  "best_fit_from count best i [] = best"
| "best_fit_from count best i (b # bs) =
    (if snd b < count then best_fit_from count best (i + 1) bs
     else
       (let best = (case best of
              None \<Rightarrow> (b, i)
            | Some (b', i') \<Rightarrow> if snd b < snd b' then (b, i) else (b', i'))
        in if snd (fst best) = count then Some best
           else best_fit_from count (Some best) (i + 1) bs))"

definition swap_remove :: "'a list \<Rightarrow> nat \<Rightarrow> 'a list option" where
  "swap_remove xs i = (if i < length xs then Some (butlast (xs[i := last xs])) else None)"

definition allocate_pages :: "block list \<Rightarrow> usize \<Rightarrow> (block list \<times> usize option) option" where
  "allocate_pages free count =
    (case best_fit_from count None 0 free of
       Some ((a, c), i) \<Rightarrow> do {
         let free = (if c > count then free @ [(a, usub c count)] else free);
         free \<leftarrow> swap_remove free i;
         Some (free, Some (containing_address (uadd a (umul (usub c count) PAGE_SIZE)))) }
     | None \<Rightarrow> Some (free, None))"

definition deallocate_pages :: "block list \<Rightarrow> usize \<Rightarrow> usize \<Rightarrow> block list option" where
  "deallocate_pages free page count = do {
     let address = frame_start_address page;
     (fs, merged) \<leftarrow> valloc_merge free address count;
     Some (if merged then fs else fs @ [(address, count)]) }"

end
