(* ===== verification/Free_Blocks.thy ===== *)
theory Free_Blocks
  imports Frames
begin

text \<open>
  The free lists of the recycling allocator and of the virtual page allocator: an invariant (the
  blocks are page aligned, not empty, and neither overlap nor touch), and that merging a freed
  block terminates, keeps the invariant and adds exactly the freed pages.
\<close>

subsection \<open>Blocks\<close>

abbreviation bend :: "block \<Rightarrow> nat" where
  "bend b \<equiv> fst b + snd b * 4096"

definition block_ok :: "block \<Rightarrow> bool" where
  "block_ok b \<longleftrightarrow> 4096 dvd fst b \<and> 0 < snd b \<and> bend b < 2 ^ 64"

definition apart :: "block \<Rightarrow> block \<Rightarrow> bool" where
  "apart b x \<longleftrightarrow> bend b \<le> fst x \<or> bend x \<le> fst b"

definition sep :: "block \<Rightarrow> block \<Rightarrow> bool" where
  "sep b x \<longleftrightarrow> bend b < fst x \<or> bend x < fst b"

definition free_ok :: "block list \<Rightarrow> bool" where
  "free_ok bs \<longleftrightarrow> (\<forall>b \<in> set bs. block_ok b) \<and>
    (\<forall>i < length bs. \<forall>j < length bs. i \<noteq> j \<longrightarrow> sep (bs ! i) (bs ! j))"

definition pages :: "block \<Rightarrow> nat set" where
  "pages b = {fst b div 4096 ..< fst b div 4096 + snd b}"

definition free_pages :: "block list \<Rightarrow> nat set" where
  "free_pages bs = (\<Union>b \<in> set bs. pages b)"

lemma pages_bytes: "block_ok b \<Longrightarrow> p \<in> pages b \<longleftrightarrow> fst b \<le> p * 4096 \<and> p * 4096 < bend b"
  by (auto simp: pages_def block_ok_def elim!: dvdE)

lemma apart_pages:
  "block_ok b \<Longrightarrow> block_ok x \<Longrightarrow> pages b \<inter> pages x = {} \<longleftrightarrow> apart b x"
  by (auto simp: pages_def block_ok_def apart_def elim!: dvdE)

lemma sep_apart: "sep b x \<Longrightarrow> apart b x"
  by (auto simp: sep_def apart_def)

lemma sep_sym: "sep b x \<Longrightarrow> sep x b"
  by (auto simp: sep_def)

lemma apart_sym: "apart b x \<Longrightarrow> apart x b"
  by (auto simp: apart_def)

lemma touch_eq:
  assumes "block_ok (a, c)" "block_ok x"
  shows "touch a c x =
    (if bend (a, c) = fst x then Some (a, uadd (snd x) c)
     else if bend x = a then Some (fst x, uadd (snd x) c) else None)"
  using assms by (cases x) (auto simp: block_ok_def)

declare touch.simps [simp del]

lemma touch_None_sep:
  "block_ok (a, c) \<Longrightarrow> block_ok x \<Longrightarrow> apart (a, c) x \<Longrightarrow> touch a c x = None \<Longrightarrow> sep (a, c) x"
  by (auto simp: touch_eq apart_def sep_def split: if_splits)

lemma sep_touch_None: "block_ok (a, c) \<Longrightarrow> block_ok x \<Longrightarrow> sep (a, c) x \<Longrightarrow> touch a c x = None"
  by (auto simp: touch_eq sep_def)

lemma inside_touch_None:
  "block_ok (a, c) \<Longrightarrow> block_ok x \<Longrightarrow> a \<le> fst x \<Longrightarrow> bend x \<le> bend (a, c) \<Longrightarrow> touch a c x = None"
  by (auto simp: touch_eq block_ok_def)

lemma touch_Some:
  assumes ok: "block_ok (a, c)" "block_ok x" and ap: "apart (a, c) x" and t: "touch a c x = Some y"
  shows "fst y = min a (fst x)" "bend y = max (bend (a, c)) (bend x)" "snd y = snd x + c"
    "bend (a, c) = fst x \<or> bend x = a" "block_ok y" "pages y = pages x \<union> pages (a, c)"
proof -
  have s: "snd x + c < 2 ^ 64" using ok t by (auto simp: touch_eq block_ok_def split: if_splits)
  show 1: "fst y = min a (fst x)" "bend y = max (bend (a, c)) (bend x)" "snd y = snd x + c"
    "bend (a, c) = fst x \<or> bend x = a" "block_ok y"
    using ok t s by (auto simp: touch_eq block_ok_def algebra_simps split: if_splits)
  have "p \<in> pages y \<longleftrightarrow> p \<in> pages x \<or> p \<in> pages (a, c)" for p
    using 1 ok pages_bytes [OF ok(1)] pages_bytes [OF ok(2)] pages_bytes [OF 1(5)] by auto
  then show "pages y = pages x \<union> pages (a, c)" by blast
qed

lemma first_touch_None:
  "first_touch a c k bs = None \<longleftrightarrow> (\<forall>b \<in> set bs. touch a c b = None)"
  by (induction bs arbitrary: k) (auto split: option.splits)

lemma first_touch_Some:
  "first_touch a c k bs = Some (i, y) \<Longrightarrow> k \<le> i \<and> i - k < length bs \<and> touch a c (bs ! (i - k)) = Some y"
proof (induction bs arbitrary: k)
  case (Cons b bs)
  then show ?case by (fastforce simp: nth_Cons' split: option.splits)
qed simp

subsection \<open>Merging a freed block\<close>

text \<open>The invariant of a free list in which the block at index \<open>i\<close> is still being merged.\<close>

definition free_ok_but :: "nat \<Rightarrow> block list \<Rightarrow> bool" where
  "free_ok_but i bs \<longleftrightarrow> (\<forall>b \<in> set bs. block_ok b) \<and>
    (\<forall>j < length bs. \<forall>k < length bs. j \<noteq> k \<longrightarrow> j \<noteq> i \<longrightarrow> k \<noteq> i \<longrightarrow> sep (bs ! j) (bs ! k))"

definition removed :: "nat \<Rightarrow> 'a list \<Rightarrow> 'a list" where
  "removed i xs = take i xs @ drop (Suc i) xs"

lemma nth_removed: "i < length xs \<Longrightarrow> removed i xs ! k = xs ! (if k < i then k else Suc k)"
  by (auto simp: removed_def nth_append min_def)

lemma length_removed: "i < length xs \<Longrightarrow> length (removed i xs) = length xs - 1"
  by (simp add: removed_def)

lemma set_removed: "i < length xs \<Longrightarrow> set xs = insert (xs ! i) (set (removed i xs))"
  by (metis Un_insert_right id_take_nth_drop list.simps(15) removed_def set_append)

lemma set_removed_nth: "i < length xs \<Longrightarrow> set (removed i xs) = {xs ! k |k. k < length xs \<and> k \<noteq> i}"
proof -
  assume i: "i < length xs"
  have "\<exists>m. m < length xs - 1 \<and> xs ! k = xs ! (if m < i then m else Suc m)"
    if "k < length xs" "k \<noteq> i" for k
    using that i by (intro exI [of _ "if k < i then k else k - 1"]) auto
  then show ?thesis using i by (fastforce simp: in_set_conv_nth nth_removed length_removed)
qed

lemma free_ok_add:
  assumes "free_ok bs" "block_ok b" "\<And>x. x \<in> set bs \<Longrightarrow> sep b x"
  shows "free_ok (bs @ [b])"
proof -
  have "sep b (bs ! i)" "sep (bs ! i) b" if "i < length bs" for i
    using assms(3) [OF nth_mem [OF that]] sep_sym by blast+
  then show ?thesis using assms(1,2) by (auto simp: free_ok_def nth_append less_Suc_eq)
qed

lemma free_ok_update:
  "free_ok bs \<Longrightarrow> i < length bs \<Longrightarrow> block_ok y \<Longrightarrow> free_ok_but i (bs[i := y])"
  by (auto simp: free_ok_def free_ok_but_def dest!: set_update_subset_insert [THEN subsetD])

lemma free_ok_finish:
  assumes "free_ok_but i bs" "i < length bs" "\<And>j. j < length bs \<Longrightarrow> j \<noteq> i \<Longrightarrow> sep (bs ! i) (bs ! j)"
  shows "free_ok bs"
  using assms unfolding free_ok_def free_ok_but_def by (metis sep_sym)

lemma free_ok_removed:
  assumes "free_ok_but i bs" "i < length bs"
  shows "free_ok (removed i bs)"
  using assms set_removed [OF assms(2)]
  by (auto simp: free_ok_def free_ok_but_def nth_removed length_removed)

lemma merge_unfold:
  "merge bs a c =
    (case first_touch a c 0 bs of
       None \<Rightarrow> Some (bs, False)
     | Some (i, b) \<Rightarrow>
         (case merge (bs[i := b]) (fst b) (snd b) of
            None \<Rightarrow> None
          | Some (bs', m) \<Rightarrow>
              if m then map_option (\<lambda>f. (f, True)) (vec_remove bs' i) else Some (bs', True)))"
  by (subst merge.simps) (auto split: option.splits bind_splits)

lemma merge_no_touch: "(\<And>x. x \<in> set bs \<Longrightarrow> touch a c x = None) \<Longrightarrow> merge bs a c = Some (bs, False)"
  by (subst merge_unfold) (simp add: first_touch_None [THEN iffD2])

text \<open>The second round: the block at index \<open>i\<close> has grown to \<open>y\<close> and may touch one more block;
  after that nothing touches, since the ends of the result are ends of old blocks.\<close>

lemma merge_second_round:
  assumes i: "i < length bs" "bs ! i = y" and but: "free_ok_but i bs"
    and ap: "\<And>j. j < length bs \<Longrightarrow> j \<noteq> i \<Longrightarrow> apart y (bs ! j)"
    and nt: "\<And>j k z. j < length bs \<Longrightarrow> k < length bs \<Longrightarrow> j \<noteq> i \<Longrightarrow> k \<noteq> i \<Longrightarrow> j \<noteq> k \<Longrightarrow>
      touch (fst y) (snd y) (bs ! j) = Some z \<Longrightarrow> sep z (bs ! k)"
  shows "\<exists>bs' m. merge bs (fst y) (snd y) = Some (bs', m) \<and> length bs' = length bs \<and>
    free_ok (if m then removed i bs' else bs') \<and>
    free_pages (if m then removed i bs' else bs') = free_pages bs"
proof (cases "first_touch (fst y) (snd y) 0 bs")
  case None
  have ok: "block_ok y" "\<And>j. j < length bs \<Longrightarrow> block_ok (bs ! j)"
    using but i by (auto simp: free_ok_but_def)
  have "sep y (bs ! j)" if "j < length bs" "j \<noteq> i" for j
    using touch_None_sep [of "fst y" "snd y" "bs ! j"] ok ap that None by (simp add: first_touch_None)
  then have "free_ok bs" using free_ok_finish [OF but i(1)] i(2) by blast
  moreover have "merge bs (fst y) (snd y) = Some (bs, False)" by (subst merge_unfold) (simp add: None)
  ultimately show ?thesis by (intro exI [of _ bs] exI [of _ False]) simp
next
  case (Some q)
  obtain j z where q: "q = (j, z)" by (cases q)
  have ok: "block_ok y" "\<And>j. j < length bs \<Longrightarrow> block_ok (bs ! j)"
    using but i by (auto simp: free_ok_but_def)
  have j: "j < length bs" "touch (fst y) (snd y) (bs ! j) = Some z"
    using first_touch_Some [of "fst y" "snd y" 0 bs j z] Some q by auto
  have ji: "j \<noteq> i" using j inside_touch_None [of "fst y" "snd y" y] ok i(2) by auto
  note T = touch_Some [of "fst y" "snd y" "bs ! j" z, simplified prod.collapse, OF ok(1) ok(2) [OF j(1)] ap [OF j(1) ji] j(2)]
  let ?bs = "bs[j := z]"
  have no: "touch (fst z) (snd z) (?bs ! k) = None" if k: "k < length bs" for k
  proof -
    consider "k = i" | "k = j" | "k \<noteq> i" "k \<noteq> j" by blast
    then show ?thesis
    proof cases
      case 1
      have "fst z \<le> fst y" "bend y \<le> bend z" using T(1,2) by simp_all
      then have "touch (fst z) (snd z) y = None"
        using inside_touch_None [of "fst z" "snd z" y] T(5) ok(1) by simp
      then show ?thesis using 1 i(2) ji by simp
    next
      case 2
      then show ?thesis using inside_touch_None [of "fst z" "snd z" z] T(5) k by simp
    next
      case 3
      then have "sep z (bs ! k)" using nt [OF j(1) k ji 3(1) _ j(2)] by blast
      then show ?thesis using sep_touch_None [of "fst z" "snd z"] T(5) ok(2) [OF k] 3 by simp
    qed
  qed
  have "merge ?bs (fst z) (snd z) = Some (?bs, False)"
    by (rule merge_no_touch) (metis no in_set_conv_nth length_list_update)
  then have m: "merge bs (fst y) (snd y) = Some (?bs, True)" by (subst merge_unfold) (simp add: Some q)
  have zs: "sep z (bs ! k)" "sep (bs ! k) z" if "k < length bs" "k \<noteq> i" "k \<noteq> j" for k
    using nt [OF j(1) that(1) ji that(2) _ j(2)] that(3) sep_sym by blast+
  have "sep (?bs ! m) (?bs ! k)" if "m < length bs" "k < length bs" "m \<noteq> k" "m \<noteq> i" "k \<noteq> i" for m k
    using but zs that j(1) by (cases "m = j"; cases "k = j") (simp_all add: free_ok_but_def)
  then have but': "free_ok_but i ?bs"
    using but T(5) by (auto simp: free_ok_but_def dest!: set_update_subset_insert [THEN subsetD])
  have fp: "free_pages bs = free_pages (removed i ?bs)"
  proof -
    have "set bs = insert y (insert (bs ! j) {bs ! k |k. k < length bs \<and> k \<noteq> i \<and> k \<noteq> j})"
      using i j by (auto simp: in_set_conv_nth) metis
    moreover have "set (removed i ?bs) = insert z {bs ! k |k. k < length bs \<and> k \<noteq> i \<and> k \<noteq> j}"
      using i j ji by (subst set_removed_nth) (auto simp: nth_list_update)
    ultimately show ?thesis using T(6) by (auto simp: free_pages_def)
  qed
  show ?thesis using m free_ok_removed [OF but'] i fp by auto
qed

text \<open>\<open>joined b x y\<close>: the blocks \<open>b\<close> and \<open>x\<close> are neighbours and \<open>y\<close> is their union.\<close>

definition joined :: "block \<Rightarrow> block \<Rightarrow> block \<Rightarrow> bool" where
  "joined b x y \<longleftrightarrow> (bend b = fst x \<or> bend x = fst b) \<and>
    fst y = min (fst b) (fst x) \<and> bend y = max (bend b) (bend x)"

lemma joined_apart:
  "joined b x y \<Longrightarrow> 0 < snd b \<Longrightarrow> 0 < snd x \<Longrightarrow> 0 < snd w \<Longrightarrow> apart b w \<Longrightarrow> apart x w \<Longrightarrow> apart y w"
  by (auto simp: joined_def apart_def)

lemma joined_cases:
  assumes "joined b x y" "0 < snd b" "0 < snd x"
  shows "bend b = fst x \<and> fst y = fst b \<and> bend y = bend x \<or>
    bend x = fst b \<and> fst y = fst x \<and> bend y = bend b"
  using assms by (auto simp: joined_def)

lemma neighbours_of_two:
  fixes b0 b1 x0 x1 v0 v1 w0 w1 y0 y1 z0 z1 :: nat
  assumes "b0 < b1" "x0 < x1" "v0 < v1" "w0 < w1"
    and "b1 = x0 \<and> y0 = b0 \<and> y1 = x1 \<or> x1 = b0 \<and> y0 = x0 \<and> y1 = b1"
    and "y1 = v0 \<and> z0 = y0 \<and> z1 = v1 \<or> v1 = y0 \<and> z0 = v0 \<and> z1 = y1"
    and "x1 < v0 \<or> v1 < x0" "x1 < w0 \<or> w1 < x0" "v1 < w0 \<or> w1 < v0"
    and "b1 \<le> v0 \<or> v1 \<le> b0" "b1 \<le> w0 \<or> w1 \<le> b0"
  shows "z1 < w0 \<or> w1 < z0"
  using assms by (elim disjE) simp_all

lemma joined_twice_sep:
  assumes "joined b x y" "joined y v z" "0 < snd b" "0 < snd x" "0 < snd v" "0 < snd w" "0 < snd y"
    and "sep x v" "sep x w" "sep v w" "apart b v" "apart b w"
  shows "sep z w"
  unfolding sep_def
  by (rule neighbours_of_two [where ?b0.0 = "fst b" and ?b1.0 = "bend b" and ?x0.0 = "fst x" and
        ?x1.0 = "bend x" and ?v0.0 = "fst v" and ?v1.0 = "bend v" and ?y0.0 = "fst y" and ?y1.0 = "bend y"])
    (use assms joined_cases [OF assms(1)] joined_cases [OF assms(2)] in \<open>simp_all add: sep_def apart_def\<close>)

lemma merge_correct:
  assumes bs: "free_ok bs" and ok: "block_ok (a, c)" and ap: "\<And>x. x \<in> set bs \<Longrightarrow> apart (a, c) x"
  shows "\<exists>bs' m. merge bs a c = Some (bs', m) \<and>
    free_ok (if m then bs' else bs' @ [(a, c)]) \<and>
    free_pages (if m then bs' else bs' @ [(a, c)]) = free_pages bs \<union> pages (a, c)"
proof (cases "first_touch a c 0 bs")
  case None
  have "sep (a, c) x" if "x \<in> set bs" for x
    using touch_None_sep [OF ok _ ap] that bs None by (auto simp: first_touch_None free_ok_def)
  then have "free_ok (bs @ [(a, c)])" using free_ok_add [OF bs ok] by blast
  moreover have "merge bs a c = Some (bs, False)" by (subst merge_unfold) (simp add: None)
  ultimately show ?thesis by (intro exI [of _ bs] exI [of _ False]) (auto simp: free_pages_def)
next
  case (Some q)
  obtain i y where q: "q = (i, y)" by (cases q)
  have i: "i < length bs" "touch a c (bs ! i) = Some y"
    using first_touch_Some [of a c 0 bs i y] Some q by auto
  let ?x = "bs ! i" and ?bs = "bs[i := y]"
  have okx: "block_ok (bs ! k)" if "k < length bs" for k using bs that by (simp add: free_ok_def)
  have pos: "0 < snd (bs ! k)" if "k < length bs" for k using okx [OF that] by (simp add: block_ok_def)
  note T = touch_Some [OF ok okx [OF i(1)] ap [OF nth_mem [OF i(1)]] i(2)]
  have j1: "joined (a, c) ?x y" "0 < c" using T ok by (auto simp: joined_def block_ok_def)
  have sp: "sep (bs ! j) (bs ! k)" if "j < length bs" "k < length bs" "j \<noteq> k" for j k
    using bs that by (simp add: free_ok_def)
  have apy: "apart y (bs ! j)" if "j < length bs" "j \<noteq> i" for j
    using joined_apart [OF j1(1) _ pos [OF i(1)] pos [OF that(1)] ap [OF nth_mem [OF that(1)]]]
      sep_apart [OF sp [OF i(1) that(1)]] j1(2) that(2) by auto
  have nt: "sep z (bs ! k)"
    if h: "j < length bs" "k < length bs" "j \<noteq> i" "k \<noteq> i" "j \<noteq> k" "touch (fst y) (snd y) (bs ! j) = Some z"
    for j k z
  proof -
    note U = touch_Some [of "fst y" "snd y" "bs ! j" z, simplified prod.collapse, OF T(5) okx [OF h(1)] apy [OF h(1,3)] h(6)]
    have "joined y (bs ! j) z" using U by (auto simp: joined_def)
    then show ?thesis
      using joined_twice_sep [OF j1(1) _ _ pos [OF i(1)] pos [OF h(1)] pos [OF h(2)] _
          sp [OF i(1) h(1)] sp [OF i(1) h(2)] sp [OF h(1,2,5)] ap [OF nth_mem [OF h(1)]] ap [OF nth_mem [OF h(2)]]]
        h j1(2) T(5) by (simp add: block_ok_def)
  qed
  have "\<exists>bs' m. merge ?bs (fst y) (snd y) = Some (bs', m) \<and> length bs' = length ?bs \<and>
      free_ok (if m then removed i bs' else bs') \<and>
      free_pages (if m then removed i bs' else bs') = free_pages ?bs"
    by (rule merge_second_round)
      (use i apy nt free_ok_update [OF bs i(1) T(5)] in auto)
  then obtain bs' m where m: "merge ?bs (fst y) (snd y) = Some (bs', m)" "length bs' = length bs"
    "free_ok (if m then removed i bs' else bs')"
    "free_pages (if m then removed i bs' else bs') = free_pages ?bs" by auto
  have fp: "free_pages ?bs = free_pages bs \<union> pages (a, c)"
    using set_removed [OF i(1)] set_removed [of i ?bs] i(1) T(6)
    by (simp add: free_pages_def removed_def Un_ac)
  have "merge bs a c = Some (if m then removed i bs' else bs', True)"
    using m(1,2) i(1) by (subst merge_unfold) (simp add: Some q vec_remove_def removed_def)
  then show ?thesis using m(3,4) fp by (intro exI [of _ "if m then removed i bs' else bs'"] exI [of _ True]) simp
qed

subsection \<open>Taking pages from a block\<close>

lemma find_small_inv:
  assumes "case st of
      (None, _) \<Rightarrow> \<forall>b \<in> set pre. snd b < count
    | (Some i, b) \<Rightarrow> i < length pre \<and> b = pre ! i \<and> count \<le> snd b \<and>
        (\<forall>x \<in> set pre. count \<le> snd x \<longrightarrow> snd b \<le> snd x)"
  shows "case find_small count st (length pre) bs of
      (None, _) \<Rightarrow> \<forall>b \<in> set (pre @ bs). snd b < count
    | (Some i, b) \<Rightarrow> i < length (pre @ bs) \<and> b = (pre @ bs) ! i \<and> count \<le> snd b \<and>
        (\<forall>x \<in> set (pre @ bs). count \<le> snd x \<longrightarrow> snd b \<le> snd x)"
  using assms
proof (induction bs arbitrary: st pre)
  case Nil
  then show ?case by (cases "fst st"; cases st) auto
next
  case (Cons b bs)
  obtain si sm where st: "st = (si, sm)" by (cases st)
  have app: "length (pre @ [b]) = length pre + 1" "pre @ b # bs = (pre @ [b]) @ bs" by simp_all
  show ?case
  proof (cases "count \<le> snd b \<and> (snd b \<le> snd sm \<or> si = None)")
    case True
    have "case (Some (length pre), b) of (None, _) \<Rightarrow> \<forall>x \<in> set (pre @ [b]). snd x < count
      | (Some i, y) \<Rightarrow> i < length (pre @ [b]) \<and> y = (pre @ [b]) ! i \<and> count \<le> snd y \<and>
        (\<forall>x \<in> set (pre @ [b]). count \<le> snd x \<longrightarrow> snd y \<le> snd x)"
      using True Cons.prems by (cases si) (fastforce simp: st)+
    from Cons.IH [OF this] show ?thesis unfolding app(2) using True by (simp add: st)
  next
    case False
    have "case st of (None, _) \<Rightarrow> \<forall>x \<in> set (pre @ [b]). snd x < count
      | (Some i, y) \<Rightarrow> i < length (pre @ [b]) \<and> y = (pre @ [b]) ! i \<and> count \<le> snd y \<and>
        (\<forall>x \<in> set (pre @ [b]). count \<le> snd x \<longrightarrow> snd y \<le> snd x)"
      using False Cons.prems by (cases si) (auto simp: st nth_append)
    from Cons.IH [OF this] show ?thesis
      unfolding app(2) by (simp only: st find_small.simps if_not_P [OF False] app(1))
  qed
qed

lemma find_small_spec:
  "case fst (find_small count (None, b0) 0 bs) of
     None \<Rightarrow> \<forall>b \<in> set bs. snd b < count
   | Some i \<Rightarrow> i < length bs \<and> count \<le> snd (bs ! i) \<and>
       (\<forall>x \<in> set bs. count \<le> snd x \<longrightarrow> snd (bs ! i) \<le> snd x)"
  using find_small_inv [where st = "(None, b0)" and pre = "[]" and count = count and bs = bs]
  by (auto split: prod.splits option.splits)

lemma free_ok_pages_disjoint:
  "free_ok bs \<Longrightarrow> i < length bs \<Longrightarrow> j < length bs \<Longrightarrow> i \<noteq> j \<Longrightarrow> pages (bs ! i) \<inter> pages (bs ! j) = {}"
  using apart_pages [of "bs ! i" "bs ! j"] sep_apart by (simp add: free_ok_def)

lemma free_pages_others:
  assumes "free_ok bs" "i < length bs"
  shows "free_pages (removed i bs) = free_pages bs - pages (bs ! i)"
proof -
  have "pages b \<inter> pages (bs ! i) = {}" if "b \<in> set (removed i bs)" for b
    using that set_removed_nth [OF assms(2)] free_ok_pages_disjoint [OF assms(1) _ assms(2)] by auto
  then show ?thesis using set_removed [OF assms(2)] by (auto simp: free_pages_def)
qed

lemma pages_tail:
  assumes "block_ok (a, c)" "n \<le> c"
  shows "pages (a, c) = pages (a, c - n) \<union> {(a + (c - n) * 4096) div 4096 ..< (a + (c - n) * 4096) div 4096 + n}"
    "pages (a, c - n) \<inter> {(a + (c - n) * 4096) div 4096 ..< (a + (c - n) * 4096) div 4096 + n} = {}"
  using assms by (auto simp: pages_def block_ok_def)

lemma free_ok_shrink:
  assumes "free_ok bs" "i < length bs" "bs ! i = (a, c)" "n < c"
  shows "free_ok (bs[i := (a, c - n)])"
proof -
  have ok: "block_ok (a, c)" using assms by (metis free_ok_def nth_mem)
  then have "block_ok (a, c - n)" using assms(4) by (auto simp: block_ok_def)
  moreover have "sep (a, c - n) (bs ! j)" if "j < length bs" "j \<noteq> i" for j
  proof -
    have "sep (a, c) (bs ! j)" using assms that by (metis free_ok_def)
    moreover have "bend (a, c - n) \<le> bend (a, c)" by simp
    ultimately show ?thesis unfolding sep_def by auto
  qed
  ultimately show ?thesis
    using free_ok_finish [OF free_ok_update [OF assms(1,2)], of "(a, c - n)"] assms(2) by auto
qed

text \<open>What is left of a free list after \<open>n\<close> pages are taken from the end of block \<open>i\<close>.\<close>

definition take_pages :: "block list \<Rightarrow> nat \<Rightarrow> nat \<Rightarrow> block list" where
  "take_pages bs i n =
    (if snd (bs ! i) = n then removed i bs
     else bs[i := (fst (bs ! i), snd (bs ! i) - n)])"

lemma take_pages_spec:
  assumes bs: "free_ok bs" and i: "i < length bs" and n: "0 < n" "n \<le> snd (bs ! i)"
  defines "f \<equiv> (fst (bs ! i) + (snd (bs ! i) - n) * 4096) div 4096"
  shows "free_ok (take_pages bs i n)" "{f ..< f + n} \<subseteq> free_pages bs"
    "free_pages (take_pages bs i n) = free_pages bs - {f ..< f + n}"
proof -
  obtain a c where b: "bs ! i = (a, c)" by (cases "bs ! i")
  have ok: "block_ok (a, c)" using bs i b by (metis free_ok_def nth_mem)
  have f: "f = (a + (c - n) * 4096) div 4096" by (simp add: f_def b)
  note P = pages_tail [OF ok, of n, folded f]
  have nc: "n \<le> c" using n b by simp
  show "{f ..< f + n} \<subseteq> free_pages bs"
    using P(1) [OF nc] nth_mem [OF i] b by (auto simp: free_pages_def)
  have fp: "free_pages bs = free_pages (removed i bs) \<union> pages (a, c)"
    using set_removed [OF i] b by (auto simp: free_pages_def)
  have dj: "free_pages (removed i bs) \<inter> pages (a, c) = {}"
    using free_pages_others [OF bs i] b by auto
  show "free_ok (take_pages bs i n)"
    using free_ok_shrink [OF bs i b, of n] free_ok_removed [of i bs] bs i b nc
    by (auto simp: take_pages_def free_ok_def free_ok_but_def)
  show "free_pages (take_pages bs i n) = free_pages bs - {f ..< f + n}"
  proof (cases "c = n")
    case True
    then have "pages (a, c) = {f ..< f + n}" using P(1) [OF nc] by (simp add: pages_def)
    then show ?thesis using fp dj b True by (auto simp: take_pages_def)
  next
    case False
    have "free_pages (bs[i := (a, c - n)]) = free_pages (removed i bs) \<union> pages (a, c - n)"
      using set_removed [of i "bs[i := (a, c - n)]"] i by (auto simp: free_pages_def removed_def)
    then show ?thesis using fp dj P [OF nc] b False by (auto simp: take_pages_def)
  qed
qed

end
