(* ===== verification/Frame_Alloc.thy ===== *)
theory Frame_Alloc
  imports Free_Blocks
begin

text \<open>
  The trait FrameAllocator as an interface: what an allocation and a deallocation promise about the
  set of frames that are available, and, once for every allocator, that live allocations never
  overlap.  The bump allocator and the recycling allocator over any inner allocator are instances.
  Frame numbers are below \<open>2 ^ 40\<close>, the architecture's limit of 52 address bits.
\<close>

subsection \<open>The interface\<close>

definition frange :: "nat \<times> nat \<Rightarrow> nat set" where
  "frange p = {fst p ..< fst p + snd p}"

text \<open>The states reached by a client that only frees what it was given; \<open>L\<close> are its live
  allocations.\<close>

inductive usage :: "('s \<Rightarrow> bool \<Rightarrow> 's) \<Rightarrow> ('s \<Rightarrow> nat \<Rightarrow> ('s \<times> nat option) option) \<Rightarrow>
    ('s \<Rightarrow> nat \<Rightarrow> nat \<Rightarrow> 's option) \<Rightarrow> 's \<Rightarrow> 's \<Rightarrow> (nat \<times> nat) list \<Rightarrow> bool"
  for setnc alloc dealloc s0 where
  usage_start: "usage setnc alloc dealloc s0 s0 []"
| usage_alloc: "usage setnc alloc dealloc s0 s L \<Longrightarrow> 0 < n \<Longrightarrow> n \<le> 2 ^ 52 \<Longrightarrow>
    alloc s n = Some (s', Some f) \<Longrightarrow> usage setnc alloc dealloc s0 s' ((f, n) # L)"
| usage_fail: "usage setnc alloc dealloc s0 s L \<Longrightarrow> 0 < n \<Longrightarrow> n \<le> 2 ^ 52 \<Longrightarrow>
    alloc s n = Some (s', None) \<Longrightarrow> usage setnc alloc dealloc s0 s' L"
| usage_noncore: "usage setnc alloc dealloc s0 s L \<Longrightarrow> usage setnc alloc dealloc s0 (setnc s nc) L"
| usage_free: "usage setnc alloc dealloc s0 s L \<Longrightarrow> (f, n) \<in> set L \<Longrightarrow>
    dealloc s f n = Some s' \<Longrightarrow> usage setnc alloc dealloc s0 s' (remove1 (f, n) L)"

definition live_ok :: "nat \<Rightarrow> nat set \<Rightarrow> (nat \<times> nat) list \<Rightarrow> bool" where
  "live_ok limit A L \<longleftrightarrow> sorted_wrt (\<lambda>x y. frange x \<inter> frange y = {}) L \<and>
    (\<forall>x \<in> set L. frange x \<inter> A = {} \<and> 0 < snd x \<and> fst x + snd x \<le> limit)"

lemma sorted_wrt_remove1: "sorted_wrt P xs \<Longrightarrow> sorted_wrt P (remove1 x xs)"
  by (induction xs) (auto dest: notin_set_remove1 [THEN contrapos_nn] set_remove1_subset [THEN subsetD])

lemma sorted_wrt_remove1_apart:
  assumes "sorted_wrt (\<lambda>x y. frange x \<inter> frange y = {}) L" "x \<in> set L" "y \<in> set (remove1 x L)"
  shows "frange x \<inter> frange y = {}"
  using assms
proof (induction L)
  case (Cons z L)
  then show ?case by (cases "z = x") auto
qed simp

locale frame_allocator =
  fixes limit :: nat and good :: "'s \<Rightarrow> bool" and avail :: "'s \<Rightarrow> nat set"
    and setnc :: "'s \<Rightarrow> bool \<Rightarrow> 's"
    and alloc :: "'s \<Rightarrow> nat \<Rightarrow> ('s \<times> nat option) option"
    and dealloc :: "'s \<Rightarrow> nat \<Rightarrow> nat \<Rightarrow> 's option"
  assumes setnc_law: "good s \<Longrightarrow> good (setnc s nc) \<and> avail (setnc s nc) = avail s"
    and alloc_some: "good s \<Longrightarrow> 0 < n \<Longrightarrow> n \<le> 2 ^ 52 \<Longrightarrow> alloc s n = Some (s', Some f) \<Longrightarrow>
      good s' \<and> frange (f, n) \<subseteq> avail s \<and> avail s' \<subseteq> avail s - frange (f, n) \<and> f + n \<le> limit"
    and alloc_none: "good s \<Longrightarrow> 0 < n \<Longrightarrow> n \<le> 2 ^ 52 \<Longrightarrow> alloc s n = Some (s', None) \<Longrightarrow>
      good s' \<and> avail s' \<subseteq> avail s"
    and dealloc_law: "good s \<Longrightarrow> 0 < n \<Longrightarrow> f + n \<le> limit \<Longrightarrow> frange (f, n) \<inter> avail s = {} \<Longrightarrow>
      \<exists>s'. dealloc s f n = Some s' \<and> good s' \<and> avail s' \<subseteq> avail s \<union> frange (f, n)"
begin

lemma usage_safe:
  "usage setnc alloc dealloc s0 s L \<Longrightarrow> good s0 \<Longrightarrow> good s \<and> live_ok limit (avail s) L"
proof (induction rule: usage.induct)
  case (usage_alloc s L n s' f)
  then have ih: "good s" "live_ok limit (avail s) L" by auto
  show ?case
    using alloc_some [OF ih(1) usage_alloc.hyps(2-4)] ih(2) usage_alloc.hyps(2)
    by (fastforce simp: live_ok_def)
next
  case (usage_fail s L n s')
  then have ih: "good s" "live_ok limit (avail s) L" by auto
  then show ?case
    using alloc_none [OF ih(1) usage_fail.hyps(2-4)] by (fastforce simp: live_ok_def)
next
  case (usage_free s L f n s')
  then have ih: "good s" "live_ok limit (avail s) L" by auto
  have fn: "0 < n" "f + n \<le> limit" "frange (f, n) \<inter> avail s = {}"
    using ih(2) usage_free.hyps(2) by (auto simp: live_ok_def)
  have d: "good s'" "avail s' \<subseteq> avail s \<union> frange (f, n)"
    using dealloc_law [OF ih(1) fn] usage_free.hyps(3) by auto
  have "frange x \<inter> avail s' = {}" if "x \<in> set (remove1 (f, n) L)" for x
    using sorted_wrt_remove1_apart [OF _ usage_free.hyps(2) that] d(2) ih(2) that
      set_remove1_subset [THEN subsetD, OF that] by (fastforce simp: live_ok_def)
  then show ?case
    using d(1) ih(2) sorted_wrt_remove1 set_remove1_subset [of "(f, n)" L]
    by (fastforce simp: live_ok_def)
next
  case (usage_noncore s L nc)
  then show ?case using setnc_law [of s nc] by simp
qed (simp add: live_ok_def)

lemma free_live_returns:
  "usage setnc alloc dealloc s0 s L \<Longrightarrow> good s0 \<Longrightarrow> (f, n) \<in> set L \<Longrightarrow> dealloc s f n \<noteq> None"
  using usage_safe [of s0 s L] dealloc_law [of s n f] by (fastforce simp: live_ok_def)

end

subsection \<open>The memory map iterator\<close>

declare area_next.simps [simp del] frame_range.simps [simp del]

lemma area_next_Some:
  "areas_left mm it = a # as \<Longrightarrow>
    \<exists>it'. area_next mm it = (Some a, it') \<and> areas_left mm it' = as \<and> ai_type it' = ai_type it"
proof (induction mm it rule: area_next.induct)
  case (1 mm it)
  then have "ai_i it < length mm" by (cases "ai_i it < length mm") (simp_all add: areas_left_def)
  then have lt: "ai_i it < length mm" and d: "drop (ai_i it) mm = mm ! ai_i it # drop (Suc (ai_i it)) mm"
    by (simp_all add: Cons_nth_drop_Suc)
  show ?case
  proof (cases "area_type (mm ! ai_i it) = ai_type it")
    case True
    then show ?thesis
      using "1.prems" lt d by (subst area_next.simps) (auto simp: areas_left_def Let_def)
  next
    case False
    then have "areas_left mm (it\<lparr>ai_i := ai_i it + 1\<rparr>) = a # as"
      using "1.prems" d by (simp add: areas_left_def)
    then show ?thesis
      using "1.IH" [OF lt refl refl] False lt by (subst area_next.simps) (simp add: Let_def)
  qed
qed

lemma area_next_None: "areas_left mm it = [] \<Longrightarrow> fst (area_next mm it) = None"
proof (induction mm it rule: area_next.induct)
  case (1 mm it)
  show ?case
  proof (cases "ai_i it < length mm")
    case lt: True
    then have d: "drop (ai_i it) mm = mm ! ai_i it # drop (Suc (ai_i it)) mm"
      by (simp add: Cons_nth_drop_Suc)
    then have "area_type (mm ! ai_i it) \<noteq> ai_type it" "areas_left mm (it\<lparr>ai_i := ai_i it + 1\<rparr>) = []"
      using "1.prems" by (auto simp: areas_left_def split: if_splits)
    then show ?thesis
      using "1.IH" [OF lt refl refl] lt by (subst area_next.simps) (simp add: Let_def)
  qed (subst area_next.simps, simp)
qed

subsection \<open>The bump allocator\<close>

definition area_ok :: "memory_area \<Rightarrow> bool" where
  "area_ok a \<longleftrightarrow> area_start a \<le> area_last a \<and> area_last a < 2 ^ 40"

definition bump_inv :: "bump \<Rightarrow> bool" where
  "bump_inv b \<longleftrightarrow> (\<forall>a \<in> set (areas b). area_ok a) \<and> kernel_end b < 2 ^ 40 \<and>
    next_free_frame b \<le> 2 ^ 40 \<and>
    (case current_area b of None \<Rightarrow> \<forall>a \<in> set (areas b). area_last a < next_free_frame b
     | Some a \<Rightarrow> a \<in> set (areas b) \<and> area_start a \<le> next_free_frame b)"

definition bump_avail :: "bump \<Rightarrow> nat set" where
  "bump_avail b = {f. next_free_frame b \<le> f \<and> (\<exists>a \<in> set (areas b). area_start a \<le> f \<and> f \<le> area_last a)}"

lemma min_by_key_None: "min_by_key k xs = None \<longleftrightarrow> xs = []"
  by (cases xs) (auto split: option.splits)

lemma min_by_key_Some:
  "min_by_key k xs = Some x \<Longrightarrow> x \<in> set xs \<and> (\<forall>y \<in> set xs. k x \<le> k y)"
proof (induction xs arbitrary: x)
  case (Cons a xs)
  then show ?case
    by (cases "min_by_key k xs") (fastforce simp: min_by_key_None split: if_splits)+
qed simp

lemma choose_next_area_select [simp]:
  "areas (choose_next_area b) = areas b" "kernel_start (choose_next_area b) = kernel_start b"
  "kernel_end (choose_next_area b) = kernel_end b"
  by (simp_all add: choose_next_area_def Let_def split: option.splits)

lemma choose_next_area_mono: "next_free_frame b \<le> next_free_frame (choose_next_area b)"
  by (simp add: choose_next_area_def Let_def split: option.splits)

lemma choose_next_area_current:
  assumes "current_area (choose_next_area b) = Some a"
  shows "a \<in> set (areas b)" "area_last a \<ge> next_free_frame b"
    "next_free_frame (choose_next_area b) = max (next_free_frame b) (area_start a)"
proof -
  have "min_by_key base_addr (filter (\<lambda>a. area_last a \<ge> next_free_frame b) (areas b)) = Some a"
    using assms by (auto simp: choose_next_area_def Let_def split: option.splits if_splits)
  then show "a \<in> set (areas b)" "area_last a \<ge> next_free_frame b"
    using min_by_key_Some by fastforce+
  show "next_free_frame (choose_next_area b) = max (next_free_frame b) (area_start a)"
    using assms by (auto simp: choose_next_area_def Let_def split: option.splits if_splits)
qed

lemma choose_next_area_None:
  assumes "current_area (choose_next_area b) = None"
  shows "next_free_frame (choose_next_area b) = next_free_frame b"
    "\<forall>a \<in> set (areas b). area_last a < next_free_frame b"
proof -
  show nf: "next_free_frame (choose_next_area b) = next_free_frame b"
    using assms by (auto simp: choose_next_area_def Let_def split: option.splits if_splits)
  have "min_by_key base_addr (filter (\<lambda>a. area_last a \<ge> next_free_frame b) (areas b)) = None"
    using assms by (auto simp: choose_next_area_def Let_def split: option.splits if_splits)
  then have "filter (\<lambda>a. area_last a \<ge> next_free_frame b) (areas b) = []"
    by (simp only: min_by_key_None)
  then show "\<forall>a \<in> set (areas b). area_last a < next_free_frame b" by (auto simp: filter_empty_conv)
qed

definition areas_ok :: "bump \<Rightarrow> bool" where
  "areas_ok b \<longleftrightarrow> (\<forall>a \<in> set (areas b). area_ok a) \<and> kernel_end b < 2 ^ 40 \<and> next_free_frame b \<le> 2 ^ 40"

lemma choose_next_area_inv:
  assumes "areas_ok b"
  shows "bump_inv (choose_next_area b)"
proof (cases "current_area (choose_next_area b)")
  case None
  then show ?thesis
    using assms choose_next_area_None [OF None] by (simp add: bump_inv_def areas_ok_def)
next
  case (Some a)
  note c = choose_next_area_current [OF Some]
  then show ?thesis using assms Some by (fastforce simp: bump_inv_def area_ok_def areas_ok_def)
qed

lemma bump_inv_areas_ok: "bump_inv b \<Longrightarrow> areas_ok b"
  by (simp add: bump_inv_def areas_ok_def)

lemma bump_avail_mono:
  "areas b' = areas b \<Longrightarrow> next_free_frame b \<le> next_free_frame b' \<Longrightarrow> bump_avail b' \<subseteq> bump_avail b"
  by (auto simp: bump_avail_def)

lemma bump_avail_choose: "bump_avail (choose_next_area b) \<subseteq> bump_avail b"
  by (rule bump_avail_mono) (simp_all add: choose_next_area_mono)

text \<open>What one allocation of \<open>n\<close> frames guarantees.\<close>

definition bump_post :: "bump \<Rightarrow> nat \<Rightarrow> bump \<times> nat option \<Rightarrow> bool" where
  "bump_post b n y \<longleftrightarrow> (case y of (b', r) \<Rightarrow>
    bump_inv b' \<and> bump_avail b' \<subseteq> bump_avail b \<and>
    (case r of None \<Rightarrow> True
     | Some f \<Rightarrow> frange (f, n) \<subseteq> bump_avail b \<and> bump_avail b' \<inter> frange (f, n) = {} \<and>
         f + n \<le> 2 ^ 40 \<and> \<not> in_kernel b f \<and> \<not> in_kernel b (f + n - 1)))"

lemma in_kernel_choose [simp]: "in_kernel (choose_next_area b) f = in_kernel b f"
  by (simp add: in_kernel_def)

lemma bump_post_choose: "bump_post (choose_next_area b) n y \<Longrightarrow> bump_post b n y"
  using bump_avail_choose [of b] by (fastforce simp: bump_post_def split: prod.splits option.splits)

lemma bump_post_skip:
  assumes "bump_post (b\<lparr>next_free_frame := k\<rparr>) n y" "next_free_frame b \<le> k"
  shows "bump_post b n y"
proof -
  have "bump_avail (b\<lparr>next_free_frame := k\<rparr>) \<subseteq> bump_avail b"
    by (rule bump_avail_mono) (simp_all add: assms(2))
  moreover have "in_kernel (b\<lparr>next_free_frame := k\<rparr>) f = in_kernel b f" for f
    by (simp add: in_kernel_def)
  ultimately show ?thesis using assms(1)
    by (fastforce simp: bump_post_def split: prod.splits option.splits)
qed

lemma bump_post_take:
  assumes "bump_inv b" "current_area b = Some a" "0 < n" "next_free_frame b + (n - 1) \<le> area_last a"
    and "\<not> in_kernel b (next_free_frame b)" "\<not> in_kernel b (next_free_frame b + (n - 1))"
  shows "bump_post b n (b\<lparr>next_free_frame := next_free_frame b + n\<rparr>, Some (next_free_frame b))"
proof -
  have a: "a \<in> set (areas b)" "area_start a \<le> next_free_frame b" "area_last a < 2 ^ 40"
    using assms(1,2) by (auto simp: bump_inv_def area_ok_def)
  have "frange (next_free_frame b, n) \<subseteq> bump_avail b"
    using a assms(3,4) by (auto simp: bump_avail_def frange_def intro!: bexI [of _ a])
  then show ?thesis
    using assms a by (auto simp: bump_post_def bump_inv_def bump_avail_def frange_def)
qed

lemma bump_allocate_spec:
  assumes "bump_allocate b n = Some y" "bump_inv b" "0 < n" "n \<le> 2 ^ 52"
  shows "bump_post b n y"
proof -
  let ?P = "\<lambda>b n y. bump_inv b \<longrightarrow> 0 < n \<longrightarrow> n \<le> 2 ^ 52 \<longrightarrow> bump_post b n y"
  have "?P b n y"
  proof (rule bump_allocate.raw_induct [of ?P, OF _ assms(1)], intro impI)
    fix f b n y
    assume IH: "\<And>b n y. f b n = Some y \<Longrightarrow> ?P b n y"
      and body: "(if n = 0 then Some (b, None)
        else case current_area b of None \<Rightarrow> Some (b, None)
        | Some area \<Rightarrow>
           let start_frame = next_free_frame b; end_frame = uadd (next_free_frame b) (n - 1)
           in if area_last area < end_frame then f (choose_next_area b) n
              else if in_kernel b start_frame \<or> in_kernel b end_frame
              then f (b\<lparr>next_free_frame := uadd (kernel_end b) 1\<rparr>) n
              else Some (b\<lparr>next_free_frame := uadd (next_free_frame b) n\<rparr>, Some start_frame)) = Some y"
      and good: "bump_inv b" and n: "0 < n" "n \<le> 2 ^ 52"
    have bounds: "next_free_frame b \<le> 2 ^ 40" "kernel_end b < 2 ^ 40" using good by (auto simp: bump_inv_def)
    show "bump_post b n y"
    proof (cases "current_area b")
      case None
      then show ?thesis using body n good by (auto simp: bump_post_def)
    next
      case (Some a)
      let ?e = "next_free_frame b + (n - 1)"
      have u: "uadd (next_free_frame b) (n - 1) = ?e" "uadd (next_free_frame b) n = next_free_frame b + n"
        "uadd (kernel_end b) 1 = kernel_end b + 1" using bounds n by auto
      consider "area_last a < ?e" "f (choose_next_area b) n = Some y"
        | "\<not> area_last a < ?e" "in_kernel b (next_free_frame b) \<or> in_kernel b ?e"
          "f (b\<lparr>next_free_frame := kernel_end b + 1\<rparr>) n = Some y"
        | "\<not> area_last a < ?e" "\<not> in_kernel b (next_free_frame b)" "\<not> in_kernel b ?e"
          "y = (b\<lparr>next_free_frame := next_free_frame b + n\<rparr>, Some (next_free_frame b))"
        using body n Some u by (auto simp: Let_def split: if_splits)
      then show ?thesis
      proof cases
        case 1
        then show ?thesis using IH choose_next_area_inv [OF bump_inv_areas_ok [OF good]] n bump_post_choose by blast
      next
        case 2
        then have k: "next_free_frame b \<le> kernel_end b + 1" by (auto simp: in_kernel_def)
        then have "bump_inv (b\<lparr>next_free_frame := kernel_end b + 1\<rparr>)"
          using good bounds Some by (auto simp: bump_inv_def)
        then show ?thesis using IH [OF 2(3)] n bump_post_skip k by blast
      next
        case 3
        then show ?thesis using bump_post_take [OF good Some n(1)] by simp
      qed
    qed
  qed
  then show ?thesis using assms by simp
qed

interpretation bump: frame_allocator "2 ^ 40" bump_inv bump_avail bump_set_noncore bump_allocate bump_deallocate
proof (unfold_locales, goal_cases)
  case (2 s n s' f)
  then show ?case using bump_allocate_spec [OF 2(4,1,2,3)] by (auto simp: bump_post_def)
next
  case (3 s n s')
  then show ?case using bump_allocate_spec [OF 3(4,1,2,3)] by (auto simp: bump_post_def)
qed (auto simp: bump_deallocate_def bump_set_noncore_def)

subsection \<open>The recycling allocator over any allocator\<close>

definition recycle_inv :: "nat \<Rightarrow> ('i \<Rightarrow> bool) \<Rightarrow> ('i \<Rightarrow> nat set) \<Rightarrow> 'i recycle \<Rightarrow> bool" where
  "recycle_inv limit good avail r \<longleftrightarrow> good (rec_inner r) \<and> free_ok (rec_free r) \<and>
    free_pages (rec_free r) \<subseteq> {..< limit} \<and> free_pages (rec_free r) \<inter> avail (rec_inner r) = {}"

definition recycle_avail :: "('i \<Rightarrow> nat set) \<Rightarrow> 'i recycle \<Rightarrow> nat set" where
  "recycle_avail avail r = avail (rec_inner r) \<union> free_pages (rec_free r)"

lemma recycle_allocate_block:
  assumes ok: "free_ok (rec_free r)" and i: "fst (find_small n (None, (0, 0)) 0 (rec_free r)) = Some i"
  defines "b \<equiv> rec_free r ! i"
  shows "recycle_allocate alloc r n =
    Some (r\<lparr>rec_free := take_pages (rec_free r) i n\<rparr>, Some ((fst b + (snd b - n) * 4096) div 4096))"
    "i < length (rec_free r)" "n \<le> snd b"
proof -
  show il: "i < length (rec_free r)" and nb: "n \<le> snd b"
    using find_small_spec [where count = n and ?b0.0 = "(0, 0)" and bs = "rec_free r"] i
    by (auto simp: b_def)
  have "block_ok b" using ok il by (simp add: free_ok_def b_def)
  then have bd: "bend b < 2 ^ 64" by (simp add: block_ok_def)
  then have lt: "snd b < 2 ^ 64" "(snd b - n) * 4096 < 2 ^ 64" "fst b + (snd b - n) * 4096 < 2 ^ 64"
    by (auto simp: diff_mult_distrib)
  then have u: "usub (snd b) n = snd b - n"
    "uadd (fst b) (umul (snd b - n) 4096) = fst b + (snd b - n) * 4096"
    using nb by auto
  have z: "snd b - n = 0 \<longleftrightarrow> snd b = n" using nb by auto
  show "recycle_allocate alloc r n =
    Some (r\<lparr>rec_free := take_pages (rec_free r) i n\<rparr>, Some ((fst b + (snd b - n) * 4096) div 4096))"
    using i il nb
    by (simp add: recycle_allocate_def Let_def u z vec_remove_def take_pages_def removed_def
        containing_address_def PAGE_SIZE_def case_prod_beta flip: b_def)
qed

lemma block_of_frames:
  assumes "0 < n" "f + n < 2 ^ 52"
  shows "block_ok (f * 4096, n)" "pages (f * 4096, n) = frange (f, n)" "frame_start_address f = f * 4096"
  using assms by (auto simp: block_ok_def pages_def frange_def frame_start_address_def PAGE_SIZE_def)

context frame_allocator
begin

lemma recycle_alloc_some:
  assumes "recycle_inv limit good avail r" "0 < n" "n \<le> 2 ^ 52" "recycle_allocate alloc r n = Some (r', Some f)"
  shows "recycle_inv limit good avail r' \<and> frange (f, n) \<subseteq> recycle_avail avail r \<and>
    recycle_avail avail r' \<subseteq> recycle_avail avail r - frange (f, n) \<and> f + n \<le> limit"
proof (cases "fst (find_small n (None, (0, 0)) 0 (rec_free r))")
  case None
  then obtain i' where i': "alloc (rec_inner r) n = Some (i', Some f)" "r' = r\<lparr>rec_inner := i'\<rparr>"
    using assms(4) by (auto simp: recycle_allocate_def bind_eq_Some_conv)
  have "good (rec_inner r)" using assms(1) by (simp add: recycle_inv_def)
  note a = alloc_some [OF this assms(2,3) i'(1)]
  show ?thesis using a assms(1) i'(2) by (auto simp: recycle_inv_def recycle_avail_def)
next
  case (Some i)
  have ok: "free_ok (rec_free r)" using assms(1) by (simp add: recycle_inv_def)
  note R = recycle_allocate_block [OF ok Some]
  note T = take_pages_spec [OF ok R(2) assms(2) R(3)]
  have r': "r' = r\<lparr>rec_free := take_pages (rec_free r) i n\<rparr>"
    "f = (fst (rec_free r ! i) + (snd (rec_free r ! i) - n) * 4096) div 4096"
    using assms(4) R(1) [of alloc] by auto
  have "f + (n - 1) \<in> free_pages (rec_free r)" using T(2) assms(2) by (auto simp: r'(2))
  then have "f + n \<le> limit" using assms(1,2) by (auto simp: recycle_inv_def)
  then show ?thesis
    using T assms(1) unfolding r' by (auto simp: recycle_inv_def recycle_avail_def frange_def)
qed

lemma recycle_alloc_none:
  assumes "recycle_inv limit good avail r" "0 < n" "n \<le> 2 ^ 52" "recycle_allocate alloc r n = Some (r', None)"
  shows "recycle_inv limit good avail r' \<and> recycle_avail avail r' \<subseteq> recycle_avail avail r"
proof (cases "fst (find_small n (None, (0, 0)) 0 (rec_free r))")
  case None
  then obtain i' where i': "alloc (rec_inner r) n = Some (i', None)" "r' = r\<lparr>rec_inner := i'\<rparr>"
    using assms(4) by (auto simp: recycle_allocate_def bind_eq_Some_conv)
  have "good (rec_inner r)" using assms(1) by (simp add: recycle_inv_def)
  note a = alloc_none [OF this assms(2,3) i'(1)]
  show ?thesis using a assms(1) i'(2) by (auto simp: recycle_inv_def recycle_avail_def)
next
  case (Some i)
  have ok: "free_ok (rec_free r)" using assms(1) by (simp add: recycle_inv_def)
  show ?thesis using recycle_allocate_block(1) [OF ok Some, of alloc] assms(4) by simp
qed

lemma recycle_dealloc:
  assumes "limit < 2 ^ 52" "recycle_inv limit good avail r" "0 < n" "f + n \<le> limit" "frange (f, n) \<inter> recycle_avail avail r = {}"
  shows "\<exists>r'. recycle_deallocate dealloc r f n = Some r' \<and> recycle_inv limit good avail r' \<and>
    recycle_avail avail r' \<subseteq> recycle_avail avail r \<union> frange (f, n)"
proof (cases "rec_noncore r")
  case True
  have "f + n < 2 ^ 52" using assms(1,4) by simp
  note B = block_of_frames [OF assms(3) this]
  have ok: "free_ok (rec_free r)" using assms(2) by (simp add: recycle_inv_def)
  have "apart (f * 4096, n) x" if "x \<in> set (rec_free r)" for x
    using apart_pages [OF B(1), of x] ok that assms(5) B(2)
    by (auto simp: free_ok_def recycle_avail_def free_pages_def)
  from merge_correct [OF ok B(1) this] obtain bs' m where
    m: "merge (rec_free r) (f * 4096) n = Some (bs', m)"
      "free_ok (if m then bs' else bs' @ [(f * 4096, n)])"
      "free_pages (if m then bs' else bs' @ [(f * 4096, n)]) = free_pages (rec_free r) \<union> frange (f, n)"
    using B(2) by auto
  have "frange (f, n) \<subseteq> {..< limit}" using assms(4) by (auto simp: frange_def)
  then show ?thesis
    using m True assms B(3)
    by (auto simp: recycle_deallocate_def recycle_inv_def recycle_avail_def)
next
  case False
  have d: "good (rec_inner r)" "frange (f, n) \<inter> avail (rec_inner r) = {}"
    using assms(2,5) by (auto simp: recycle_inv_def recycle_avail_def)
  from dealloc_law [OF d(1) assms(3,4) d(2)] obtain s' where
    s': "dealloc (rec_inner r) f n = Some s'" "good s'" "avail s' \<subseteq> avail (rec_inner r) \<union> frange (f, n)"
    by blast
  have "free_pages (rec_free r) \<inter> avail s' = {}"
    using s'(3) assms(2,5) by (auto simp: recycle_inv_def recycle_avail_def)
  then have "recycle_inv limit good avail (r\<lparr>rec_inner := s'\<rparr>)"
    using s'(2) assms(2) by (simp add: recycle_inv_def)
  moreover have "recycle_avail avail (r\<lparr>rec_inner := s'\<rparr>) \<subseteq> recycle_avail avail r \<union> frange (f, n)"
    using s'(3) by (auto simp: recycle_avail_def)
  ultimately show ?thesis using False s'(1) by (simp add: recycle_deallocate_def)
qed

lemma recycle_is_allocator:
  "limit < 2 ^ 52 \<Longrightarrow> frame_allocator limit (recycle_inv limit good avail) (recycle_avail avail) set_noncore
    (recycle_allocate alloc) (recycle_deallocate dealloc)"
proof (unfold_locales, goal_cases)
  case (1 s nc) then show ?case by (simp add: recycle_inv_def recycle_avail_def set_noncore_def)
next
  case (2 s n s' f) then show ?case using recycle_alloc_some by blast
next
  case (3 s n s') then show ?case using recycle_alloc_none by blast
next
  case (4 s n f) then show ?case using recycle_dealloc by blast
qed

end

interpretation kernel_frames: frame_allocator
  "2 ^ 40" "recycle_inv (2 ^ 40) bump_inv bump_avail" "recycle_avail bump_avail" set_noncore
  "recycle_allocate bump_allocate" "recycle_deallocate bump_deallocate"
  by (rule bump.recycle_is_allocator) simp

subsection \<open>The virtual page allocator\<close>

text \<open>\<open>fit_ok n bs r\<close>: the search result \<open>r\<close> is a smallest block of \<open>bs\<close> with at least \<open>n\<close>
  pages, or None when there is none.\<close>

definition fit_ok :: "nat \<Rightarrow> block list \<Rightarrow> (block \<times> nat) option \<Rightarrow> bool" where
  "fit_ok n bs r \<longleftrightarrow> (case r of
     None \<Rightarrow> \<forall>x \<in> set bs. snd x < n
   | Some (b, i) \<Rightarrow> i < length bs \<and> bs ! i = b \<and> n \<le> snd b \<and>
       (\<forall>x \<in> set bs. n \<le> snd x \<longrightarrow> snd b \<le> snd x))"

definition better :: "block \<Rightarrow> nat \<Rightarrow> (block \<times> nat) option \<Rightarrow> block \<times> nat" where
  "better x k best = (case best of
     None \<Rightarrow> (x, k)
   | Some (b', i') \<Rightarrow> if snd x < snd b' then (x, k) else (b', i'))"

lemma fit_ok_small: "fit_ok n pre r \<Longrightarrow> snd x < n \<Longrightarrow> fit_ok n (pre @ [x]) r"
  by (auto simp: fit_ok_def nth_append split: option.splits)

lemma fit_ok_better:
  assumes "fit_ok n pre r" "n \<le> snd x"
  shows "fit_ok n (pre @ [x]) (Some (better x (length pre) r))"
proof (cases r)
  case None
  then show ?thesis using assms by (auto simp: fit_ok_def better_def dest!: bspec)
next
  case (Some q)
  obtain b i where q: "q = (b, i)" by (cases q)
  have b: "i < length pre" "pre ! i = b" "n \<le> snd b" "\<forall>x \<in> set pre. n \<le> snd x \<longrightarrow> snd b \<le> snd x"
    using assms(1) Some q by (auto simp: fit_ok_def)
  show ?thesis
  proof (cases "snd x < snd b")
    case True
    then show ?thesis using b assms(2) Some q by (force simp: fit_ok_def better_def)
  next
    case False
    then show ?thesis using b assms(2) Some q by (simp add: fit_ok_def better_def nth_append)
  qed
qed

lemma fit_ok_exact: "fit_ok n pre (Some (b, i)) \<Longrightarrow> snd b = n \<Longrightarrow> fit_ok n (pre @ bs) (Some (b, i))"
  by (simp add: fit_ok_def nth_append)

lemma best_fit_from_ok:
  "fit_ok n pre best \<Longrightarrow> fit_ok n (pre @ bs) (best_fit_from n best (length pre) bs)"
proof (induction bs arbitrary: best pre)
  case (Cons x bs)
  have app: "length (pre @ [x]) = length pre + 1" "pre @ x # bs = (pre @ [x]) @ bs" by simp_all
  show ?case
  proof (cases "snd x < n")
    case True
    then show ?thesis
      using Cons.IH [OF fit_ok_small [OF Cons.prems True]] by simp
  next
    case False
    have ok: "fit_ok n (pre @ [x]) (Some (better x (length pre) best))"
      using fit_ok_better [OF Cons.prems] False by simp
    have step: "best_fit_from n best (length pre) (x # bs) =
        (if snd (fst (better x (length pre) best)) = n then Some (better x (length pre) best)
         else best_fit_from n (Some (better x (length pre) best)) (length (pre @ [x])) bs)"
      using False by (simp add: better_def Let_def)
    show ?thesis
      unfolding app(2) step using Cons.IH [OF ok] fit_ok_exact [of n "pre @ [x]" _ _ bs] ok
      by (cases "better x (length pre) best") (simp del: append_assoc)
  qed
qed simp

lemma nth_swap_remove:
  "i < length xs \<Longrightarrow> k < length xs - 1 \<Longrightarrow>
    butlast (xs[i := last xs]) ! k = xs ! (if k = i then length xs - 1 else k)"
  by (cases "xs = []") (simp_all add: nth_butlast nth_list_update last_conv_nth)

lemma swap_remove_free_ok:
  assumes "free_ok bs" "i < length bs"
  shows "free_ok (butlast (bs[i := last bs]))" "set (butlast (bs[i := last bs])) = set (removed i bs)"
proof -
  let ?b = "butlast (bs[i := last bs])" and ?s = "\<lambda>k. if k = i then length bs - 1 else k"
  have nth: "?b ! k = bs ! ?s k" if "k < length bs - 1" for k using nth_swap_remove [OF assms(2) that] .
  have inj: "?s k < length bs" "?s k \<noteq> i" if "k < length bs - 1" for k using that assms(2) by auto
  show "set ?b = set (removed i bs)"
  proof -
    have "set ?b = (\<lambda>k. ?b ! k) ` {..< length bs - 1}"
      unfolding set_conv_nth by (simp only: length_butlast length_list_update) blast
    also have "\<dots> = (\<lambda>k. bs ! ?s k) ` {..< length bs - 1}"
      by (rule image_cong [OF refl]) (rule nth, simp)
    also have "\<dots> = {bs ! k |k. k < length bs \<and> k \<noteq> i}"
    proof (intro equalityI subsetI)
      fix x assume "x \<in> {bs ! k |k. k < length bs \<and> k \<noteq> i}"
      then obtain k where "k < length bs" "k \<noteq> i" "x = bs ! k" by auto
      then show "x \<in> (\<lambda>k. bs ! ?s k) ` {..< length bs - 1}"
        using assms(2) by (intro image_eqI [of _ _ "if k = length bs - 1 then i else k"]) auto
    qed (use inj in auto)
    finally show ?thesis using set_removed_nth [OF assms(2)] by simp
  qed
  moreover have "set (removed i bs) \<subseteq> set bs" using set_removed [OF assms(2)] by auto
  ultimately have "\<forall>b \<in> set ?b. block_ok b" using assms(1) by (auto simp: free_ok_def)
  moreover have "sep (?b ! j) (?b ! k)" if jk: "j < length bs - 1" "k < length bs - 1" "j \<noteq> k" for j k
  proof -
    have "?s j \<noteq> ?s k" using jk by auto
    then show ?thesis
      unfolding nth [OF jk(1)] nth [OF jk(2)] using assms(1) inj(1) [OF jk(1)] inj(1) [OF jk(2)]
      unfolding free_ok_def by blast
  qed
  ultimately show "free_ok ?b" unfolding free_ok_def by (simp only: length_butlast length_list_update) blast
qed

lemma allocate_pages_spec:
  assumes ok: "free_ok bs" and n: "0 < n"
  shows "case allocate_pages bs n of
      None \<Rightarrow> False
    | Some (bs', None) \<Rightarrow> bs' = bs \<and> (\<forall>b \<in> set bs. snd b < n)
    | Some (bs', Some p) \<Rightarrow> free_ok bs' \<and> frange (p, n) \<subseteq> free_pages bs \<and>
        free_pages bs' = free_pages bs - frange (p, n) \<and>
        (\<exists>b \<in> set bs. n \<le> snd b \<and> frange (p, n) \<subseteq> pages b \<and> (\<forall>x \<in> set bs. n \<le> snd x \<longrightarrow> snd b \<le> snd x))"
proof (cases "best_fit_from n None 0 bs")
  case None
  then show ?thesis
    using best_fit_from_ok [of n "[]" None bs] by (simp add: allocate_pages_def fit_ok_def)
next
  case (Some q)
  obtain a c i where q: "q = ((a, c), i)" by (metis surj_pair)
  have i: "i < length bs" "bs ! i = (a, c)" "n \<le> c" "\<forall>x \<in> set bs. n \<le> snd x \<longrightarrow> c \<le> snd x"
    using best_fit_from_ok [of n "[]" None bs] Some q by (simp_all add: fit_ok_def)
  have "block_ok (a, c)" using ok i by (metis free_ok_def nth_mem)
  then have bd: "a + c * 4096 < 2 ^ 64" by (simp add: block_ok_def)
  have "(c - n) * 4096 \<le> c * 4096" by simp
  with bd have lt: "c < 2 ^ 64" "a + (c - n) * 4096 < 2 ^ 64" "(c - n) * 4096 < 2 ^ 64" by linarith+
  then have u: "usub c n = c - n" "uadd a (umul (c - n) 4096) = a + (c - n) * 4096" using i(3) by auto
  define p where "p = (a + (c - n) * 4096) div 4096"
  have T: "free_ok (take_pages bs i n)" "frange (p, n) \<subseteq> free_pages bs"
    "free_pages (take_pages bs i n) = free_pages bs - frange (p, n)"
    using take_pages_spec [OF ok i(1) n] i(2,3) by (simp_all add: p_def frange_def)
  define bs' where "bs' = (if c > n then butlast ((bs @ [(a, c - n)])[i := (a, c - n)]) else butlast (bs[i := last bs]))"
  have alloc: "allocate_pages bs n = Some (bs', Some p)"
    using Some q i u by (simp add: allocate_pages_def swap_remove_def bs'_def p_def
        containing_address_def PAGE_SIZE_def)
  have "free_ok bs' \<and> free_pages bs' = free_pages (take_pages bs i n)"
  proof (cases "c > n")
    case True
    then have "bs' = take_pages bs i n"
      using i by (simp add: bs'_def take_pages_def list_update_append butlast_append)
    then show ?thesis using T(1) by simp
  next
    case False
    then have "take_pages bs i n = removed i bs" using i by (simp add: take_pages_def)
    then show ?thesis using False swap_remove_free_ok [OF ok i(1)] by (simp add: bs'_def free_pages_def)
  qed
  moreover have "frange (p, n) \<subseteq> pages (a, c)"
    using pages_tail(1) [OF \<open>block_ok (a, c)\<close> i(3)] by (auto simp: p_def frange_def)
  ultimately show ?thesis using alloc T i nth_mem [OF i(1)] by (auto intro!: bexI [of _ "(a, c)"])
qed

lemma free_pages_bound:
  assumes "free_ok bs" "p \<in> free_pages bs"
  shows "p < 2 ^ 52"
proof -
  obtain b where "b \<in> set bs" "p \<in> pages b" using assms(2) by (auto simp: free_pages_def)
  then have "p * 4096 < 2 ^ 64" using assms(1) pages_bytes [of b p] by (auto simp: free_ok_def block_ok_def)
  then show ?thesis by simp
qed

lemma deallocate_pages_spec:
  assumes "free_ok bs" "0 < n" "f + n < 2 ^ 52" "frange (f, n) \<inter> free_pages bs = {}"
  shows "\<exists>bs'. deallocate_pages bs f n = Some bs' \<and> free_ok bs' \<and>
    free_pages bs' = free_pages bs \<union> frange (f, n)"
proof -
  note B = block_of_frames [OF assms(2,3)]
  have "apart (f * 4096, n) x" if "x \<in> set bs" for x
    using apart_pages [OF B(1), of x] assms(1,4) that B(2) by (auto simp: free_ok_def free_pages_def)
  from merge_correct [OF assms(1) B(1) this] show ?thesis
    using B by (auto simp: deallocate_pages_def valloc_merge_def)
qed

interpretation valloc: frame_allocator "2 ^ 52 - 1" free_ok free_pages "\<lambda>s _. s" allocate_pages deallocate_pages
proof (unfold_locales, goal_cases)
  case (2 s n s' f)
  note a = allocate_pages_spec [OF 2(1,2)]
  have "f + (n - 1) \<in> free_pages s" using a 2 by (auto simp: frange_def)
  then have "f + (n - 1) < 2 ^ 52" using free_pages_bound 2(1) by blast
  moreover have "f + n \<noteq> 2 ^ 52"
  proof
    assume top: "f + n = 2 ^ 52"
    obtain b where "b \<in> set s" "f + (n - 1) \<in> pages b"
      using \<open>f + (n - 1) \<in> free_pages s\<close> by (auto simp: free_pages_def)
    then have b: "block_ok b" "fst b div 4096 + snd b = 2 ^ 52 \<or> f + n < fst b div 4096 + snd b"
      using 2(1,2) top by (auto simp: free_ok_def pages_def)
    then have "2 ^ 52 \<le> fst b div 4096 + snd b" using top by auto
    then show False using b(1) by (auto simp: block_ok_def)
  qed
  ultimately show ?case using a 2 by auto
next
  case (3 s n s')
  then show ?case using allocate_pages_spec [OF 3(1,2)] by auto
next
  case (4 s n f)
  then show ?case using deallocate_pages_spec [of s n f] by auto
qed simp

end
