(* ===== verification/Memory_Props.thy ===== *)
theory Memory_Props
  imports Frame_Alloc
begin

text \<open>
  What the kernel's memory module promises: live frame and page allocations never overlap, freeing
  returns, a single frame is always found and is never a kernel frame; and the two ways in which
  allocations of several frames go wrong.
\<close>

subsection \<open>Termination of the bump allocator\<close>

lemma bump_allocate_unfold:
  "bump_allocate b n =
    (if n = 0 then Some (b, None)
     else case current_area b of
       None \<Rightarrow> Some (b, None)
     | Some area \<Rightarrow>
         if uadd (next_free_frame b) (n - 1) > area_last area then bump_allocate (choose_next_area b) n
         else if in_kernel b (next_free_frame b) \<or> in_kernel b (uadd (next_free_frame b) (n - 1))
         then bump_allocate (b\<lparr>next_free_frame := uadd (kernel_end b) 1\<rparr>) n
         else Some (b\<lparr>next_free_frame := uadd (next_free_frame b) n\<rparr>, Some (next_free_frame b)))"
  by (subst bump_allocate.simps) (simp add: Let_def split: option.splits)

lemma bump_one_above:
  assumes "bump_inv b" "kernel_end b < next_free_frame b"
    and "\<And>a. current_area b = Some a \<Longrightarrow> next_free_frame b \<le> area_last a"
  shows "bump_allocate b 1 \<noteq> None"
  using assms by (subst bump_allocate_unfold) (auto simp: in_kernel_def bump_inv_def split: option.splits)

lemma choose_next_area_fits:
  assumes "bump_inv b" "current_area (choose_next_area b) = Some a"
  shows "next_free_frame (choose_next_area b) \<le> area_last a"
  using choose_next_area_current [OF assms(2)] assms(1) by (fastforce simp: bump_inv_def area_ok_def)

lemma bump_one_after_kernel:
  assumes "bump_inv b" "kernel_end b < next_free_frame b"
  shows "bump_allocate b 1 \<noteq> None"
proof (cases "\<exists>a. current_area b = Some a \<and> area_last a < next_free_frame b")
  case True
  then obtain a where a: "current_area b = Some a" "area_last a < next_free_frame b" by blast
  have "bump_allocate (choose_next_area b) 1 \<noteq> None"
    using bump_one_above [OF choose_next_area_inv [OF bump_inv_areas_ok [OF assms(1)]]] choose_next_area_fits [OF assms(1)]
      choose_next_area_mono [of b] assms(2) by (metis choose_next_area_select(3) order_less_le_trans)
  moreover have "next_free_frame b < 2 ^ 64" using assms(1) by (simp add: bump_inv_def)
  ultimately show ?thesis using a by (subst bump_allocate_unfold) simp
next
  case False
  then show ?thesis using bump_one_above [OF assms] by (meson not_less)
qed

lemma bump_one_in_area:
  assumes "bump_inv b" "\<And>a. current_area b = Some a \<Longrightarrow> next_free_frame b \<le> area_last a"
  shows "bump_allocate b 1 \<noteq> None"
proof (cases "in_kernel b (next_free_frame b)")
  case True
  let ?b = "b\<lparr>next_free_frame := kernel_end b + 1\<rparr>"
  have "bump_inv ?b" using assms(1) True by (auto simp: bump_inv_def in_kernel_def split: option.splits)
  then have "bump_allocate ?b 1 \<noteq> None" by (rule bump_one_after_kernel) simp
  moreover have "uadd (kernel_end b) 1 = kernel_end b + 1" "next_free_frame b < 2 ^ 64"
    using assms(1) by (auto simp: bump_inv_def)
  ultimately show ?thesis
    using assms(2) by (subst bump_allocate_unfold) (auto split: option.splits)
next
  case False
  moreover have "next_free_frame b < 2 ^ 64" using assms(1) by (simp add: bump_inv_def)
  ultimately show ?thesis
    using assms(2) by (subst bump_allocate_unfold) (auto split: option.splits)
qed

lemma bump_one_returns:
  assumes "bump_inv b"
  shows "bump_allocate b 1 \<noteq> None"
proof (cases "\<exists>a. current_area b = Some a \<and> area_last a < next_free_frame b")
  case True
  then obtain a where a: "current_area b = Some a" "area_last a < next_free_frame b" by blast
  have "bump_allocate (choose_next_area b) 1 \<noteq> None"
    using bump_one_in_area [OF choose_next_area_inv [OF bump_inv_areas_ok [OF assms]]] choose_next_area_fits [OF assms] by blast
  moreover have "next_free_frame b < 2 ^ 64" using assms by (simp add: bump_inv_def)
  ultimately show ?thesis using a by (subst bump_allocate_unfold) simp
next
  case False
  then show ?thesis using bump_one_in_area [OF assms] by (meson not_less)
qed


lemma bump_new_inv:
  assumes "\<forall>a \<in> set as. area_ok a" "ke < 2 ^ 52"
  shows "bump_inv (bump_new ks ke as)"
proof -
  have "areas_ok \<lparr> next_free_frame = 0, current_area = None, areas = as,
      kernel_start = containing_address ks, kernel_end = containing_address ke \<rparr>"
    using assms by (auto simp: areas_ok_def containing_address_def PAGE_SIZE_def)
  then show ?thesis
    using choose_next_area_inv by (simp add: bump_new_def containing_address_def)
qed

lemma memory_init_inv:
  assumes "\<forall>a \<in> set (areas_left mm (area_iter_new MEMORY_AREA_FREE)). area_ok a" "ke < 2 ^ 52"
  shows "recycle_inv (2 ^ 40) bump_inv bump_avail (memory_init mm ks ke)"
  using bump_new_inv [OF assms]
  by (simp add: recycle_inv_def memory_init_def recycle_new_def free_ok_def free_pages_def)

subsection \<open>The bump allocator finds every frame\<close>

lemma choose_next_area_avail: "bump_avail (choose_next_area b) = bump_avail b"
proof
  show "bump_avail b \<subseteq> bump_avail (choose_next_area b)"
  proof
    fix f assume "f \<in> bump_avail b"
    then obtain x where x: "next_free_frame b \<le> f" "x \<in> set (areas b)" "area_start x \<le> f" "f \<le> area_last x"
      by (auto simp: bump_avail_def)
    then have xin: "x \<in> set (filter (\<lambda>a. area_last a \<ge> next_free_frame b) (areas b))" by auto
    show "f \<in> bump_avail (choose_next_area b)"
    proof (cases "current_area (choose_next_area b)")
      case None
      have "area_last x < next_free_frame b" using choose_next_area_None(2) [OF None] x(2) by blast
      then show ?thesis using x by simp
    next
      case (Some a)
      have "min_by_key base_addr (filter (\<lambda>a. area_last a \<ge> next_free_frame b) (areas b)) = Some a"
        using Some by (auto simp: choose_next_area_def Let_def split: option.splits if_splits)
      from min_by_key_Some [OF this] xin have "base_addr a \<le> base_addr x" by blast
      then have "area_start a \<le> area_start x"
        by (simp add: area_start_def containing_address_def div_le_mono)
      then have "next_free_frame (choose_next_area b) \<le> f"
        using choose_next_area_current(3) [OF Some] x(1,3) by simp
      then show ?thesis unfolding bump_avail_def using x(2-4) by auto
    qed
  qed
qed (rule bump_avail_choose)

lemma bump_one_exhausted:
  assumes "bump_allocate b 1 = Some (b', None)" "bump_inv b"
  shows "\<forall>f \<in> bump_avail b. in_kernel b f"
proof -
  let ?P = "\<lambda>b n y. bump_inv b \<longrightarrow> n = (1 :: nat) \<longrightarrow> snd y = (None :: nat option) \<longrightarrow> (\<forall>f \<in> bump_avail b. in_kernel b f)"
  have "?P b 1 (b', None)"
  proof (rule bump_allocate.raw_induct [of ?P, OF _ assms(1)], intro impI)
    fix f b n y
    assume IH: "\<And>b n y. f b n = Some y \<Longrightarrow> ?P b n y"
      and body: "(if n = 0 then Some (b, None)
        else case current_area b of None \<Rightarrow> Some (b, None)
        | Some area \<Rightarrow>
           let start_frame = next_free_frame b; end_frame = uadd (next_free_frame b) (n - 1)
           in if area_last area < end_frame then f (choose_next_area b) n
              else if in_kernel b start_frame \<or> in_kernel b end_frame
              then f (b\<lparr>next_free_frame := uadd (kernel_end b) 1\<rparr>) n
              else Some (b\<lparr>next_free_frame := uadd (next_free_frame b) n\<rparr>, Some start_frame)) = Some y"
      and good: "bump_inv b" and n: "n = (1 :: nat)" and none: "snd y = None"
    have u: "uadd (next_free_frame b) 0 = next_free_frame b" "uadd (kernel_end b) 1 = kernel_end b + 1"
      using good by (auto simp: bump_inv_def)
    show "\<forall>f \<in> bump_avail b. in_kernel b f"
    proof (cases "current_area b")
      case None
      then show ?thesis using good by (fastforce simp: bump_inv_def bump_avail_def)
    next
      case (Some a)
      consider "f (choose_next_area b) n = Some y"
        | "in_kernel b (next_free_frame b)" "f (b\<lparr>next_free_frame := kernel_end b + 1\<rparr>) n = Some y"
        using body n Some u none by (auto simp: Let_def split: if_splits)
      then show ?thesis
      proof cases
        case 1
        then show ?thesis
          using IH [OF 1] n none choose_next_area_inv [OF bump_inv_areas_ok [OF good]]
          by (simp add: choose_next_area_avail)
      next
        case 2
        have "bump_inv (b\<lparr>next_free_frame := kernel_end b + 1\<rparr>)"
          using good Some 2(1) by (auto simp: bump_inv_def in_kernel_def)
        then have "\<forall>f \<in> bump_avail (b\<lparr>next_free_frame := kernel_end b + 1\<rparr>). in_kernel b f"
          using IH [OF 2(2)] n none by (simp add: in_kernel_def)
        then show ?thesis using 2(1) by (fastforce simp: bump_avail_def in_kernel_def)
      qed
    qed
  qed
  then show ?thesis using assms(2) by simp
qed

subsection \<open>A concrete memory map\<close>

definition demo_area :: memory_area where
  "demo_area = \<lparr> base_addr = 0x100000, area_length = 0x10000, area_type = 1, area_acpi = 0 \<rparr>"

definition demo_bump :: "nat \<Rightarrow> bump" where
  "demo_bump n = \<lparr> next_free_frame = n, current_area = Some demo_area, areas = [demo_area],
    kernel_start = 258, kernel_end = 259 \<rparr>"

lemma demo_area_frames [simp]: "area_start demo_area = 256" "area_last demo_area = 271"
  by (simp_all add: area_start_def area_last_def containing_address_def PAGE_SIZE_def demo_area_def)

lemma demo_areas [simp]: "areas_left [demo_area] (area_iter_new MEMORY_AREA_FREE) = [demo_area]"
  by (simp add: areas_left_def area_iter_new_def MEMORY_AREA_FREE_def demo_area_def)

lemma demo_ok [simp]: "area_ok demo_area"
  by (simp add: area_ok_def)


lemma demo_init:
  "memory_init [demo_area] 0x102000 0x103FFF =
    \<lparr> rec_inner = demo_bump 256, rec_noncore = False, rec_free = [] \<rparr>"
  by (simp add: memory_init_def recycle_new_def bump_new_def choose_next_area_def
      containing_address_def PAGE_SIZE_def demo_bump_def)

lemma demo_bump_inv: "256 \<le> n \<Longrightarrow> n \<le> 272 \<Longrightarrow> bump_inv (demo_bump n)"
  by (simp add: bump_inv_def demo_bump_def)

lemma demo_alloc:
  "recycle_allocate bump_allocate \<lparr> rec_inner = demo_bump 256, rec_noncore = nc, rec_free = [] \<rparr> 2 =
    Some (\<lparr> rec_inner = demo_bump 258, rec_noncore = nc, rec_free = [] \<rparr>, Some 256)"
proof -
  have "bump_allocate (demo_bump 256) 2 = Some (demo_bump 258, Some 256)"
    by (subst bump_allocate_unfold) (simp add: demo_bump_def in_kernel_def)
  then show ?thesis by (simp add: recycle_allocate_def)
qed

lemma demo_usage:
  "usage set_noncore (recycle_allocate bump_allocate) (recycle_deallocate bump_deallocate)
    (memory_init [demo_area] 0x102000 0x103FFF)
    \<lparr> rec_inner = demo_bump 258, rec_noncore = True, rec_free = [] \<rparr> [(256, 2)]"
proof -
  let ?u = "usage set_noncore (recycle_allocate bump_allocate) (recycle_deallocate bump_deallocate)
    (memory_init [demo_area] 0x102000 0x103FFF)"
  have "?u \<lparr> rec_inner = demo_bump 256, rec_noncore = False, rec_free = [] \<rparr> []"
    using usage_start demo_init by metis
  then have "?u \<lparr> rec_inner = demo_bump 258, rec_noncore = False, rec_free = [] \<rparr> [(256, 2)]"
    by (rule usage_alloc) (simp_all add: demo_alloc)
  from usage_noncore [OF this, of True] show ?thesis by (simp add: set_noncore_def)
qed

subsection \<open>Properties\<close>

text \<open>C11: starting from the allocator that \<open>memory::init\<close> builds, whatever sequence of
  allocations, deallocations of live allocations and changes to non-core mode follows, no two live
  allocations of the kernel's frame allocator share a frame.\<close>

theorem live_frames_disjoint:
  assumes "\<forall>a \<in> set (areas_left mm (area_iter_new MEMORY_AREA_FREE)). area_ok a" "ke < 2 ^ 52"
    and "usage set_noncore (recycle_allocate bump_allocate) (recycle_deallocate bump_deallocate)
      (memory_init mm ks ke) s L"
  shows "sorted_wrt (\<lambda>x y. frange x \<inter> frange y = {}) L"
  using kernel_frames.usage_safe [OF assms(3) memory_init_inv [OF assms(1,2)]]
  by (simp add: live_ok_def)

theorem live_frames_disjoint_witness:
  "usage set_noncore (recycle_allocate bump_allocate) (recycle_deallocate bump_deallocate)
    (memory_init [demo_area] 0x102000 0x103FFF)
    \<lparr> rec_inner = demo_bump 258, rec_noncore = True, rec_free = [] \<rparr> [(256, 2)] \<and>
   sorted_wrt (\<lambda>x y. frange x \<inter> frange y = {}) [(256, 2)]"
  using live_frames_disjoint [OF _ _ demo_usage] demo_usage by simp



text \<open>C13: the virtual page allocator takes the pages from a smallest block that is large enough,
  removes exactly these pages from the free set, fails only when no block is large enough, and
  giving the pages back restores the free set and the shape of the free list.\<close>

theorem valloc_best_fit_roundtrip:
  assumes "free_ok bs" "0 < n"
  shows "case allocate_pages bs n of
      None \<Rightarrow> False
    | Some (bs', None) \<Rightarrow> bs' = bs \<and> (\<forall>b \<in> set bs. snd b < n)
    | Some (bs', Some p) \<Rightarrow>
        (\<exists>b \<in> set bs. n \<le> snd b \<and> frange (p, n) \<subseteq> pages b \<and> (\<forall>x \<in> set bs. n \<le> snd x \<longrightarrow> snd b \<le> snd x)) \<and>
        free_ok bs' \<and> free_pages bs' = free_pages bs - frange (p, n) \<and>
        (\<exists>bs''. deallocate_pages bs' p n = Some bs'' \<and> free_ok bs'' \<and> free_pages bs'' = free_pages bs)"
proof -
  have "\<exists>bs''. deallocate_pages bs' p n = Some bs'' \<and> free_ok bs'' \<and> free_pages bs'' = free_pages bs"
    if a: "allocate_pages bs n = Some (bs', Some p)" for bs' p
  proof -
    have r: "free_ok bs'" "frange (p, n) \<subseteq> free_pages bs" "free_pages bs' = free_pages bs - frange (p, n)"
      using allocate_pages_spec [OF assms] a by simp_all
    obtain b where "b \<in> set bs" "frange (p, n) \<subseteq> pages b"
      using allocate_pages_spec [OF assms] a by auto
    then have "block_ok b" "p + n \<le> fst b div 4096 + snd b"
      using assms by (auto simp: free_ok_def frange_def pages_def atLeastLessThan_subset_iff)
    then have "(p + n) * 4096 < 2 ^ 64" by (auto simp: block_ok_def elim!: dvdE)
    then have "p + n < 2 ^ 52" by simp
    from deallocate_pages_spec [OF r(1) assms(2) this] r show ?thesis by auto
  qed
  then show ?thesis
    using allocate_pages_spec [OF assms] by (auto split: option.splits prod.splits)
qed

theorem valloc_best_fit_roundtrip_witness:
  "allocate_pages [(0, 8), (0x10000, 2)] 2 = Some ([(0, 8)], Some 16) \<and>
   (\<exists>bs''. deallocate_pages [(0, 8)] 16 2 = Some bs'' \<and> free_ok bs'' \<and>
     free_pages bs'' = free_pages [(0, 8), (0x10000, 2)])"
proof -
  have ok: "free_ok [(0, 8), (0x10000, 2)]"
    by (auto simp: free_ok_def block_ok_def sep_def less_Suc_eq)
  have "allocate_pages [(0, 8), (0x10000, 2)] 2 = Some ([(0, 8)], Some 16)"
    by (simp add: allocate_pages_def swap_remove_def containing_address_def PAGE_SIZE_def)
  then show ?thesis using valloc_best_fit_roundtrip [OF ok, of 2] by simp
qed

text \<open>C14: a request for one frame is always answered: with a frame of a usable area, outside the
  kernel image, that is not handed out again; or with None, and then every frame that is left
  belongs to the kernel.\<close>

theorem bump_one_frame:
  assumes "bump_inv b"
  shows "case bump_allocate b 1 of
      None \<Rightarrow> False
    | Some (b', None) \<Rightarrow> \<forall>f \<in> bump_avail b. in_kernel b f
    | Some (b', Some f) \<Rightarrow> f \<in> bump_avail b \<and> \<not> in_kernel b f \<and> bump_inv b' \<and>
        bump_avail b' \<subseteq> bump_avail b - {f}"
proof -
  obtain b' r where y: "bump_allocate b 1 = Some (b', r)" using bump_one_returns [OF assms] by auto
  have p: "bump_post b 1 (b', r)" using bump_allocate_spec [OF y assms] by simp
  show ?thesis
  proof (cases r)
    case None
    then show ?thesis using y bump_one_exhausted [OF _ assms] by simp
  next
    case (Some f)
    then show ?thesis using y p by (auto simp: bump_post_def frange_def)
  qed
qed

theorem bump_one_frame_witness:
  "case bump_allocate (demo_bump 258) 1 of
     None \<Rightarrow> False
   | Some (b', None) \<Rightarrow> False
   | Some (b', Some f) \<Rightarrow> f = 260 \<and> \<not> in_kernel (demo_bump 258) f"
proof -
  have "bump_allocate (demo_bump 258) 1 = Some (demo_bump 261, Some 260)"
    by (subst bump_allocate_unfold, simp add: demo_bump_def in_kernel_def)
      (subst bump_allocate_unfold, simp add: demo_bump_def in_kernel_def)
  then show ?thesis using bump_one_frame [OF demo_bump_inv, of 258] by simp
qed



text \<open>C16: a request whose frames reach from below the kernel image to above it is granted, so the
  kernel's own frames are handed out: only the first and the last frame are checked.\<close>

theorem bump_hands_out_kernel:
  assumes "current_area b = Some a" "0 < n" "next_free_frame b + n < 2 ^ 64"
    and "next_free_frame b < kernel_start b" "kernel_start b \<le> kernel_end b"
    and "kernel_end b < next_free_frame b + (n - 1)" "next_free_frame b + (n - 1) \<le> area_last a"
  shows "\<exists>b'. bump_allocate b n = Some (b', Some (next_free_frame b)) \<and>
    {kernel_start b .. kernel_end b} \<subseteq> frange (next_free_frame b, n)"
proof -
  have u: "uadd (next_free_frame b) (n - 1) = next_free_frame b + (n - 1)" using assms by simp
  have "bump_allocate b n =
      Some (b\<lparr>next_free_frame := uadd (next_free_frame b) n\<rparr>, Some (next_free_frame b))"
    using assms by (subst bump_allocate_unfold) (simp add: u in_kernel_def)
  then show ?thesis using assms by (auto simp: frange_def)
qed

theorem bump_hands_out_kernel_witness:
  "\<exists>b'. bump_allocate (demo_bump 256) 8 = Some (b', Some 256) \<and> {258..259} \<subseteq> frange (256, 8)"
  using bump_hands_out_kernel [of "demo_bump 256" demo_area 8] by (simp add: demo_bump_def)

end
