(* ===== verification/Consts.thy ===== *)
theory Consts
  imports Prelude
begin

text \<open>
  The layout of the address space, kernel/src/consts.rs: one slot of the top-level page table per
  region.  The constants are computed as the code computes them, with wrap-around.
\<close>

definition PML4_SIZE :: "64 word" where "PML4_SIZE = 0x0000008000000000"
definition PML4_MASK :: "64 word" where "PML4_MASK = 0x0000FF8000000000"

definition RECURSIVE_PAGE_OFFSET :: "64 word" where "RECURSIVE_PAGE_OFFSET = - PML4_SIZE"
definition RECURSIVE_PAGE_PML4 :: nat where
  "RECURSIVE_PAGE_PML4 = unat ((RECURSIVE_PAGE_OFFSET AND PML4_MASK) div PML4_SIZE)"

definition KERNEL_OFFSET :: "64 word" where "KERNEL_OFFSET = RECURSIVE_PAGE_OFFSET - PML4_SIZE"
definition KERNEL_PML4 :: nat where "KERNEL_PML4 = unat ((KERNEL_OFFSET AND PML4_MASK) div PML4_SIZE)"

definition KERNEL_HEAP_OFFSET :: "64 word" where "KERNEL_HEAP_OFFSET = KERNEL_OFFSET - PML4_SIZE"
definition KERNEL_HEAP_PML4 :: nat where
  "KERNEL_HEAP_PML4 = unat ((KERNEL_HEAP_OFFSET AND PML4_MASK) div PML4_SIZE)"
definition KERNEL_HEAP_SIZE :: "64 word" where "KERNEL_HEAP_SIZE = 1 * 1024 * 1024"

definition KERNEL_VALLOC_OFFSET :: "64 word" where "KERNEL_VALLOC_OFFSET = KERNEL_HEAP_OFFSET - PML4_SIZE"
definition KERNEL_VALLOC_PML4 :: nat where
  "KERNEL_VALLOC_PML4 = unat ((KERNEL_VALLOC_OFFSET AND PML4_MASK) div PML4_SIZE)"
definition KERNEL_VALLOC_SIZE :: "64 word" where "KERNEL_VALLOC_SIZE = PML4_SIZE"

definition KERNEL_PERCPU_OFFSET :: "64 word" where "KERNEL_PERCPU_OFFSET = KERNEL_VALLOC_OFFSET - PML4_SIZE"
definition KERNEL_PERCPU_PML4 :: nat where
  "KERNEL_PERCPU_PML4 = unat ((KERNEL_PERCPU_OFFSET AND PML4_MASK) div PML4_SIZE)"
definition KERNEL_PERCPU_SIZE :: "64 word" where "KERNEL_PERCPU_SIZE = 64 * 1024"

definition USER_OFFSET :: "64 word" where "USER_OFFSET = 0"
definition USER_PML4 :: nat where "USER_PML4 = unat ((USER_OFFSET AND PML4_MASK) div PML4_SIZE)"
definition USER_ARG_OFFSET :: "64 word" where "USER_ARG_OFFSET = USER_OFFSET + PML4_SIZE div 2"

definition USER_HEAP_OFFSET :: "64 word" where "USER_HEAP_OFFSET = USER_OFFSET + PML4_SIZE"
definition USER_HEAP_PML4 :: nat where
  "USER_HEAP_PML4 = unat ((USER_HEAP_OFFSET AND PML4_MASK) div PML4_SIZE)"

definition USER_GRANT_OFFSET :: "64 word" where "USER_GRANT_OFFSET = USER_HEAP_OFFSET + PML4_SIZE"
definition USER_GRANT_PML4 :: nat where
  "USER_GRANT_PML4 = unat ((USER_GRANT_OFFSET AND PML4_MASK) div PML4_SIZE)"

definition USER_STACK_OFFSET :: "64 word" where "USER_STACK_OFFSET = USER_GRANT_OFFSET + PML4_SIZE"
definition USER_STACK_PML4 :: nat where
  "USER_STACK_PML4 = unat ((USER_STACK_OFFSET AND PML4_MASK) div PML4_SIZE)"
definition USER_STACK_SIZE :: "64 word" where "USER_STACK_SIZE = 1024 * 1024"

definition USER_TMP_OFFSET :: "64 word" where "USER_TMP_OFFSET = USER_STACK_OFFSET + PML4_SIZE"
definition USER_TMP_PML4 :: nat where "USER_TMP_PML4 = unat ((USER_TMP_OFFSET AND PML4_MASK) div PML4_SIZE)"

definition USER_TMP_HEAP_OFFSET :: "64 word" where "USER_TMP_HEAP_OFFSET = USER_TMP_OFFSET + PML4_SIZE"
definition USER_TMP_HEAP_PML4 :: nat where
  "USER_TMP_HEAP_PML4 = unat ((USER_TMP_HEAP_OFFSET AND PML4_MASK) div PML4_SIZE)"

definition USER_TMP_GRANT_OFFSET :: "64 word" where "USER_TMP_GRANT_OFFSET = USER_TMP_HEAP_OFFSET + PML4_SIZE"
definition USER_TMP_GRANT_PML4 :: nat where
  "USER_TMP_GRANT_PML4 = unat ((USER_TMP_GRANT_OFFSET AND PML4_MASK) div PML4_SIZE)"

definition USER_TMP_STACK_OFFSET :: "64 word" where "USER_TMP_STACK_OFFSET = USER_TMP_GRANT_OFFSET + PML4_SIZE"
definition USER_TMP_STACK_PML4 :: nat where
  "USER_TMP_STACK_PML4 = unat ((USER_TMP_STACK_OFFSET AND PML4_MASK) div PML4_SIZE)"

definition USER_TMP_MISC_OFFSET :: "64 word" where "USER_TMP_MISC_OFFSET = USER_TMP_STACK_OFFSET + PML4_SIZE"
definition USER_TMP_MISC_PML4 :: nat where
  "USER_TMP_MISC_PML4 = unat ((USER_TMP_MISC_OFFSET AND PML4_MASK) div PML4_SIZE)"

lemmas offsets = RECURSIVE_PAGE_OFFSET_def KERNEL_OFFSET_def KERNEL_HEAP_OFFSET_def KERNEL_VALLOC_OFFSET_def
  KERNEL_PERCPU_OFFSET_def USER_OFFSET_def USER_ARG_OFFSET_def USER_HEAP_OFFSET_def USER_GRANT_OFFSET_def
  USER_STACK_OFFSET_def USER_TMP_OFFSET_def USER_TMP_HEAP_OFFSET_def USER_TMP_GRANT_OFFSET_def
  USER_TMP_STACK_OFFSET_def USER_TMP_MISC_OFFSET_def PML4_SIZE_def

lemmas pml4_slots = RECURSIVE_PAGE_PML4_def KERNEL_PML4_def KERNEL_HEAP_PML4_def KERNEL_VALLOC_PML4_def
  KERNEL_PERCPU_PML4_def USER_PML4_def USER_HEAP_PML4_def USER_GRANT_PML4_def USER_STACK_PML4_def
  USER_TMP_PML4_def USER_TMP_HEAP_PML4_def USER_TMP_GRANT_PML4_def USER_TMP_STACK_PML4_def
  USER_TMP_MISC_PML4_def PML4_MASK_def

lemma slot_values:
  "RECURSIVE_PAGE_PML4 = 511" "KERNEL_PML4 = 510" "KERNEL_HEAP_PML4 = 509" "KERNEL_VALLOC_PML4 = 508"
  "KERNEL_PERCPU_PML4 = 507" "USER_PML4 = 0" "USER_HEAP_PML4 = 1" "USER_GRANT_PML4 = 2" "USER_STACK_PML4 = 3"
  "USER_TMP_PML4 = 4" "USER_TMP_HEAP_PML4 = 5" "USER_TMP_GRANT_PML4 = 6" "USER_TMP_STACK_PML4 = 7"
  "USER_TMP_MISC_PML4 = 8"
  unfolding pml4_slots offsets by simp_all

lemma user_offsets:
  "unat USER_OFFSET = 0" "unat USER_ARG_OFFSET = 0x4000000000" "unat USER_HEAP_OFFSET = 0x8000000000"
  "unat USER_GRANT_OFFSET = 0x10000000000" "unat USER_STACK_OFFSET = 0x18000000000"
  "unat USER_TMP_OFFSET = 0x20000000000"
  unfolding offsets by simp_all

end
