(* ===== verification/Paging.thy ===== *)
theory Paging
  imports Frames Consts
begin

text \<open>
  The page tables of kernel/src/arch/x86_64/paging: entries at their 64 bits, tables with the entry
  counter that is kept in the first entry, and the mapper over four levels.

  Physical memory is a function from table frames to their 512 entries.  The code reaches a table
  through the recursive slot of the top-level table; following the frame that an entry points to is
  the same walk, which \<open>next_table_address\<close> and \<open>mmu_frame\<close> make precise.  The frame allocator is a
  pair of functions, as in the trait the code uses.
\<close>

subsection \<open>Entries\<close>

type_synonym pte = "64 word"
type_synonym entry_flags = "64 word"

definition PRESENT :: entry_flags where "PRESENT = 1"
definition WRITABLE :: entry_flags where "WRITABLE = push_bit 1 1"
definition USER_ACCESSIBLE :: entry_flags where "USER_ACCESSIBLE = push_bit 2 1"
definition WRITE_THROUGH :: entry_flags where "WRITE_THROUGH = push_bit 3 1"
definition NO_CACHE :: entry_flags where "NO_CACHE = push_bit 4 1"
definition ACCESSED :: entry_flags where "ACCESSED = push_bit 5 1"
definition DIRTY :: entry_flags where "DIRTY = push_bit 6 1"
definition HUGE_PAGE :: entry_flags where "HUGE_PAGE = push_bit 7 1"
definition GLOBAL :: entry_flags where "GLOBAL = push_bit 8 1"
definition NO_EXECUTE :: entry_flags where "NO_EXECUTE = push_bit 63 1"

definition all_flags :: entry_flags where
  "all_flags = PRESENT OR WRITABLE OR USER_ACCESSIBLE OR WRITE_THROUGH OR NO_CACHE OR ACCESSED OR
    DIRTY OR HUGE_PAGE OR GLOBAL OR NO_EXECUTE"

definition flags_contains :: "entry_flags \<Rightarrow> entry_flags \<Rightarrow> bool" where
  "flags_contains fl f \<longleftrightarrow> fl AND f = f"

definition ADDRESS_MASK :: "64 word" where
  "ADDRESS_MASK = 0x000FFFFFFFFFF000"

definition COUNTER_MASK :: "64 word" where
  "COUNTER_MASK = 0x3FF0000000000000"

definition entry_is_unused :: "pte \<Rightarrow> bool" where
  "entry_is_unused e \<longleftrightarrow> e = e AND COUNTER_MASK"

definition entry_set_unused :: "pte \<Rightarrow> pte" where
  "entry_set_unused e = e AND COUNTER_MASK"

definition entry_address :: "pte \<Rightarrow> usize" where
  "entry_address e = unat (e AND ADDRESS_MASK)"

definition entry_flags_of :: "pte \<Rightarrow> entry_flags" where
  "entry_flags_of e = e AND all_flags"

definition pointed_frame :: "pte \<Rightarrow> nat option" where
  "pointed_frame e =
    (if flags_contains (entry_flags_of e) PRESENT then Some (containing_address (entry_address e))
     else None)"

definition entry_set :: "pte \<Rightarrow> nat \<Rightarrow> entry_flags \<Rightarrow> pte" where
  "entry_set e frame fl = of_nat (frame_start_address frame) OR fl OR (e AND COUNTER_MASK)"

definition counter_bits :: "pte \<Rightarrow> 64 word" where
  "counter_bits e = drop_bit 52 (e AND COUNTER_MASK)"

definition set_counter_bits :: "pte \<Rightarrow> 64 word \<Rightarrow> pte" where
  "set_counter_bits e count = (e AND NOT COUNTER_MASK) OR push_bit 52 count"

subsection \<open>Tables\<close>

type_synonym table = "pte list"

definition ENTRY_COUNT :: nat where
  "ENTRY_COUNT = 512"

definition zero_table :: table where
  "zero_table = replicate ENTRY_COUNT 0"

definition entry_count :: "table \<Rightarrow> 64 word" where
  "entry_count t = counter_bits (t ! 0)"

definition set_entry_count :: "table \<Rightarrow> 64 word \<Rightarrow> table" where
  "set_entry_count t count = t[0 := set_counter_bits (t ! 0) count]"

definition table_is_unused :: "table \<Rightarrow> bool" where
  "table_is_unused t \<longleftrightarrow> \<not> entry_count t > 0"

definition increment_entry_count :: "table \<Rightarrow> table" where
  "increment_entry_count t = set_entry_count t (entry_count t + 1)"

definition decrement_entry_count :: "table \<Rightarrow> table" where
  "decrement_entry_count t = set_entry_count t (entry_count t - 1)"

subsection \<open>Pages\<close>

definition page_start_address :: "nat \<Rightarrow> usize" where
  "page_start_address page = umul page PAGE_SIZE"

definition p4_index :: "nat \<Rightarrow> nat" where "p4_index page = page div 2 ^ 27 mod 512"
definition p3_index :: "nat \<Rightarrow> nat" where "p3_index page = page div 2 ^ 18 mod 512"
definition p2_index :: "nat \<Rightarrow> nat" where "p2_index page = page div 2 ^ 9 mod 512"
definition p1_index :: "nat \<Rightarrow> nat" where "p1_index page = page mod 512"

definition page_containing_address :: "usize \<Rightarrow> nat" where
  "page_containing_address address = address div PAGE_SIZE"

subsection \<open>The mapper\<close>

record 'a vm =
  vm_tables :: "nat \<Rightarrow> table"
  vm_p4 :: nat
  vm_alloc :: 'a

definition put_table :: "'a vm \<Rightarrow> nat \<Rightarrow> table \<Rightarrow> 'a vm" where
  "put_table m t tab = m\<lparr>vm_tables := (vm_tables m)(t := tab)\<rparr>"

definition next_table :: "'a vm \<Rightarrow> nat \<Rightarrow> nat \<Rightarrow> nat option" where
  "next_table m t i =
    (let fl = entry_flags_of (vm_tables m t ! i) in
     if flags_contains fl PRESENT \<and> \<not> flags_contains fl HUGE_PAGE
     then pointed_frame (vm_tables m t ! i) else None)"

type_synonym 'a alloc_fn = "'a \<Rightarrow> nat \<Rightarrow> ('a \<times> nat option) option"
type_synonym 'a dealloc_fn = "'a \<Rightarrow> nat \<Rightarrow> nat \<Rightarrow> 'a option"

definition allocate_frame :: "'a alloc_fn \<Rightarrow> 'a vm \<Rightarrow> ('a vm \<times> nat) rust" where
  "allocate_frame al m = do {
     (a, f) \<leftarrow> al (vm_alloc m) 1;
     f \<leftarrow> f;
     Some (m\<lparr>vm_alloc := a\<rparr>, f) }"

definition deallocate_frame :: "'a dealloc_fn \<Rightarrow> 'a vm \<Rightarrow> nat \<Rightarrow> 'a vm rust" where
  "deallocate_frame de m f = do {
     a \<leftarrow> de (vm_alloc m) f 1;
     Some (m\<lparr>vm_alloc := a\<rparr>) }"

definition next_table_create :: "'a alloc_fn \<Rightarrow> 'a vm \<Rightarrow> nat \<Rightarrow> nat \<Rightarrow> ('a vm \<times> nat) rust" where
  "next_table_create al m t i =
    (case next_table m t i of
       Some t' \<Rightarrow> Some (m, t')
     | None \<Rightarrow>
         if flags_contains (entry_flags_of (vm_tables m t ! i)) HUGE_PAGE then panic
         else do {
           (m, frame) \<leftarrow> allocate_frame al m;
           let tab = increment_entry_count (vm_tables m t);
           let tab = tab[i := entry_set (tab ! i) frame (PRESENT OR WRITABLE OR USER_ACCESSIBLE)];
           let m = put_table m t tab;
           t' \<leftarrow> next_table m t i;
           Some (put_table m t' zero_table, t') })"

definition map_to :: "'a alloc_fn \<Rightarrow> 'a vm \<Rightarrow> nat \<Rightarrow> nat \<Rightarrow> entry_flags \<Rightarrow> 'a vm rust" where
  "map_to al m page frame fl = do {
     (m, p3) \<leftarrow> next_table_create al m (vm_p4 m) (p4_index page);
     (m, p2) \<leftarrow> next_table_create al m p3 (p3_index page);
     (m, p1) \<leftarrow> next_table_create al m p2 (p2_index page);
     if \<not> entry_is_unused (vm_tables m p1 ! p1_index page) then panic
     else do {
       let tab = increment_entry_count (vm_tables m p1);
       Some (put_table m p1 (tab[p1_index page := entry_set (tab ! p1_index page) frame (fl OR PRESENT)])) } }"

definition vm_map :: "'a alloc_fn \<Rightarrow> 'a vm \<Rightarrow> nat \<Rightarrow> entry_flags \<Rightarrow> 'a vm rust" where
  "vm_map al m page fl = do {
     (m, frame) \<leftarrow> allocate_frame al m;
     map_to al m page frame fl }"

definition remap :: "'a vm \<Rightarrow> nat \<Rightarrow> entry_flags \<Rightarrow> 'a vm rust" where
  "remap m page fl = do {
     p3 \<leftarrow> next_table m (vm_p4 m) (p4_index page);
     p2 \<leftarrow> next_table m p3 (p3_index page);
     p1 \<leftarrow> next_table m p2 (p2_index page);
     frame \<leftarrow> pointed_frame (vm_tables m p1 ! p1_index page);
     Some (put_table m p1 ((vm_tables m p1)[p1_index page :=
             entry_set (vm_tables m p1 ! p1_index page) frame (fl OR PRESENT)])) }"

definition identity_map :: "'a alloc_fn \<Rightarrow> 'a vm \<Rightarrow> nat \<Rightarrow> entry_flags \<Rightarrow> 'a vm rust" where
  "identity_map al m frame fl =
    map_to al m (page_containing_address (frame_start_address frame)) frame fl"

text \<open>Clear entry \<open>i\<close> of table \<open>t\<close> and take it off the table's count.\<close>

definition clear_entry :: "'a vm \<Rightarrow> nat \<Rightarrow> nat \<Rightarrow> 'a vm" where
  "clear_entry m t i =
    (let tab = decrement_entry_count (vm_tables m t) in
     put_table m t (tab[i := entry_set_unused (tab ! i)]))"

text \<open>Free the table that entry \<open>i\<close> of \<open>t\<close> points to.\<close>

definition free_table :: "'a dealloc_fn \<Rightarrow> 'a vm \<Rightarrow> nat \<Rightarrow> nat \<Rightarrow> 'a vm rust" where
  "free_table de m t i = do {
     f \<leftarrow> pointed_frame (vm_tables m t ! i);
     deallocate_frame de (clear_entry m t i) f }"

definition unmap_inner :: "'a dealloc_fn \<Rightarrow> 'a vm \<Rightarrow> nat \<Rightarrow> bool \<Rightarrow> ('a vm \<times> nat) rust" where
  "unmap_inner de m page keep_parents = do {
     let p4 = vm_p4 m;
     p3 \<leftarrow> next_table m p4 (p4_index page);
     p2 \<leftarrow> next_table m p3 (p3_index page);
     p1 \<leftarrow> next_table m p2 (p2_index page);
     frame \<leftarrow> pointed_frame (vm_tables m p1 ! p1_index page);
     let m = clear_entry m p1 (p1_index page);
     if keep_parents \<or> \<not> table_is_unused (vm_tables m p1) then Some (m, frame)
     else do {
       m \<leftarrow> free_table de m p2 (p2_index page);
       if \<not> table_is_unused (vm_tables m p2) then Some (m, frame)
       else do {
         m \<leftarrow> free_table de m p3 (p3_index page);
         if \<not> table_is_unused (vm_tables m p3) then Some (m, frame)
         else do {
           m \<leftarrow> free_table de m p4 (p4_index page);
           Some (m, frame) } } } }"

definition unmap :: "'a dealloc_fn \<Rightarrow> 'a vm \<Rightarrow> nat \<Rightarrow> 'a vm rust" where
  "unmap de m page = do {
     (m, frame) \<leftarrow> unmap_inner de m page False;
     deallocate_frame de m frame }"

definition unmap_return :: "'a dealloc_fn \<Rightarrow> 'a vm \<Rightarrow> nat \<Rightarrow> bool \<Rightarrow> ('a vm \<times> nat) rust" where
  "unmap_return de m page keep_parents = unmap_inner de m page keep_parents"

definition translate_page :: "'a vm \<Rightarrow> nat \<Rightarrow> nat option" where
  "translate_page m page = do {
     p3 \<leftarrow> next_table m (vm_p4 m) (p4_index page);
     p2 \<leftarrow> next_table m p3 (p3_index page);
     p1 \<leftarrow> next_table m p2 (p2_index page);
     pointed_frame (vm_tables m p1 ! p1_index page) }"

definition translate_page_flags :: "'a vm \<Rightarrow> nat \<Rightarrow> entry_flags option" where
  "translate_page_flags m page = do {
     p3 \<leftarrow> next_table m (vm_p4 m) (p4_index page);
     p2 \<leftarrow> next_table m p3 (p3_index page);
     p1 \<leftarrow> next_table m p2 (p2_index page);
     Some (entry_flags_of (vm_tables m p1 ! p1_index page)) }"

definition translate :: "'a vm \<Rightarrow> usize \<Rightarrow> usize option" where
  "translate m address =
    (let offset = address mod PAGE_SIZE in
     map_option (\<lambda>frame. uadd (frame_start_address frame) offset)
       (translate_page m (page_containing_address address)))"

subsection \<open>Recursive mapping\<close>

definition P4_ADDRESS :: "64 word" where
  "P4_ADDRESS = 0xFFFFFFFFFFFFF000"

definition next_table_address :: "64 word \<Rightarrow> nat \<Rightarrow> 64 word" where
  "next_table_address table_address i = push_bit 9 table_address OR push_bit 12 (of_nat i)"

text \<open>The walk of the processor: the frame that backs the page of a virtual address.\<close>

definition va_index :: "nat \<Rightarrow> 64 word \<Rightarrow> nat" where
  "va_index level va = unat (take_bit 9 (drop_bit (12 + 9 * (level - 1)) va))"

definition mmu_frame :: "'a vm \<Rightarrow> 64 word \<Rightarrow> nat option" where
  "mmu_frame m va = do {
     p3 \<leftarrow> next_table m (vm_p4 m) (va_index 4 va);
     p2 \<leftarrow> next_table m p3 (va_index 3 va);
     p1 \<leftarrow> next_table m p2 (va_index 2 va);
     pointed_frame (vm_tables m p1 ! va_index 1 va) }"

subsection \<open>Temporary pages and inactive tables\<close>

definition temporary_map :: "'a alloc_fn \<Rightarrow> 'a vm \<Rightarrow> nat \<Rightarrow> nat \<Rightarrow> entry_flags \<Rightarrow> 'a vm rust" where
  "temporary_map al m page frame fl =
    (if translate_page m page \<noteq> None then panic else map_to al m page frame fl)"

definition temporary_unmap :: "'a dealloc_fn \<Rightarrow> 'a vm \<Rightarrow> nat \<Rightarrow> 'a vm rust" where
  "temporary_unmap de m page = map_option fst (unmap_return de m page True)"

text \<open>\<open>InactivePageTable::new\<close>: map the frame at the temporary page, clear the table behind it and
  set up its recursive slot through that page, and unmap the page again.\<close>

definition inactive_new :: "'a alloc_fn \<Rightarrow> 'a dealloc_fn \<Rightarrow> 'a vm \<Rightarrow> nat \<Rightarrow> nat \<Rightarrow> 'a vm rust" where
  "inactive_new al de m frame tmp = do {
     m \<leftarrow> temporary_map al m tmp frame (PRESENT OR WRITABLE OR NO_EXECUTE);
     t \<leftarrow> translate_page m tmp;
     let tab = zero_table;
     let m = put_table m t (tab[RECURSIVE_PAGE_PML4 :=
       entry_set (tab ! RECURSIVE_PAGE_PML4) frame (PRESENT OR WRITABLE OR NO_EXECUTE)]);
     temporary_unmap de m tmp }"

text \<open>\<open>ActivePageTable::with\<close>: while \<open>f\<close> runs, the recursive slot of the active top-level table
  points to the inactive one, so that the mapper walks the inactive tables; the slot is restored
  through the temporary page, which is mapped to the active top-level table.\<close>

definition set_recursive :: "'a vm \<Rightarrow> nat \<Rightarrow> nat \<Rightarrow> 'a vm" where
  "set_recursive m t frame = put_table m t ((vm_tables m t)[RECURSIVE_PAGE_PML4 :=
     entry_set (vm_tables m t ! RECURSIVE_PAGE_PML4) frame (PRESENT OR WRITABLE OR NO_EXECUTE)])"

definition with_table :: "'a alloc_fn \<Rightarrow> 'a dealloc_fn \<Rightarrow> 'a vm \<Rightarrow> nat \<Rightarrow> nat \<Rightarrow>
    ('a vm \<Rightarrow> 'a vm rust) \<Rightarrow> 'a vm rust" where
  "with_table al de m p4_frame tmp f = do {
     let backup = vm_p4 m;
     m \<leftarrow> temporary_map al m tmp backup (PRESENT OR WRITABLE OR NO_EXECUTE);
     p4_table \<leftarrow> translate_page m tmp;
     let m = set_recursive m (vm_p4 m) p4_frame;
     m \<leftarrow> f (m\<lparr>vm_p4 := p4_frame\<rparr>);
     let m = set_recursive (m\<lparr>vm_p4 := backup\<rparr>) p4_table backup;
     temporary_unmap de m tmp }"

end
