(* ===== verification/Paging_Entries.thy ===== *)
theory Paging_Entries
  imports Paging
begin

text \<open>
  The bit layout of page table entries: address, flags and counter live in disjoint bits, so that
  setting one leaves the others alone.
\<close>

definition flags_ok :: "entry_flags \<Rightarrow> bool" where
  "flags_ok fl \<longleftrightarrow> fl AND all_flags = fl"

lemma bit_word64_eq: "(x :: 64 word) = y \<longleftrightarrow> (\<forall>n < 64. bit x n \<longleftrightarrow> bit y n)"
  by (auto intro: bit_eqI simp: possible_bit_def)

lemma masks_unfold:
  "ADDRESS_MASK = push_bit 12 (mask 40)" "COUNTER_MASK = push_bit 52 (mask 10)"
  "all_flags = mask 9 OR push_bit 63 (mask (Suc 0))"
  by (simp_all add: ADDRESS_MASK_def COUNTER_MASK_def all_flags_def PRESENT_def WRITABLE_def
      USER_ACCESSIBLE_def WRITE_THROUGH_def NO_CACHE_def ACCESSED_def DIRTY_def HUGE_PAGE_def
      GLOBAL_def NO_EXECUTE_def mask_eq_exp_minus_1)

lemma bit_ADDRESS_MASK: "bit ADDRESS_MASK n \<longleftrightarrow> 12 \<le> n \<and> n < 52"
  unfolding masks_unfold by (auto simp: bit_push_bit_iff bit_mask_iff)

lemma bit_COUNTER_MASK: "bit COUNTER_MASK n \<longleftrightarrow> 52 \<le> n \<and> n < 62"
  unfolding masks_unfold by (auto simp: bit_push_bit_iff bit_mask_iff)

lemma bit_all_flags: "bit all_flags n \<longleftrightarrow> n < 9 \<or> n = 63"
  unfolding masks_unfold bit_or_iff bit_push_bit_iff bit_mask_iff by (auto simp: possible_bit_def)

lemma flags_unfold:
  "PRESENT = push_bit 0 (mask 1)" "HUGE_PAGE = push_bit 7 (mask 1)" "WRITABLE = push_bit 1 (mask 1)"
  "USER_ACCESSIBLE = push_bit 2 (mask 1)" "NO_EXECUTE = push_bit 63 (mask 1)"
  by (simp_all add: PRESENT_def WRITABLE_def USER_ACCESSIBLE_def HUGE_PAGE_def NO_EXECUTE_def
      mask_eq_exp_minus_1)

lemma bit_flag:
  "bit PRESENT n \<longleftrightarrow> n = 0" "bit HUGE_PAGE n \<longleftrightarrow> n = 7" "bit WRITABLE n \<longleftrightarrow> n = 1"
  "bit USER_ACCESSIBLE n \<longleftrightarrow> n = 2" "bit NO_EXECUTE n \<longleftrightarrow> n = 63"
  unfolding flags_unfold bit_push_bit_iff bit_mask_iff by (auto simp: possible_bit_def)

lemmas mask_bits = bit_ADDRESS_MASK bit_COUNTER_MASK bit_all_flags bit_flag

lemma contains_single:
  assumes "\<And>n. bit f n \<longleftrightarrow> n = k" "k < 64"
  shows "flags_contains e f \<longleftrightarrow> bit e k"
proof -
  have "flags_contains e f \<longleftrightarrow> (\<forall>n < 64. bit f n \<longrightarrow> bit e n)"
    unfolding flags_contains_def bit_word64_eq by (auto simp: bit_and_iff)
  then show ?thesis using assms by auto
qed

lemma entry_present: "flags_contains (entry_flags_of e) PRESENT \<longleftrightarrow> bit e 0"
  by (subst contains_single [of _ 0]) (auto simp: mask_bits entry_flags_of_def bit_and_iff)

lemma entry_huge: "flags_contains (entry_flags_of e) HUGE_PAGE \<longleftrightarrow> bit e 7"
  by (subst contains_single [of _ 7]) (auto simp: mask_bits entry_flags_of_def bit_and_iff)

lemma bit_frame_address:
  assumes "f < 2 ^ 40" "n < 64"
  shows "bit (of_nat (frame_start_address f) :: 64 word) n \<longleftrightarrow> 12 \<le> n \<and> bit f (n - 12)"
proof -
  have "frame_start_address f = push_bit 12 f"
    using assms(1) by (simp add: frame_start_address_def PAGE_SIZE_def push_bit_eq_mult)
  then show ?thesis using assms(2) by (simp add: bit_of_nat_iff bit_push_bit_iff possible_bit_def)
qed

lemma bit_nat_bound: "f < 2 ^ k \<Longrightarrow> bit (f :: nat) n \<Longrightarrow> n < k"
  by (metis bit_take_bit_iff take_bit_nat_eq_self)

lemma bit_entry_set:
  assumes "f < 2 ^ 40" "n < 64"
  shows "bit (entry_set e f fl) n \<longleftrightarrow>
    (12 \<le> n \<and> bit f (n - 12)) \<or> bit fl n \<or> (52 \<le> n \<and> n < 62 \<and> bit e n)"
  using assms by (auto simp: entry_set_def bit_or_iff bit_and_iff mask_bits bit_frame_address)

lemma entry_set_pointed:
  assumes "f < 2 ^ 40" "flags_ok fl" "bit fl 0"
  shows "pointed_frame (entry_set e f fl) = Some f"
proof -
  have fl: "bit fl n \<Longrightarrow> n < 9 \<or> n = 63" for n
    using assms(2) by (metis bit_and_iff bit_all_flags flags_ok_def)
  have "bit (entry_set e f fl AND ADDRESS_MASK) n \<longleftrightarrow> bit (of_nat (frame_start_address f) :: 64 word) n"
    if "n < 64" for n
    using that assms(1) fl [of n] bit_nat_bound [OF assms(1), of "n - 12"]
    by (auto simp: bit_and_iff mask_bits bit_entry_set bit_frame_address)
  then have "entry_set e f fl AND ADDRESS_MASK = of_nat (frame_start_address f)"
    by (intro bit_eqI) (simp add: possible_bit_def)
  moreover have "frame_start_address f = f * 4096" "f * 4096 < 2 ^ 64"
    using assms(1) by (simp_all add: frame_start_address_def PAGE_SIZE_def)
  ultimately have "entry_address (entry_set e f fl) = f * 4096"
    by (simp only: entry_address_def unat_of_nat) simp
  moreover have "bit (entry_set e f fl) 0" using assms by (simp add: bit_entry_set)
  ultimately show ?thesis
    by (simp add: pointed_frame_def entry_present containing_address_def PAGE_SIZE_def)
qed

lemma entry_set_flags:
  assumes "f < 2 ^ 40" "flags_ok fl"
  shows "entry_flags_of (entry_set e f fl) = fl"
proof (rule bit_eqI)
  fix n assume "possible_bit TYPE(64 word) n"
  then have n: "n < 64" by (simp add: possible_bit_def)
  have fl: "bit fl n \<longleftrightarrow> bit fl n \<and> (n < 9 \<or> n = 63)"
    using assms(2) by (metis bit_and_iff bit_all_flags flags_ok_def)
  then show "bit (entry_flags_of (entry_set e f fl)) n \<longleftrightarrow> bit fl n"
    using n assms(1) bit_nat_bound [OF assms(1), of "n - 12"]
    by (auto simp: entry_flags_of_def bit_and_iff mask_bits bit_entry_set)
qed

lemma pointed_frame_bound: "pointed_frame e = Some f \<Longrightarrow> f < 2 ^ 40"
proof -
  assume "pointed_frame e = Some f"
  then have f: "f = unat (e AND ADDRESS_MASK) div 4096"
    by (auto simp: pointed_frame_def entry_address_def containing_address_def PAGE_SIZE_def split: if_splits)
  have "e AND ADDRESS_MASK = take_bit 52 (e AND ADDRESS_MASK)"
    by (rule bit_eqI) (auto simp: bit_and_iff mask_bits bit_take_bit_iff)
  then have "unat (e AND ADDRESS_MASK) = take_bit 52 (unat (e AND ADDRESS_MASK))"
    by (metis unsigned_take_bit_eq)
  then have "unat (e AND ADDRESS_MASK) < 2 ^ 52" by (metis take_bit_nat_less_exp)
  then show ?thesis using f by simp
qed

subsection \<open>Counter updates leave the rest of the entry alone\<close>

definition low_eq :: "pte \<Rightarrow> pte \<Rightarrow> bool" where
  "low_eq e e' \<longleftrightarrow> e AND NOT COUNTER_MASK = e' AND NOT COUNTER_MASK"

lemma low_eq_bit: "low_eq e e' \<longleftrightarrow> (\<forall>n < 64. n < 52 \<or> n \<ge> 62 \<longrightarrow> (bit e n \<longleftrightarrow> bit e' n))"
  unfolding low_eq_def bit_word64_eq by (auto simp: bit_and_iff bit_not_iff mask_bits possible_bit_def)

lemma low_eq_address: "low_eq e e' \<Longrightarrow> entry_address e = entry_address e'"
proof -
  assume "low_eq e e'"
  then have "e AND ADDRESS_MASK = e' AND ADDRESS_MASK"
    by (intro bit_eqI) (auto simp: low_eq_bit bit_and_iff mask_bits possible_bit_def)
  then show ?thesis by (simp add: entry_address_def)
qed

lemma low_eq_flags: "low_eq e e' \<Longrightarrow> entry_flags_of e = entry_flags_of e'"
  unfolding entry_flags_of_def
  by (intro bit_eqI) (auto simp: low_eq_bit bit_and_iff mask_bits possible_bit_def)

lemma low_eq_pointed: "low_eq e e' \<Longrightarrow> pointed_frame e = pointed_frame e'"
  by (simp add: pointed_frame_def low_eq_address low_eq_flags)

lemma is_unused_bit: "entry_is_unused e \<longleftrightarrow> (\<forall>n < 64. n < 52 \<or> n \<ge> 62 \<longrightarrow> \<not> bit e n)"
  unfolding entry_is_unused_def bit_word64_eq by (auto simp: bit_and_iff mask_bits)

lemma low_eq_unused: "low_eq e e' \<Longrightarrow> entry_is_unused e = entry_is_unused e'"
  by (auto simp: low_eq_bit is_unused_bit)

lemma low_eq_refl [simp]: "low_eq e e"
  by (simp add: low_eq_def)

lemma word_bit_bound: "(c :: 64 word) < 2 ^ k \<Longrightarrow> k < 64 \<Longrightarrow> bit c n \<Longrightarrow> n < k"
proof -
  assume "c < 2 ^ k" "k < 64" "bit c n"
  then have "unat c < 2 ^ k" by (simp add: word_less_nat_alt unat_exp64)
  moreover have "bit (unat c) n" using \<open>bit c n\<close> by (simp add: bit_unsigned_iff)
  ultimately show ?thesis by (rule bit_nat_bound)
qed

lemma set_counter_bit:
  "c < 2 ^ 10 \<Longrightarrow> n < 64 \<Longrightarrow>
    bit (set_counter_bits e c) n \<longleftrightarrow> (if 52 \<le> n \<and> n < 62 then bit c (n - 52) else bit e n)"
  using word_bit_bound [of c 10 "n - 52"]
  by (auto simp: set_counter_bits_def bit_or_iff bit_and_iff bit_not_iff mask_bits bit_push_bit_iff possible_bit_def)

lemma set_counter_low [simp]: "c < 2 ^ 10 \<Longrightarrow> low_eq (set_counter_bits e c) e"
  by (auto simp: low_eq_bit set_counter_bit)

lemma counter_set_counter [simp]: "c < 2 ^ 10 \<Longrightarrow> counter_bits (set_counter_bits e c) = c"
  using word_bit_bound [of c 10]
  by (force simp: bit_word64_eq counter_bits_def bit_drop_bit_eq bit_and_iff mask_bits set_counter_bit)

lemma entry_set_counter: "f < 2 ^ 40 \<Longrightarrow> flags_ok fl \<Longrightarrow> counter_bits (entry_set e f fl) = counter_bits e"
proof -
  assume f: "f < 2 ^ 40" and fl: "flags_ok fl"
  have "bit fl n \<Longrightarrow> n < 9 \<or> n = 63" for n
    using fl by (metis bit_and_iff bit_all_flags flags_ok_def)
  then have "bit (entry_set e f fl AND COUNTER_MASK) n \<longleftrightarrow> bit (e AND COUNTER_MASK) n" if "n < 64" for n
    using that f bit_nat_bound [OF f, of "n - 12"]
    by (fastforce simp: bit_and_iff mask_bits bit_entry_set)
  then have "entry_set e f fl AND COUNTER_MASK = e AND COUNTER_MASK" by (simp only: bit_word64_eq) blast
  then show ?thesis by (simp only: counter_bits_def)
qed

lemma set_unused_is_unused [simp]: "entry_is_unused (entry_set_unused e)"
  by (simp add: entry_is_unused_def entry_set_unused_def and.assoc)

lemma set_unused_counter [simp]: "counter_bits (entry_set_unused e) = counter_bits e"
  by (simp add: counter_bits_def entry_set_unused_def and.assoc)

lemma unused_pointed: "entry_is_unused e \<Longrightarrow> pointed_frame e = None"
  by (simp add: pointed_frame_def entry_present is_unused_bit)

end
