(* ===== verification/Paging_Map.thy ===== *)
theory Paging_Map
  imports Paging_Entries Frame_Alloc
begin

text \<open>
  The mapper implements a finite map from virtual pages to frames and flags.  Tables are reached by
  paths of indices from the top-level table; the invariant says that different paths lead to
  different tables, that every table counts its used entries, and that no table is available for
  allocation.
\<close>

subsection \<open>Paths\<close>

fun walk :: "'a vm \<Rightarrow> nat \<Rightarrow> nat list \<Rightarrow> nat option" where
  "walk m t [] = Some t"
| "walk m t (i # p) = (case next_table m t i of None \<Rightarrow> None | Some t' \<Rightarrow> walk m t' p)"

definition tbl :: "'a vm \<Rightarrow> nat list \<Rightarrow> nat option" where
  "tbl m p = walk m (vm_p4 m) p"

text \<open>The slots of a table: the top-level table's last one is the recursive mapping.\<close>

definition slots :: "nat list \<Rightarrow> nat set" where
  "slots p = (if p = [] then {..<511} else {..<512})"

definition ok_path :: "nat list \<Rightarrow> bool" where
  "ok_path p \<longleftrightarrow> length p \<le> 3 \<and> (\<forall>i \<in> set p. i < 512) \<and> (p \<noteq> [] \<longrightarrow> hd p < 511)"

definition used :: "table \<Rightarrow> nat set \<Rightarrow> nat" where
  "used tab S = card {i \<in> S. \<not> entry_is_unused (tab ! i)}"

definition table_ok :: "nat set \<Rightarrow> table \<Rightarrow> bool" where
  "table_ok S tab \<longleftrightarrow> length tab = 512 \<and> unat (entry_count tab) = used tab S \<and>
    (\<forall>i \<in> S. entry_is_unused (tab ! i) \<or> bit (tab ! i) 0)"

definition pt_ok :: "nat \<Rightarrow> nat set \<Rightarrow> 'a vm \<Rightarrow> bool" where
  "pt_ok limit A m \<longleftrightarrow>
    (\<forall>p t. ok_path p \<longrightarrow> tbl m p = Some t \<longrightarrow>
       table_ok (slots p) (vm_tables m t) \<and> t \<notin> A \<and> (p \<noteq> [] \<longrightarrow> t < limit) \<and>
       (\<forall>q. ok_path q \<longrightarrow> tbl m q = Some t \<longrightarrow> q = p))"

lemma pt_okD:
  assumes "pt_ok limit A m" "ok_path p" "tbl m p = Some t"
  shows "table_ok (slots p) (vm_tables m t)" "t \<notin> A" "p \<noteq> [] \<Longrightarrow> t < limit"
    "ok_path q \<Longrightarrow> tbl m q = Some t \<Longrightarrow> q = p"
  using assms unfolding pt_ok_def by blast+

lemma walk_append: "walk m t (p @ q) = (case walk m t p of None \<Rightarrow> None | Some s \<Rightarrow> walk m s q)"
  by (induction p arbitrary: t) (auto split: option.splits)

lemma tbl_Nil [simp]: "tbl m [] = Some (vm_p4 m)"
  by (simp add: tbl_def)

lemma tbl_snoc: "tbl m (p @ [i]) = (case tbl m p of None \<Rightarrow> None | Some t \<Rightarrow> next_table m t i)"
  by (auto simp: tbl_def walk_append split: option.splits)

lemma tbl_append_None: "tbl m p = None \<Longrightarrow> tbl m (p @ q) = None"
  by (simp add: tbl_def walk_append)

lemma ok_path_snoc: "ok_path (p @ [i]) \<longleftrightarrow> ok_path p \<and> length p < 3 \<and> i \<in> slots p"
  by (cases p) (auto simp: ok_path_def slots_def)

lemma ok_path_Nil [simp]: "ok_path []"
  by (simp add: ok_path_def)

lemma slots_less: "i \<in> slots p \<Longrightarrow> i < 512"
  by (simp add: slots_def split: if_splits)

lemma finite_slots [simp]: "finite (slots p)"
  by (simp add: slots_def)

lemma used_le: "used tab (slots p) \<le> 512"
proof -
  have "{i \<in> slots p. \<not> entry_is_unused (tab ! i)} \<subseteq> {..<512}" by (auto dest: slots_less)
  from card_mono [OF _ this] show ?thesis by (simp add: used_def)
qed

subsection \<open>Table steps\<close>

text \<open>The entries \<open>j \<noteq> i\<close> keep everything but the counter.\<close>

definition same_but :: "nat \<Rightarrow> table \<Rightarrow> table \<Rightarrow> bool" where
  "same_but i tab tab' \<longleftrightarrow> length tab' = length tab \<and>
    (\<forall>j < length tab. j \<noteq> i \<longrightarrow> low_eq (tab' ! j) (tab ! j))"

lemma next_table_low:
  assumes "low_eq (vm_tables m' t ! i) (vm_tables m t ! i)"
  shows "next_table m' t i = next_table m t i"
  using low_eq_pointed [OF assms] low_eq_flags [OF assms] by (simp add: next_table_def Let_def)

lemma set_count_same:
  assumes "c < 2 ^ 10" "length tab = 512"
  shows "length (set_entry_count tab c) = 512" "entry_count (set_entry_count tab c) = c"
    "j < 512 \<Longrightarrow> low_eq (set_entry_count tab c ! j) (tab ! j)"
  using assms by (auto simp: set_entry_count_def entry_count_def nth_list_update)

lemma update_entry_count:
  assumes "length tab = 512" "counter_bits e = counter_bits (tab ! i)"
  shows "entry_count (tab[i := e]) = entry_count tab"
  using assms by (cases "i = 0") (auto simp: entry_count_def)

lemma same_but_unused:
  assumes "same_but i tab tab'" "length tab = 512" "j \<in> slots p" "j \<noteq> i"
  shows "entry_is_unused (tab' ! j) = entry_is_unused (tab ! j)"
  using assms slots_less [OF assms(3)] by (intro low_eq_unused) (simp add: same_but_def)

lemma used_insert:
  assumes "same_but i tab tab'" "length tab = 512" "i \<in> slots p" "entry_is_unused (tab ! i)" "\<not> entry_is_unused (tab' ! i)"
  shows "used tab' (slots p) = Suc (used tab (slots p))"
proof -
  have "{j \<in> slots p. \<not> entry_is_unused (tab' ! j)} = insert i {j \<in> slots p. \<not> entry_is_unused (tab ! j)}"
    using assms same_but_unused [OF assms(1,2), of _ p] by auto
  then show ?thesis using assms(4) by (simp add: used_def)
qed

lemma used_delete:
  assumes "same_but i tab tab'" "length tab = 512" "i \<in> slots p" "\<not> entry_is_unused (tab ! i)" "entry_is_unused (tab' ! i)"
  shows "used tab (slots p) = Suc (used tab' (slots p))"
proof -
  have "{j \<in> slots p. \<not> entry_is_unused (tab ! j)} = insert i {j \<in> slots p. \<not> entry_is_unused (tab' ! j)}"
    using assms same_but_unused [OF assms(1,2), of _ p] by auto
  then show ?thesis using assms(5) by (simp add: used_def)
qed

lemma used_same:
  assumes "same_but i tab tab'" "length tab = 512" "entry_is_unused (tab' ! i) = entry_is_unused (tab ! i)"
  shows "used tab' (slots p) = used tab (slots p)"
proof -
  have "{j \<in> slots p. \<not> entry_is_unused (tab ! j)} = {j \<in> slots p. \<not> entry_is_unused (tab' ! j)}"
    using assms same_but_unused [OF assms(1,2), of _ p] by (intro Collect_cong) metis
  then show ?thesis by (simp add: used_def)
qed

lemma same_but_present:
  assumes "same_but i tab tab'" "length tab = 512" "\<forall>j \<in> slots p. entry_is_unused (tab ! j) \<or> bit (tab ! j) 0"
    "entry_is_unused (tab' ! i) \<or> bit (tab' ! i) 0"
  shows "\<forall>j \<in> slots p. entry_is_unused (tab' ! j) \<or> bit (tab' ! j) 0"
proof
  fix j assume j: "j \<in> slots p"
  show "entry_is_unused (tab' ! j) \<or> bit (tab' ! j) 0"
  proof (cases "j = i")
    case False
    then have "low_eq (tab' ! j) (tab ! j)" using assms(1,2) j slots_less by (auto simp: same_but_def)
    then show ?thesis using assms(3) j low_eq_unused by (auto simp: low_eq_bit)
  qed (use assms(4) in simp)
qed

subsection \<open>Replacing one entry\<close>

text \<open>
  One step of the mapper: table \<open>t\<close>, reached by \<open>p\<close>, changes at slot \<open>i\<close>; reachable tables other
  than \<open>t\<close> stay.  What hangs below slot \<open>i\<close> afterwards is nothing, or one empty table.
\<close>

definition fresh_below :: "nat \<Rightarrow> nat set \<Rightarrow> 'a vm \<Rightarrow> 'a vm \<Rightarrow> nat \<Rightarrow> nat \<Rightarrow> bool" where
  "fresh_below limit A m m' t i \<longleftrightarrow> next_table m' t i = None \<or>
    (\<exists>f. next_table m' t i = Some f \<and> vm_tables m' f = zero_table \<and> f < limit \<and> f \<notin> A \<and>
       (\<forall>q. ok_path q \<longrightarrow> tbl m q \<noteq> Some f))"

definition entry_step :: "'a vm \<Rightarrow> 'a vm \<Rightarrow> nat list \<Rightarrow> nat \<Rightarrow> nat \<Rightarrow> bool" where
  "entry_step m m' p t i \<longleftrightarrow> ok_path p \<and> tbl m p = Some t \<and> i \<in> slots p \<and> vm_p4 m' = vm_p4 m \<and>
    same_but i (vm_tables m t) (vm_tables m' t) \<and>
    (\<forall>q s. ok_path q \<longrightarrow> tbl m q = Some s \<longrightarrow> s \<noteq> t \<longrightarrow> vm_tables m' s = vm_tables m s)"

lemma step_tbl:
  assumes ok: "pt_ok limit A m" and st: "entry_step m m' p t i"
    and q: "ok_path q" "take (Suc (length p)) q \<noteq> p @ [i]"
  shows "tbl m' q = tbl m q"
  using q
proof (induction q rule: rev_induct)
  case Nil
  then show ?case using st by (simp add: entry_step_def)
next
  case (snoc j q)
  then have okq: "ok_path q" "j \<in> slots q" by (auto simp: ok_path_snoc)
  have "take (Suc (length p)) q \<noteq> p @ [i]"
  proof
    assume t: "take (Suc (length p)) q = p @ [i]"
    have "length (take (Suc (length p)) q) = Suc (length p)" by (subst t) simp
    then have "Suc (length p) \<le> length q" by simp
    then show False using t snoc.prems(2) by simp
  qed
  then have ih: "tbl m' q = tbl m q" using snoc.IH okq by simp
  show ?case
  proof (cases "tbl m q")
    case (Some s)
    have "next_table m' s j = next_table m s j"
    proof (cases "s = t")
      case True
      then have "q = p" using pt_okD(4) [OF ok _ _ okq(1) Some] st by (auto simp: entry_step_def)
      then have "j \<noteq> i" using snoc.prems(2) by auto
      moreover have "length (vm_tables m t) = 512"
        using pt_okD(1) [OF ok okq(1) Some] True by (simp add: table_ok_def)
      ultimately show ?thesis
        using st True slots_less [OF okq(2)] by (auto simp: entry_step_def same_but_def intro: next_table_low)
    next
      case False
      then have "vm_tables m' s = vm_tables m s" using st okq Some by (simp add: entry_step_def)
      then show ?thesis by (simp add: next_table_def Let_def)
    qed
    then show ?thesis using ih Some by (simp add: tbl_snoc)
  qed (simp add: ih tbl_snoc)
qed

lemma zero_table_entry [simp]: "i < 512 \<Longrightarrow> zero_table ! i = 0" "length zero_table = 512"
  by (simp_all add: zero_table_def ENTRY_COUNT_def)

lemma zero_unused [simp]: "entry_is_unused 0"
  by (simp add: entry_is_unused_def)

lemma zero_table_ok: "table_ok (slots p) zero_table"
proof -
  have "used zero_table (slots p) = 0" by (auto simp: used_def dest: slots_less)
  then show ?thesis
    by (auto simp: table_ok_def entry_count_def counter_bits_def dest: slots_less)
qed

lemma next_table_unused: "entry_is_unused (vm_tables m t ! i) \<Longrightarrow> next_table m t i = None"
  by (simp add: next_table_def Let_def unused_pointed)

text \<open>The paths below the changed slot.\<close>

lemma step_below:
  assumes ok: "pt_ok limit A m" and st: "entry_step m m' p t i" and q: "ok_path (p @ i # q)"
    and fr: "fresh_below limit A m m' t i"
  shows "tbl m' (p @ i # q) = (if q = [] then next_table m' t i else None)"
proof -
  have okp: "ok_path p" "tbl m p = Some t" using st by (auto simp: entry_step_def)
  have "tbl m' p = Some t" using step_tbl [OF ok st okp(1)] okp by simp
  then have eq: "tbl m' (p @ i # q) = (case next_table m' t i of None \<Rightarrow> None | Some f \<Rightarrow> walk m' f q)"
    by (simp add: tbl_def walk_append)
  show ?thesis
  proof (cases q)
    case Nil
    then show ?thesis using eq by (simp split: option.splits)
  next
    case (Cons j r)
    have "j < 512" using q Cons by (simp add: ok_path_def)
    then have "vm_tables m' f = zero_table \<Longrightarrow> next_table m' f j = None" for f
      by (simp add: next_table_unused)
    then show ?thesis using fr Cons eq by (auto simp: fresh_below_def split: option.splits)
  qed
qed

lemma path_cases:
  assumes "take (Suc (length p)) q = p @ [i]"
  obtains r where "q = p @ i # r"
  using assms append_take_drop_id [of "Suc (length p)" q] by (metis append.assoc append_Cons append_Nil)

lemma step_tables:
  assumes ok: "pt_ok limit A m" and st: "entry_step m m' p t i"
    and fr: "length p < 3 \<longrightarrow> fresh_below limit A m m' t i"
    and q: "ok_path q" "tbl m' q = Some s"
  shows "tbl m q = Some s \<and> take (Suc (length p)) q \<noteq> p @ [i] \<or>
    q = p @ [i] \<and> vm_tables m' s = zero_table \<and> s < limit \<and> s \<notin> A \<and> (\<forall>q. ok_path q \<longrightarrow> tbl m q \<noteq> Some s)"
proof (cases "take (Suc (length p)) q = p @ [i]")
  case True
  then obtain r where r: "q = p @ i # r" by (rule path_cases)
  then have "length p < 3" using q(1) by (simp add: ok_path_def)
  with fr have fr': "fresh_below limit A m m' t i" by simp
  have "tbl m' q = (if r = [] then next_table m' t i else None)"
    using step_below [OF ok st _ fr'] q(1) r by simp
  then show ?thesis using q(2) r fr' by (auto simp: fresh_below_def split: if_splits)
next
  case False
  then show ?thesis using step_tbl [OF ok st q(1)] q(2) by simp
qed

lemma pt_update:
  assumes ok: "pt_ok limit A m" and st: "entry_step m m' p t i"
    and tab: "table_ok (slots p) (vm_tables m' t)"
    and fr: "length p < 3 \<longrightarrow> fresh_below limit A m m' t i"
  shows "pt_ok limit A m'"
proof -
  have okp: "ok_path p" "tbl m p = Some t" using st by (auto simp: entry_step_def)
  have "table_ok (slots q) (vm_tables m' s) \<and> s \<notin> A \<and> (q \<noteq> [] \<longrightarrow> s < limit)"
    if q: "ok_path q" "tbl m' q = Some s" for q s
    using step_tables [OF ok st fr q]
  proof (elim disjE conjE)
    assume old: "tbl m q = Some s"
    show ?thesis
    proof (cases "s = t")
      case True
      then have "q = p" using pt_okD(4) [OF ok okp q(1)] old by simp
      then show ?thesis using tab pt_okD [OF ok q(1) old] True by simp
    next
      case False
      then have "vm_tables m' s = vm_tables m s" using st q(1) old by (simp add: entry_step_def)
      then show ?thesis using pt_okD [OF ok q(1) old] by simp
    qed
  qed (use zero_table_ok in auto)
  moreover have "q = r" if q: "ok_path q" "tbl m' q = Some s" and r: "ok_path r" "tbl m' r = Some s" for q r s
    using step_tables [OF ok st fr q] step_tables [OF ok st fr r] pt_okD(4) [OF ok r(1) _ q(1), of s] q(1) r(1)
    by auto
  ultimately show ?thesis unfolding pt_ok_def by blast
qed

subsection \<open>The finite map\<close>

definition leaf :: "'a vm \<Rightarrow> nat list \<Rightarrow> nat \<Rightarrow> (nat \<times> entry_flags) option" where
  "leaf m q d = (case tbl m q of None \<Rightarrow> None | Some t \<Rightarrow>
     map_option (\<lambda>f. (f, entry_flags_of (vm_tables m t ! d))) (pointed_frame (vm_tables m t ! d)))"

definition entry_view :: "pte \<Rightarrow> (nat \<times> entry_flags) option" where
  "entry_view e = map_option (\<lambda>f. (f, entry_flags_of e)) (pointed_frame e)"

lemma entry_view_low: "low_eq e e' \<Longrightarrow> entry_view e = entry_view e'"
  by (simp add: entry_view_def low_eq_pointed low_eq_flags)

lemma leaf_alt: "leaf m q d = (case tbl m q of None \<Rightarrow> None | Some t \<Rightarrow> entry_view (vm_tables m t ! d))"
  by (simp add: leaf_def entry_view_def split: option.splits)

text \<open>A step at a last-level table changes one leaf.\<close>

lemma step_leaf:
  assumes ok: "pt_ok limit A m" and st: "entry_step m m' p t i" and p: "length p = 3"
    and q: "ok_path q" "length q = 3" "d < 512"
  shows "leaf m' q d = (if q = p \<and> d = i then entry_view (vm_tables m' t ! i) else leaf m q d)"
proof -
  have okp: "ok_path p" "tbl m p = Some t" using st by (auto simp: entry_step_def)
  have eq: "tbl m' q = tbl m q"
    by (rule step_tbl [OF ok st q(1)]) (use p q in \<open>auto dest: arg_cong [of _ _ length]\<close>)
  show ?thesis
  proof (cases "tbl m q")
    case (Some s)
    show ?thesis
    proof (cases "s = t")
      case True
      then have "q = p" using pt_okD(4) [OF ok okp q(1)] Some by simp
      moreover have "length (vm_tables m t) = 512"
        using pt_okD(1) [OF ok okp] by (simp add: table_ok_def)
      ultimately show ?thesis
        using st True Some eq q(3) by (auto simp: leaf_alt entry_step_def same_but_def intro: entry_view_low)
    next
      case False
      then have "vm_tables m' s = vm_tables m s" using st q(1) Some by (simp add: entry_step_def)
      then show ?thesis using okp False Some eq by (auto simp: leaf_alt)
    qed
  qed (use okp eq in \<open>auto simp: leaf_alt\<close>)
qed

text \<open>A step above the last level changes no leaf when nothing is mapped below the slot, before
  and after.\<close>

definition empty_below :: "'a vm \<Rightarrow> nat \<Rightarrow> nat \<Rightarrow> bool" where
  "empty_below m t i \<longleftrightarrow> next_table m t i = None \<or>
    (\<exists>f. next_table m t i = Some f \<and> (\<forall>j < 512. entry_is_unused (vm_tables m f ! j)))"

lemma empty_below_leaf:
  assumes "tbl m p = Some t" "empty_below m t i" "\<forall>j \<in> set r. j < 512" "d < 512"
  shows "leaf m (p @ i # r) d = None"
proof -
  have "tbl m (p @ i # r) = (case next_table m t i of None \<Rightarrow> None | Some f \<Rightarrow> walk m f r)"
    using assms(1) by (simp add: tbl_def walk_append)
  then show ?thesis
    using assms(2-4)
    by (cases r) (auto simp: leaf_alt empty_below_def next_table_unused entry_view_def unused_pointed
        split: option.splits)
qed

lemma step_no_leaf:
  assumes ok: "pt_ok limit A m" and st: "entry_step m m' p t i" and p: "length p < 3"
    and em: "empty_below m t i" "empty_below m' t i"
    and q: "ok_path q" "length q = 3" "d < 512"
  shows "leaf m' q d = leaf m q d"
proof -
  have okp: "ok_path p" "tbl m p = Some t" using st by (auto simp: entry_step_def)
  have p': "tbl m' p = Some t" using step_tbl [OF ok st okp(1)] okp by simp
  show ?thesis
  proof (cases "take (Suc (length p)) q = p @ [i]")
    case True
    then obtain r where r: "q = p @ i # r" by (rule path_cases)
    then have "\<forall>j \<in> set r. j < 512" using q(1) by (simp add: ok_path_def)
    then show ?thesis using empty_below_leaf [OF okp(2) em(1)] empty_below_leaf [OF p' em(2)] q(3) r by simp
  next
    case False
    then have eq: "tbl m' q = tbl m q" using step_tbl [OF ok st q(1)] by simp
    have "vm_tables m' s = vm_tables m s" if "tbl m q = Some s" for s
    proof -
      have "s \<noteq> t" using pt_okD(4) [OF ok okp q(1)] that p q(2) by auto
      then show ?thesis using st q(1) that by (simp add: entry_step_def)
    qed
    then show ?thesis using eq by (auto simp: leaf_alt split: option.splits)
  qed
qed

end
