(* ===== verification/Paging_Mapper.thy ===== *)
theory Paging_Mapper
  imports Paging_Map
begin

text \<open>
  The operations of the mapper, over any frame allocator that keeps the laws of the interface:
  mapping, remapping and unmapping a page change the finite map at that page and nowhere else, and
  keep the page tables well formed.
\<close>

subsection \<open>Entries added to and taken off a table\<close>

lemma entry_set_used: "f < 2 ^ 40 \<Longrightarrow> bit fl 0 \<Longrightarrow> bit (entry_set e f fl) 0 \<and> \<not> entry_is_unused (entry_set e f fl)"
  by (auto simp: is_unused_bit bit_entry_set intro!: exI [of _ 0])

lemma present_used: "bit e 0 \<Longrightarrow> \<not> entry_is_unused e"
  by (auto simp: is_unused_bit intro!: exI [of _ 0])

lemma entry_set_view:
  "f < 2 ^ 40 \<Longrightarrow> flags_ok fl \<Longrightarrow> bit fl 0 \<Longrightarrow> entry_view (entry_set e f fl) = Some (f, fl)"
  by (simp add: entry_view_def entry_set_pointed entry_set_flags)

lemma small_count:
  assumes "unat (c :: 64 word) < 1024"
  shows "c < 2 ^ 10"
  using assms by (simp add: word_less_nat_alt)

lemma add_entry:
  assumes ok: "table_ok (slots p) tab" and i: "i \<in> slots p" and e: "entry_is_unused (tab ! i)"
    and fl: "f < 2 ^ 40" "flags_ok fl" "bit fl 0"
  defines "tab1 \<equiv> increment_entry_count tab"
  defines "tab' \<equiv> tab1[i := entry_set (tab1 ! i) f fl]"
  shows "same_but i tab tab'" "table_ok (slots p) tab'" "entry_view (tab' ! i) = Some (f, fl)"
proof -
  have len: "length tab = 512" and cnt: "unat (entry_count tab) = used tab (slots p)"
    and pr: "\<forall>j \<in> slots p. entry_is_unused (tab ! j) \<or> bit (tab ! j) 0"
    using ok by (auto simp: table_ok_def)
  have i512: "i < 512" using slots_less [OF i] .
  have u: "unat (entry_count tab + 1) = Suc (used tab (slots p))"
    using cnt used_le [of tab p] by (simp add: unat_add64)
  then have c: "entry_count tab + 1 < 2 ^ 10" using used_le [of tab p] by (intro small_count) simp
  note sc = set_count_same [OF c len, folded increment_entry_count_def, folded tab1_def]
  have len': "length tab' = 512" by (simp add: tab'_def sc)
  show sb: "same_but i tab tab'" using sc len by (simp add: same_but_def tab'_def)
  have ti: "tab' ! i = entry_set (tab1 ! i) f fl" using i512 sc by (simp add: tab'_def)
  show "entry_view (tab' ! i) = Some (f, fl)" using fl by (simp add: ti entry_set_view)
  have "entry_count tab' = entry_count tab + 1"
    using update_entry_count [OF sc(1) entry_set_counter [OF fl(1,2)]] sc(2) by (simp add: tab'_def)
  then show "table_ok (slots p) tab'"
    using len' u used_insert [OF sb len i e] same_but_present [OF sb len pr] entry_set_used [OF fl(1,3)]
    by (simp add: table_ok_def ti)
qed

lemma remove_entry:
  assumes ok: "table_ok (slots p) tab" and i: "i \<in> slots p" and e: "\<not> entry_is_unused (tab ! i)"
  defines "tab1 \<equiv> decrement_entry_count tab"
  defines "tab' \<equiv> tab1[i := entry_set_unused (tab1 ! i)]"
  shows "same_but i tab tab'" "table_ok (slots p) tab'" "entry_is_unused (tab' ! i)"
proof -
  have len: "length tab = 512" and cnt: "unat (entry_count tab) = used tab (slots p)"
    and pr: "\<forall>j \<in> slots p. entry_is_unused (tab ! j) \<or> bit (tab ! j) 0"
    using ok by (auto simp: table_ok_def)
  have i512: "i < 512" using slots_less [OF i] .
  have "i \<in> {j \<in> slots p. \<not> entry_is_unused (tab ! j)}" using i e by simp
  then have pos: "0 < used tab (slots p)" unfolding used_def by (subst card_gt_0_iff) auto
  have u: "unat (entry_count tab - 1) = used tab (slots p) - 1"
    using cnt pos by (simp add: unat_sub64)
  then have c: "entry_count tab - 1 < 2 ^ 10" using used_le [of tab p] by (intro small_count) simp
  note sc = set_count_same [OF c len, folded decrement_entry_count_def, folded tab1_def]
  have len': "length tab' = 512" by (simp add: tab'_def sc)
  show sb: "same_but i tab tab'" using sc len by (simp add: same_but_def tab'_def)
  show ti: "entry_is_unused (tab' ! i)" using i512 sc by (simp add: tab'_def)
  have "entry_count tab' = entry_count tab - 1"
    using update_entry_count [OF sc(1) set_unused_counter] sc(2) by (simp add: tab'_def)
  then show "table_ok (slots p) tab'"
    using len' u used_delete [OF sb len i e ti] same_but_present [OF sb len pr] ti
    by (simp add: table_ok_def)
qed

lemma replace_entry:
  assumes ok: "table_ok (slots p) tab" and i: "i \<in> slots p" and e: "bit (tab ! i) 0"
    and fl: "f < 2 ^ 40" "flags_ok fl" "bit fl 0"
  defines "tab' \<equiv> tab[i := entry_set (tab ! i) f fl]"
  shows "same_but i tab tab'" "table_ok (slots p) tab'" "entry_view (tab' ! i) = Some (f, fl)"
proof -
  have len: "length tab = 512" and cnt: "unat (entry_count tab) = used tab (slots p)"
    and pr: "\<forall>j \<in> slots p. entry_is_unused (tab ! j) \<or> bit (tab ! j) 0"
    using ok by (auto simp: table_ok_def)
  have ti: "tab' ! i = entry_set (tab ! i) f fl" using slots_less [OF i] len by (simp add: tab'_def)
  show sb: "same_but i tab tab'" by (simp add: same_but_def tab'_def)
  show "entry_view (tab' ! i) = Some (f, fl)" using fl by (simp add: ti entry_set_view)
  have "\<not> entry_is_unused (tab ! i)" using e by (rule present_used)
  then have "used tab' (slots p) = used tab (slots p)"
    using used_same [OF sb len] entry_set_used [OF fl(1,3)] ti by simp
  moreover have "entry_count tab' = entry_count tab"
    using update_entry_count [OF len entry_set_counter [OF fl(1,2)]] by (simp add: tab'_def)
  moreover have "length tab' = 512" using len by (simp add: tab'_def)
  ultimately show "table_ok (slots p) tab'"
    using cnt same_but_present [OF sb len pr] entry_set_used [OF fl(1,3)] by (simp add: table_ok_def ti)
qed

subsection \<open>Pages and paths\<close>

definition path_of :: "nat \<Rightarrow> nat list" where
  "path_of page = [p4_index page, p3_index page, p2_index page]"

lemma translate_page_tbl:
  "translate_page m page =
    (case tbl m (path_of page) of None \<Rightarrow> None | Some t \<Rightarrow> pointed_frame (vm_tables m t ! p1_index page))"
  by (simp add: translate_page_def tbl_def path_of_def split: option.splits bind_splits)

lemma path_of_mod: "path_of (page mod 2 ^ 36) = path_of page" "p1_index (page mod 2 ^ 36) = p1_index page"
proof -
  have sh: "page mod 2 ^ 36 div 2 ^ k mod 512 = page div 2 ^ k mod 512" if "k \<le> 27" for k
  proof -
    have "take_bit 9 (drop_bit k (take_bit 36 page)) = take_bit 9 (drop_bit k page)"
      using that by (simp add: drop_bit_take_bit min_absorb1)
    moreover have "(2 :: nat) ^ 9 = 512" by simp
    ultimately show ?thesis by (simp only: take_bit_eq_mod drop_bit_eq_div)
  qed
  have le: "(27 :: nat) \<le> 27" "(18 :: nat) \<le> 27" "(9 :: nat) \<le> 27" "(0 :: nat) \<le> 27" by simp_all
  show "path_of (page mod 2 ^ 36) = path_of page"
    unfolding path_of_def p4_index_def p3_index_def p2_index_def by (simp only: sh [OF le(1)] sh [OF le(2)] sh [OF le(3)])
  show "p1_index (page mod 2 ^ 36) = p1_index page"
    unfolding p1_index_def using sh [OF le(4)] by (simp only: power_0 div_by_1)
qed

lemma page_of_path: "page mod 2 ^ 36 =
  2 ^ 27 * p4_index page + (2 ^ 18 * p3_index page + (2 ^ 9 * p2_index page + p1_index page))"
proof -
  have e: "(2 :: nat) ^ 36 = 2 ^ 27 * 512" "(2 :: nat) ^ 27 = 2 ^ 18 * 512"
    "(2 :: nat) ^ 18 = 2 ^ 9 * 512" "(2 :: nat) ^ 9 = 512" by simp_all
  show ?thesis
    unfolding p4_index_def p3_index_def p2_index_def p1_index_def
    by (metis e mod_mult2_eq)
qed

lemma path_of_inj: "path_of a = path_of b \<Longrightarrow> p1_index a = p1_index b \<Longrightarrow> a mod 2 ^ 36 = b mod 2 ^ 36"
  by (simp only: page_of_path path_of_def list.inject)

lemma index_bound:
  "p4_index page < 512" "p3_index page < 512" "p2_index page < 512" "p1_index page < 512"
  by (simp_all add: p4_index_def p3_index_def p2_index_def p1_index_def)

lemma path_of_ok: "p4_index page \<noteq> 511 \<Longrightarrow> ok_path (path_of page)"
  using index_bound [of page] by (simp add: ok_path_def path_of_def)

lemma path_of_length [simp]: "length (path_of page) = 3"
  by (simp add: path_of_def)

text \<open>The finite map the tables stand for, from virtual page numbers (36 bits) outside the
  recursive slot to frames and flags.\<close>

definition mapping :: "'a vm \<Rightarrow> nat \<Rightarrow> (nat \<times> entry_flags) option" where
  "mapping m v = (if v < 2 ^ 36 \<and> p4_index v \<noteq> 511 then leaf m (path_of v) (p1_index v) else None)"

lemma translate_page_mapping:
  "p4_index page \<noteq> 511 \<Longrightarrow> translate_page m page = map_option fst (mapping m (page mod 2 ^ 36))"
  using path_of_mod [of page]
  by (simp add: mapping_def leaf_def translate_page_tbl path_of_def option.map_comp comp_def option.map_ident
      split: option.splits)

lemma mapping_eqI:
  assumes "\<And>q d. ok_path q \<Longrightarrow> length q = 3 \<Longrightarrow> d < 512 \<Longrightarrow> leaf m' q d = leaf m q d"
  shows "mapping m' = mapping m"
  by (rule ext) (simp add: mapping_def assms path_of_ok index_bound)

lemma mapping_updI:
  assumes page: "p4_index page \<noteq> 511"
    and "\<And>q d. ok_path q \<Longrightarrow> length q = 3 \<Longrightarrow> d < 512 \<Longrightarrow>
      leaf m' q d = (if q = path_of page \<and> d = p1_index page then v else leaf m q d)"
  shows "mapping m' = (mapping m)(page mod 2 ^ 36 := v)"
proof
  fix x
  have "path_of x = path_of page \<and> p1_index x = p1_index page \<longleftrightarrow> x = page mod 2 ^ 36" if "x < 2 ^ 36"
    using that path_of_inj [of x page] path_of_mod [of page] by auto
  moreover have "p4_index (page mod 2 ^ 36) \<noteq> 511" using page path_of_mod(1) [of page] by (simp add: path_of_def)
  ultimately show "mapping m' x = ((mapping m)(page mod 2 ^ 36 := v)) x"
    using path_of_mod [of page] path_of_ok [OF page]
    by (cases "x = page mod 2 ^ 36") (auto simp: mapping_def assms(2) path_of_ok index_bound)
qed

subsection \<open>Operations of the mapper\<close>

text \<open>The tables are well formed, and their frames are neither available nor in the set \<open>R\<close> of
  frames that belong to someone else.\<close>

definition vm_ok :: "nat \<Rightarrow> ('a \<Rightarrow> bool) \<Rightarrow> ('a \<Rightarrow> nat set) \<Rightarrow> nat set \<Rightarrow> 'a vm \<Rightarrow> bool" where
  "vm_ok limit good avail R m \<longleftrightarrow> good (vm_alloc m) \<and> pt_ok limit (avail (vm_alloc m) \<union> R) m \<and>
    avail (vm_alloc m) \<inter> R = {}"

text \<open>Two states agree on the table frames in \<open>R\<close>.\<close>

definition same_on :: "nat set \<Rightarrow> 'a vm \<Rightarrow> 'a vm \<Rightarrow> bool" where
  "same_on R m m' \<longleftrightarrow> vm_p4 m' = vm_p4 m \<and> (\<forall>f \<in> R. vm_tables m' f = vm_tables m f)"

lemma same_on_trans: "same_on R m m1 \<Longrightarrow> same_on R m1 m2 \<Longrightarrow> same_on R m m2"
  by (simp add: same_on_def)

lemma same_on_refl [simp]: "same_on R m m"
  by (simp add: same_on_def)

lemma same_on_p4: "same_on R m m' \<Longrightarrow> vm_p4 m' = vm_p4 m"
  by (simp add: same_on_def)

lemma reach_not_reserved:
  "vm_ok limit good avail R m \<Longrightarrow> ok_path p \<Longrightarrow> tbl m p = Some t \<Longrightarrow> t \<notin> R"
  using pt_okD(2) by (fastforce simp: vm_ok_def)

definition TABLE_FLAGS :: entry_flags where
  "TABLE_FLAGS = PRESENT OR WRITABLE OR USER_ACCESSIBLE"

lemma table_flags: "flags_ok TABLE_FLAGS" "bit TABLE_FLAGS 0" "\<not> bit TABLE_FLAGS 7"
  by (auto simp: flags_ok_def TABLE_FLAGS_def bit_word64_eq bit_and_iff bit_or_iff mask_bits)

lemma next_table_view: "next_table m t i =
  (case entry_view (vm_tables m t ! i) of None \<Rightarrow> None | Some (f, fl) \<Rightarrow> if bit fl 7 then None else Some f)"
proof -
  have "flags_contains (entry_flags_of e) HUGE_PAGE \<longleftrightarrow> bit (entry_flags_of e) 7" for e
    by (simp add: entry_huge) (simp add: entry_flags_of_def bit_and_iff mask_bits)
  then show ?thesis
    by (auto simp: next_table_def Let_def entry_view_def pointed_frame_def)
qed

lemma next_table_alloc [simp]: "next_table (m\<lparr>vm_alloc := a\<rparr>) t i = next_table m t i"
  by (simp add: next_table_view)

lemma tbl_alloc [simp]: "tbl (m\<lparr>vm_alloc := a\<rparr>) p = tbl m p"
proof -
  have "walk (m\<lparr>vm_alloc := a\<rparr>) t p = walk m t p" for t
    by (induction p arbitrary: t) (auto split: option.splits)
  then show ?thesis by (simp add: tbl_def)
qed

lemma leaf_alloc [simp]: "leaf (m\<lparr>vm_alloc := a\<rparr>) q d = leaf m q d"
  by (simp add: leaf_alt split: option.splits)

lemma pt_ok_alloc: "pt_ok limit A m \<Longrightarrow> A' \<subseteq> A \<Longrightarrow> pt_ok limit A' (m\<lparr>vm_alloc := a\<rparr>)"
  by (auto simp: pt_ok_def)

lemma put_table_simps [simp]:
  "vm_tables (put_table m t tab) = (vm_tables m)(t := tab)"
  "vm_p4 (put_table m t tab) = vm_p4 m" "vm_alloc (put_table m t tab) = vm_alloc m"
  by (simp_all add: put_table_def)

text \<open>The frame of a new table is zeroed and hung into slot \<open>i\<close> of \<open>t\<close>.\<close>

lemma grow_step:
  assumes ok: "pt_ok limit A m" "limit \<le> 2 ^ 40" and p: "ok_path (p @ [i])" "tbl m p = Some t"
    and e: "entry_is_unused (vm_tables m t ! i)"
    and f: "f < limit" "f \<notin> A" "\<forall>q. ok_path q \<longrightarrow> tbl m q \<noteq> Some f"
  defines "tab \<equiv> increment_entry_count (vm_tables m t)"
  defines "m1 \<equiv> put_table m t (tab[i := entry_set (tab ! i) f TABLE_FLAGS])"
  defines "m' \<equiv> put_table m1 f zero_table"
  shows "next_table m1 t i = Some f" "pt_ok limit A m'" "tbl m' (p @ [i]) = Some f"
    "\<forall>q d. ok_path q \<longrightarrow> length q = 3 \<longrightarrow> d < 512 \<longrightarrow> leaf m' q d = leaf m q d"
proof -
  have p': "ok_path p" "length p < 3" "i \<in> slots p" using p(1) by (auto simp: ok_path_snoc)
  have ft: "f \<noteq> t" using f(3) p'(1) p(2) by blast
  note ae = add_entry [OF pt_okD(1) [OF ok(1) p'(1) p(2)] p'(3) e, of f TABLE_FLAGS, folded tab_def]
  have f40: "f < 2 ^ 40" using f(1) ok(2) by simp
  have t': "vm_tables m' t = tab[i := entry_set (tab ! i) f TABLE_FLAGS]" using ft by (simp add: m'_def m1_def)
  have st: "entry_step m m' p t i"
    using p' p(2) ae(1) [OF f40] table_flags t' f(3) by (auto simp: entry_step_def m'_def m1_def)
  show n1: "next_table m1 t i = Some f"
    using ae(3) [OF f40] table_flags by (simp add: next_table_view m1_def)
  then have n': "next_table m' t i = Some f" using ft by (simp add: next_table_view m'_def)
  have fr: "fresh_below limit A m m' t i" using n' f by (simp add: fresh_below_def m'_def)
  show "pt_ok limit A m'"
    using pt_update [OF ok(1) st] ae(2) [OF f40] table_flags t' fr by simp
  show "tbl m' (p @ [i]) = Some f" using step_below [OF ok(1) st _ fr, of "[]"] p(1) n' by simp
  have "empty_below m t i" "empty_below m' t i"
    using next_table_unused [OF e] n' by (simp_all add: empty_below_def m'_def)
  then show "\<forall>q d. ok_path q \<longrightarrow> length q = 3 \<longrightarrow> d < 512 \<longrightarrow> leaf m' q d = leaf m q d"
    using step_no_leaf [OF ok(1) st p'(2)] by simp
qed

lemma tbl_path_of: "tbl m (path_of page) = do {
    p3 \<leftarrow> next_table m (vm_p4 m) (p4_index page);
    p2 \<leftarrow> next_table m p3 (p3_index page);
    next_table m p2 (p2_index page) }"
  by (simp add: tbl_def path_of_def split: option.splits bind_splits)

lemma mapping_at:
  assumes "p4_index page \<noteq> 511" "tbl m (path_of page) = Some t"
  shows "mapping m (page mod 2 ^ 36) = entry_view (vm_tables m t ! p1_index page)"
  using assms path_of_mod [of page] by (simp add: mapping_def leaf_alt path_of_def)

text \<open>A last-level entry is replaced.\<close>

lemma leaf_step:
  assumes ok: "pt_ok limit A m" and page: "p4_index page \<noteq> 511" and t: "tbl m (path_of page) = Some t"
    and sb: "same_but (p1_index page) (vm_tables m t) tab" and tab: "table_ok {..<512} tab"
  shows "pt_ok limit A (put_table m t tab)"
    "mapping (put_table m t tab) = (mapping m)(page mod 2 ^ 36 := entry_view (tab ! p1_index page))"
proof -
  have sl: "slots (path_of page) = {..<512}" by (simp add: slots_def path_of_def)
  have st: "entry_step m (put_table m t tab) (path_of page) t (p1_index page)"
    using path_of_ok [OF page] t sb sl index_bound(4) [of page] by (simp add: entry_step_def)
  show "pt_ok limit A (put_table m t tab)" using pt_update [OF ok st] tab sl by simp
  show "mapping (put_table m t tab) = (mapping m)(page mod 2 ^ 36 := entry_view (tab ! p1_index page))"
    using step_leaf [OF ok st] by (intro mapping_updI [OF page]) simp
qed

lemma table_unused_entries:
  assumes "table_ok S tab" "table_is_unused tab" "finite S" "i \<in> S"
  shows "entry_is_unused (tab ! i)"
proof -
  have "used tab S = 0" using assms(1,2) by (auto simp: table_ok_def table_is_unused_def word_greater_zero_iff)
  then show ?thesis using assms(3,4) by (auto simp: used_def)
qed

text \<open>An empty table is taken off the slot that points to it.\<close>

lemma clear_step:
  assumes ok: "pt_ok limit A m" and p: "ok_path (p @ [i])" "tbl m p = Some t" "tbl m (p @ [i]) = Some f"
    and un: "table_is_unused (vm_tables m f)"
  defines "m' \<equiv> clear_entry m t i"
  shows "pt_ok limit (insert f A) m'"
    "\<forall>q d. ok_path q \<longrightarrow> length q = 3 \<longrightarrow> d < 512 \<longrightarrow> leaf m' q d = leaf m q d"
    "\<And>q. ok_path q \<Longrightarrow> take (Suc (length p)) q \<noteq> p @ [i] \<Longrightarrow> tbl m' q = tbl m q"
proof -
  have p': "ok_path p" "length p < 3" "i \<in> slots p" using p(1) by (auto simp: ok_path_snoc)
  have nt: "next_table m t i = Some f" using p(2,3) by (simp add: tbl_snoc)
  then have "\<not> entry_is_unused (vm_tables m t ! i)" using next_table_unused by force
  note re = remove_entry [OF pt_okD(1) [OF ok p'(1) p(2)] p'(3) this]
  have t': "vm_tables m' t = (decrement_entry_count (vm_tables m t))[i :=
      entry_set_unused (decrement_entry_count (vm_tables m t) ! i)]" "vm_p4 m' = vm_p4 m"
    by (simp_all add: m'_def clear_entry_def Let_def)
  have st: "entry_step m m' p t i"
    using p' p(2) re(1) t' by (auto simp: entry_step_def m'_def clear_entry_def Let_def)
  have nt': "next_table m' t i = None" using re(3) t' by (simp add: next_table_unused)
  then have fr: "length p < 3 \<longrightarrow> fresh_below limit A m m' t i" by (simp add: fresh_below_def)
  show keep: "\<And>q. ok_path q \<Longrightarrow> take (Suc (length p)) q \<noteq> p @ [i] \<Longrightarrow> tbl m' q = tbl m q"
    by (rule step_tbl [OF ok st])
  have "tbl m' q \<noteq> Some f" if "ok_path q" for q
    using step_tables [OF ok st fr that, of f] pt_okD(4) [OF ok p(1,3) that] p(1,3) by auto
  moreover have "pt_ok limit A m'" using pt_update [OF ok st _ fr] re(2) t' by simp
  ultimately show "pt_ok limit (insert f A) m'" by (auto simp: pt_ok_def)
  have "slots (p @ [i]) = {..<512}" by (simp add: slots_def)
  then have "empty_below m t i"
    using nt table_unused_entries [OF pt_okD(1) [OF ok p(1,3)] un] by (simp add: empty_below_def)
  moreover have "empty_below m' t i" using nt' by (simp add: empty_below_def)
  ultimately show "\<forall>q d. ok_path q \<longrightarrow> length q = 3 \<longrightarrow> d < 512 \<longrightarrow> leaf m' q d = leaf m q d"
    using step_no_leaf [OF ok st p'(2)] by simp
qed

lemma or_present: "flags_ok fl \<Longrightarrow> flags_ok (fl OR PRESENT) \<and> bit (fl OR PRESENT) 0"
  by (auto simp: flags_ok_def bit_word64_eq bit_and_iff bit_or_iff mask_bits)

text \<open>The allocator hands out \<open>n\<close> more single frames.\<close>

fun supplies :: "'a alloc_fn \<Rightarrow> nat \<Rightarrow> 'a \<Rightarrow> bool" where
  "supplies al 0 s \<longleftrightarrow> True"
| "supplies al (Suc n) s \<longleftrightarrow> (\<exists>s' f. al s 1 = Some (s', Some f) \<and> supplies al n s')"

lemma supplies_less: "supplies al (Suc n) s \<Longrightarrow> supplies al n s"
proof (induction n arbitrary: s)
  case (Suc n)
  then obtain s' f where "al s 1 = Some (s', Some f)" "supplies al (Suc n) s'" by auto
  then show ?case using Suc.IH by auto
qed simp

text \<open>No huge page is in the way of the walk to a page.\<close>

definition no_huge :: "'a vm \<Rightarrow> nat \<Rightarrow> bool" where
  "no_huge m page \<longleftrightarrow> (\<forall>k < 3. \<forall>t. tbl m (take k (path_of page)) = Some t \<longrightarrow>
     \<not> bit (vm_tables m t ! (path_of page ! k)) 7)"

lemma no_huge_levels:
  assumes "no_huge m page"
  shows "\<not> bit (vm_tables m (vm_p4 m) ! p4_index page) 7"
    "tbl m [p4_index page] = Some t \<Longrightarrow> \<not> bit (vm_tables m t ! p3_index page) 7"
    "tbl m [p4_index page, p3_index page] = Some t \<Longrightarrow> \<not> bit (vm_tables m t ! p2_index page) 7"
  using assms [unfolded no_huge_def, rule_format, of 0] assms [unfolded no_huge_def, rule_format, of 1]
    assms [unfolded no_huge_def, rule_format, of 2]
  by (simp_all add: path_of_def numeral_2_eq_2)

lemma unmapped_unused:
  assumes "pt_ok limit A m" "p4_index page \<noteq> 511" "tbl m (path_of page) = Some t" "mapping m (page mod 2 ^ 36) = None"
  shows "entry_is_unused (vm_tables m t ! p1_index page)"
proof -
  have "slots (path_of page) = {..<512}" by (simp add: slots_def path_of_def)
  then have "entry_is_unused (vm_tables m t ! p1_index page) \<or> bit (vm_tables m t ! p1_index page) 0"
    using pt_okD(1) [OF assms(1) path_of_ok [OF assms(2)] assms(3)] index_bound(4) [of page]
    by (simp add: table_ok_def)
  then show ?thesis
    using mapping_at [OF assms(2,3)] assms(4) by (auto simp: entry_view_def pointed_frame_def entry_present)
qed

locale mapper = frame_allocator +
  assumes limit_bound: "limit \<le> 2 ^ 40"
begin

lemma create_spec:
  assumes ok: "vm_ok limit good avail R m" and p: "ok_path (p @ [i])" "tbl m p = Some t"
    and run: "next_table_create alloc m t i = Some (m', t')"
  shows "vm_ok limit good avail R m' \<and> same_on R m m' \<and> tbl m' (p @ [i]) = Some t' \<and>
    (m' = m \<or> vm_tables m' t' = zero_table) \<and> mapping m' = mapping m"
proof (cases "next_table m t i")
  case (Some s)
  then show ?thesis using ok p run by (simp add: next_table_create_def tbl_snoc)
next
  case None
  have good: "good (vm_alloc m)" and pt: "pt_ok limit (avail (vm_alloc m) \<union> R) m"
    and dis: "avail (vm_alloc m) \<inter> R = {}" using ok by (auto simp: vm_ok_def)
  have p': "ok_path p" "i \<in> slots p" using p(1) by (auto simp: ok_path_snoc)
  have nh: "\<not> bit (vm_tables m t ! i) 7" using run None by (auto simp: next_table_create_def entry_huge)
  have e: "entry_is_unused (vm_tables m t ! i)"
    using pt_okD(1) [OF pt p'(1) p(2)] p'(2) None nh
    by (auto simp: table_ok_def next_table_def Let_def entry_present entry_huge pointed_frame_def)
  obtain a f where al: "alloc (vm_alloc m) 1 = Some (a, Some f)"
    using run None by (auto simp: next_table_create_def allocate_frame_def split: bind_splits if_splits)
  define m0 where "m0 = m\<lparr>vm_alloc := a\<rparr>"
  have al': "good a" "f \<in> avail (vm_alloc m)" "avail a \<subseteq> avail (vm_alloc m) - {f}" "f < limit"
    using alloc_some [OF good _ _ al] by (auto simp: frange_def)
  have pt0: "pt_ok limit (avail a \<union> R) m0"
    using pt_ok_alloc [OF pt, of "avail a \<union> R" a] al'(3) by (auto simp: m0_def)
  have unreach: "\<forall>q. ok_path q \<longrightarrow> tbl m0 q \<noteq> Some f" using pt al'(2) by (auto simp: pt_ok_def m0_def)
  note g = grow_step [OF pt0 limit_bound p(1), of t f, folded TABLE_FLAGS_def]
  have "f \<notin> avail a \<union> R" using al'(2,3) dis by auto
  note g = g [OF _ _ al'(4) this unreach]
  have "m' = put_table (put_table m0 t ((increment_entry_count (vm_tables m0 t))[i :=
      entry_set (increment_entry_count (vm_tables m0 t) ! i) f TABLE_FLAGS])) f zero_table \<and> t' = f"
    using run None al g(1) p(2) e
    by (auto simp: next_table_create_def allocate_frame_def Let_def m0_def TABLE_FLAGS_def split: if_splits)
  moreover have "f \<notin> R" "avail a \<inter> R = {}" using al'(2,3) dis by auto
  ultimately show ?thesis
    using g(2-4) p(2) e al'(1) reach_not_reserved [OF ok p'(1) p(2)]
    by (auto simp: vm_ok_def m0_def same_on_def intro!: mapping_eqI)
qed

lemma create_returns:
  assumes ok: "vm_ok limit good avail R m" and p: "ok_path (p @ [i])" "tbl m p = Some t"
    and nh: "\<not> bit (vm_tables m t ! i) 7" and sup: "supplies alloc (Suc n) (vm_alloc m)"
  shows "\<exists>m' t'. next_table_create alloc m t i = Some (m', t') \<and> supplies alloc n (vm_alloc m')"
proof (cases "next_table m t i")
  case (Some s)
  then show ?thesis using supplies_less [OF sup] by (simp add: next_table_create_def)
next
  case None
  obtain a f where al: "alloc (vm_alloc m) 1 = Some (a, Some f)" "supplies alloc n a" using sup by auto
  have "good (vm_alloc m)" using ok by (simp add: vm_ok_def)
  from alloc_some [OF this _ _ al(1)] have f: "f < 2 ^ 40" using limit_bound by simp
  have pt: "pt_ok limit (avail (vm_alloc m) \<union> R) m" using ok by (simp add: vm_ok_def)
  have p': "ok_path p" "i \<in> slots p" using p(1) by (auto simp: ok_path_snoc)
  have e: "entry_is_unused (vm_tables m t ! i)"
    using pt_okD(1) [OF pt p'(1) p(2)] p'(2) None nh
    by (auto simp: table_ok_def next_table_def Let_def entry_present entry_huge pointed_frame_def)
  note ae = add_entry [OF pt_okD(1) [OF pt p'(1) p(2)] p'(2) e f table_flags(1,2)]
  show ?thesis
    using None nh al ae(3) table_flags(3)
    by (auto simp: next_table_create_def allocate_frame_def Let_def entry_huge next_table_view
        TABLE_FLAGS_def [symmetric])
qed

text \<open>The three levels of tables below the top-level table are there, and mapping goes on at the last.\<close>

lemma walk_create_spec:
  assumes ok: "vm_ok limit good avail R m" and page: "p4_index page \<noteq> 511"
    and r: "next_table_create alloc m (vm_p4 m) (p4_index page) = Some (m1, p3)"
      "next_table_create alloc m1 p3 (p3_index page) = Some (m2, p2)"
      "next_table_create alloc m2 p2 (p2_index page) = Some (m3, p1)"
  shows "vm_ok limit good avail R m3 \<and> same_on R m m3 \<and> tbl m3 (path_of page) = Some p1 \<and>
    mapping m3 = mapping m"
proof -
  have okp: "ok_path ([] @ [p4_index page])" "ok_path ([p4_index page] @ [p3_index page])"
    "ok_path ([p4_index page, p3_index page] @ [p2_index page])"
    using index_bound [of page] page by (auto simp: ok_path_def)
  note s1 = create_spec [OF ok okp(1) tbl_Nil r(1)]
  have s2: "vm_ok limit good avail R m2" "same_on R m m2" "tbl m2 [p4_index page, p3_index page] = Some p2"
    "mapping m2 = mapping m"
    using s1 create_spec [OF conjunct1 [OF s1] okp(2) _ r(2)] same_on_trans [of R m m1] by auto
  show ?thesis
    using create_spec [OF s2(1) okp(3) s2(3) r(3)] s2(4) same_on_trans [OF s2(2)] by (simp add: path_of_def)
qed

lemma map_to_spec:
  assumes ok: "vm_ok limit good avail R m" and page: "p4_index page \<noteq> 511"
    and fl: "frame < 2 ^ 40" "flags_ok fl" and run: "map_to alloc m page frame fl = Some m'"
  shows "vm_ok limit good avail R m' \<and> same_on R m m' \<and> mapping m (page mod 2 ^ 36) = None \<and>
    mapping m' = (mapping m)(page mod 2 ^ 36 \<mapsto> (frame, fl OR PRESENT))"
proof -
  obtain m1 p3 m2 p2 m3 p1 where
    r: "next_table_create alloc m (vm_p4 m) (p4_index page) = Some (m1, p3)"
      "next_table_create alloc m1 p3 (p3_index page) = Some (m2, p2)"
      "next_table_create alloc m2 p2 (p2_index page) = Some (m3, p1)" and
    e: "entry_is_unused (vm_tables m3 p1 ! p1_index page)" and
    m': "m' = put_table m3 p1 ((increment_entry_count (vm_tables m3 p1))[p1_index page :=
           entry_set (increment_entry_count (vm_tables m3 p1) ! p1_index page) frame (fl OR PRESENT)])"
    using run by (auto simp: map_to_def Let_def split: bind_splits if_splits)
  note w = walk_create_spec [OF ok page r]
  then have t: "tbl m3 (path_of page) = Some p1" and mm: "mapping m3 = mapping m" by auto
  have pt: "good (vm_alloc m3)" "pt_ok limit (avail (vm_alloc m3) \<union> R) m3" "avail (vm_alloc m3) \<inter> R = {}"
    using w by (auto simp: vm_ok_def)
  have sl: "slots (path_of page) = {..<512}" by (simp add: slots_def path_of_def)
  have "p1_index page \<in> slots (path_of page)" using sl index_bound(4) [of page] by simp
  note ae = add_entry [OF pt_okD(1) [OF pt(2) path_of_ok [OF page] t] this e fl(1), of "fl OR PRESENT"]
  have "p1 \<notin> R" using w reach_not_reserved [OF _ path_of_ok [OF page] t] by blast
  then have "same_on R m3 m'" by (auto simp: same_on_def m')
  moreover have "mapping m (page mod 2 ^ 36) = None"
    using mapping_at [OF page t] e mm by (simp add: entry_view_def unused_pointed)
  ultimately show ?thesis
    using ae or_present [OF fl(2)] leaf_step [OF pt(2) page t] pt(1,3) mm w same_on_trans [of R m m3 m']
    by (simp add: m' vm_ok_def sl)
qed

text \<open>Mapping returns when the page is free, no huge page is in the way, and the allocator has
  frames for the three tables.\<close>

lemma map_to_returns:
  assumes ok: "vm_ok limit good avail R m" and page: "p4_index page \<noteq> 511"
    and free: "mapping m (page mod 2 ^ 36) = None" and nh: "no_huge m page"
    and sup: "supplies alloc 3 (vm_alloc m)"
  shows "map_to alloc m page frame fl \<noteq> None"
proof -
  have okp: "ok_path ([] @ [p4_index page])" "ok_path ([p4_index page] @ [p3_index page])"
    "ok_path ([p4_index page, p3_index page] @ [p2_index page])"
    using index_bound [of page] page by (auto simp: ok_path_def)
  note nh' = no_huge_levels [OF nh]
  have nhz: "\<not> bit (zero_table ! i) 7" if "i < 512" for i using that by simp
  have "supplies alloc (Suc 2) (vm_alloc m)" using sup by (simp add: numeral_3_eq_3)
  from create_returns [OF ok okp(1) tbl_Nil nh'(1) this] obtain m1 p3 where
    r1: "next_table_create alloc m (vm_p4 m) (p4_index page) = Some (m1, p3)" "supplies alloc (Suc 1) (vm_alloc m1)"
    by (auto simp: numeral_2_eq_2)
  note s1 = create_spec [OF ok okp(1) tbl_Nil r1(1)]
  have t1: "vm_ok limit good avail R m1" "tbl m1 [p4_index page] = Some p3" using s1 by auto
  have "\<not> bit (vm_tables m1 p3 ! p3_index page) 7"
    using s1 nh'(2) nhz index_bound(2) [of page] by auto
  from create_returns [OF t1(1) okp(2) t1(2) this r1(2)] obtain m2 p2 where
    r2: "next_table_create alloc m1 p3 (p3_index page) = Some (m2, p2)" "supplies alloc (Suc 0) (vm_alloc m2)" by auto
  note s2 = create_spec [OF t1(1) okp(2) t1(2) r2(1)]
  have t2: "vm_ok limit good avail R m2" "tbl m2 [p4_index page, p3_index page] = Some p2" using s2 by auto
  have "vm_tables m1 p3 = zero_table \<Longrightarrow> m2 \<noteq> m1"
    using t2(2) t1(2) next_table_unused [of m1 p3 "p3_index page"] index_bound(2) [of page]
    by (auto simp: tbl_def split: option.splits)
  then have "\<not> bit (vm_tables m2 p2 ! p2_index page) 7"
    using s1 s2 nh'(3) nhz index_bound(3) [of page] by auto
  from create_returns [OF t2(1) okp(3) t2(2) this r2(2)] obtain m3 p1 where
    r3: "next_table_create alloc m2 p2 (p2_index page) = Some (m3, p1)" by auto
  note w = walk_create_spec [OF ok page r1(1) r2(1) r3]
  then have "entry_is_unused (vm_tables m3 p1 ! p1_index page)"
    using free unmapped_unused [OF _ page, of limit _ m3 p1] by (auto simp: vm_ok_def)
  then show ?thesis using r1(1) r2(1) r3 by (simp add: map_to_def Let_def)
qed

lemma remap_spec:
  assumes ok: "vm_ok limit good avail R m" and page: "p4_index page \<noteq> 511" and fl: "flags_ok fl"
  shows "case mapping m (page mod 2 ^ 36) of None \<Rightarrow> remap m page fl = None
    | Some (frame, fl0) \<Rightarrow> \<exists>m'. remap m page fl = Some m' \<and> vm_ok limit good avail R m' \<and> same_on R m m' \<and>
        mapping m' = (mapping m)(page mod 2 ^ 36 \<mapsto> (frame, fl OR PRESENT))"
proof (cases "tbl m (path_of page)")
  case None
  then have "mapping m (page mod 2 ^ 36) = None"
    using path_of_mod [of page] by (simp add: mapping_def leaf_alt)
  moreover have "remap m page fl = None" using None by (auto simp: remap_def tbl_path_of split: bind_splits)
  ultimately show ?thesis by simp
next
  case (Some p1)
  note view = mapping_at [OF page Some]
  define tab where "tab = vm_tables m p1"
  have re: "remap m page fl = map_option (\<lambda>frame. put_table m p1 (tab[p1_index page :=
      entry_set (tab ! p1_index page) frame (fl OR PRESENT)])) (pointed_frame (tab ! p1_index page))"
    using Some by (auto simp: remap_def tbl_path_of tab_def map_conv_bind_option split: bind_splits)
  show ?thesis
  proof (cases "pointed_frame (tab ! p1_index page)")
    case None
    then show ?thesis using re view by (simp add: entry_view_def tab_def)
  next
    case frame: (Some frame)
    have pt: "good (vm_alloc m)" "pt_ok limit (avail (vm_alloc m) \<union> R) m" "avail (vm_alloc m) \<inter> R = {}"
    using ok by (auto simp: vm_ok_def)
    have sl: "slots (path_of page) = {..<512}" by (simp add: slots_def path_of_def)
    have i: "p1_index page \<in> slots (path_of page)" using sl index_bound(4) [of page] by simp
    have "bit (tab ! p1_index page) 0" using frame by (auto simp: pointed_frame_def entry_present split: if_splits)
    note r = replace_entry [OF pt_okD(1) [OF pt(2) path_of_ok [OF page] Some, folded tab_def] i this
        pointed_frame_bound [OF frame], of "fl OR PRESENT"]
    show ?thesis
      using r or_present [OF fl] leaf_step [OF pt(2) page Some, folded tab_def] pt(1,3) re frame view
        reach_not_reserved [OF ok path_of_ok [OF page] Some]
      by (auto simp: entry_view_def vm_ok_def sl tab_def same_on_def)
  qed
qed

lemma free_step:
  assumes ok: "vm_ok limit good avail R m" and p: "ok_path (p @ [i])" "tbl m p = Some t" "tbl m (p @ [i]) = Some f"
    and un: "table_is_unused (vm_tables m f)"
  shows "\<exists>m'. free_table dealloc m t i = Some m' \<and> vm_ok limit good avail R m' \<and> same_on R m m' \<and>
    mapping m' = mapping m \<and>
    (\<forall>q. ok_path q \<longrightarrow> take (Suc (length p)) q \<noteq> p @ [i] \<longrightarrow> tbl m' q = tbl m q)"
proof -
  have pt: "good (vm_alloc m)" "pt_ok limit (avail (vm_alloc m) \<union> R) m" "avail (vm_alloc m) \<inter> R = {}"
    using ok by (auto simp: vm_ok_def)
  note cs = clear_step [OF pt(2) p un]
  have f: "f < limit" "f \<notin> avail (vm_alloc m)" "f \<notin> R" using pt_okD(2,3) [OF pt(2) p(1,3)] by auto
  obtain a where a: "dealloc (vm_alloc m) f 1 = Some a" "good a" "avail a \<subseteq> insert f (avail (vm_alloc m))"
    using dealloc_law [OF pt(1), of 1 f] f by (auto simp: frange_def)
  have "next_table m t i = Some f" using p(2,3) by (simp add: tbl_snoc)
  then have "pointed_frame (vm_tables m t ! i) = Some f"
    by (auto simp: next_table_def Let_def split: if_splits)
  then have run: "free_table dealloc m t i = Some ((clear_entry m t i)\<lparr>vm_alloc := a\<rparr>)"
    using a(1) by (simp add: free_table_def deallocate_frame_def clear_entry_def Let_def)
  have "mapping ((clear_entry m t i)\<lparr>vm_alloc := a\<rparr>) = mapping m" using cs(2) by (intro mapping_eqI) simp
  moreover have "avail a \<union> R \<subseteq> insert f (avail (vm_alloc m) \<union> R)" "avail a \<inter> R = {}"
    using a(3) pt(3) f(3) by auto
  moreover have "same_on R m ((clear_entry m t i)\<lparr>vm_alloc := a\<rparr>)"
    using reach_not_reserved [OF ok _ p(2)] p(1) by (auto simp: same_on_def clear_entry_def Let_def ok_path_snoc)
  ultimately show ?thesis
    using run a(2) pt_ok_alloc [OF cs(1), of "avail a \<union> R" a] cs(3) by (simp add: vm_ok_def)
qed

lemma clear_leaf:
  assumes ok: "vm_ok limit good avail R m" and page: "p4_index page \<noteq> 511" and t: "tbl m (path_of page) = Some p1"
    and fr: "pointed_frame (vm_tables m p1 ! p1_index page) = Some frame"
  defines "m' \<equiv> clear_entry m p1 (p1_index page)"
  shows "vm_ok limit good avail R m' \<and> same_on R m m' \<and> mapping m' = (mapping m)(page mod 2 ^ 36 := None) \<and>
    (\<forall>q. ok_path q \<longrightarrow> tbl m' q = tbl m q)"
proof -
  have pt: "good (vm_alloc m)" "pt_ok limit (avail (vm_alloc m) \<union> R) m" "avail (vm_alloc m) \<inter> R = {}"
    using ok by (auto simp: vm_ok_def)
  have sl: "slots (path_of page) = {..<512}" by (simp add: slots_def path_of_def)
  have i: "p1_index page \<in> slots (path_of page)" using sl index_bound(4) [of page] by simp
  have "\<not> entry_is_unused (vm_tables m p1 ! p1_index page)" using fr unused_pointed by force
  note r = remove_entry [OF pt_okD(1) [OF pt(2) path_of_ok [OF page] t] i this]
  have st: "entry_step m m' (path_of page) p1 (p1_index page)"
    using path_of_ok [OF page] t r(1) i by (simp add: entry_step_def m'_def clear_entry_def Let_def)
  have "tbl m' q = tbl m q" if "ok_path q" for q
    by (rule step_tbl [OF pt(2) st that]) (use that in \<open>auto simp: ok_path_def dest: arg_cong [of _ _ length]\<close>)
  then show ?thesis
    using leaf_step [OF pt(2) page t r(1)] r(2,3) sl pt(1,3) reach_not_reserved [OF ok path_of_ok [OF page] t]
    by (auto simp: vm_ok_def m'_def clear_entry_def Let_def entry_view_def unused_pointed same_on_def)
qed

text \<open>The three table frees after a leaf is cleared; each one happens only when the table below
  it has become empty.\<close>

lemma free_parents:
  assumes ok: "vm_ok limit good avail R m" and page: "p4_index page \<noteq> 511"
    and t: "tbl m [p4_index page] = Some p3" "tbl m [p4_index page, p3_index page] = Some p2"
      "tbl m (path_of page) = Some p1" and un: "table_is_unused (vm_tables m p1)"
    and p4: "p4 = vm_p4 m"
  shows "\<exists>m'. do {
       m \<leftarrow> free_table dealloc m p2 (p2_index page);
       if \<not> table_is_unused (vm_tables m p2) then Some (m, frame)
       else do {
         m \<leftarrow> free_table dealloc m p3 (p3_index page);
         if \<not> table_is_unused (vm_tables m p3) then Some (m, frame)
         else do {
           m \<leftarrow> free_table dealloc m p4 (p4_index page);
           Some (m, frame) } } } = Some (m', frame) \<and>
     vm_ok limit good avail R m' \<and> same_on R m m' \<and> mapping m' = mapping m"
proof -
  have okp: "ok_path ([] @ [p4_index page])" "ok_path ([p4_index page] @ [p3_index page])"
    "ok_path ([p4_index page, p3_index page] @ [p2_index page])"
    using index_bound [of page] page by (auto simp: ok_path_def)
  obtain m1 where m1: "free_table dealloc m p2 (p2_index page) = Some m1" "vm_ok limit good avail R m1"
    "same_on R m m1" "mapping m1 = mapping m"
    "tbl m1 [p4_index page] = Some p3" "tbl m1 [p4_index page, p3_index page] = Some p2"
    using free_step [OF ok okp(3) t(2) _ un] t okp by (auto simp: path_of_def)
  show ?thesis
  proof (cases "table_is_unused (vm_tables m1 p2)")
    case False
    then show ?thesis using m1 by simp
  next
    case u2: True
    obtain m2 where m2: "free_table dealloc m1 p3 (p3_index page) = Some m2" "vm_ok limit good avail R m2"
      "same_on R m m2" "mapping m2 = mapping m" "tbl m2 [p4_index page] = Some p3"
      using free_step [OF m1(2) okp(2) m1(5) _ u2] m1 okp same_on_trans [OF m1(3)] by auto
    show ?thesis
    proof (cases "table_is_unused (vm_tables m2 p3)")
      case False
      then show ?thesis using m1 m2 u2 by simp
    next
      case u3: True
      obtain m3 where m3: "free_table dealloc m2 (vm_p4 m) (p4_index page) = Some m3"
        "vm_ok limit good avail R m3" "same_on R m m3" "mapping m3 = mapping m"
        using free_step [OF m2(2) okp(1) tbl_Nil _ u3] m2 same_on_trans [OF m2(3)] same_on_p4 [OF m2(3)] by auto
      then show ?thesis using m1 m2 u2 u3 p4 by simp
    qed
  qed
qed

lemma unmap_inner_spec:
  assumes ok: "vm_ok limit good avail R m" and page: "p4_index page \<noteq> 511"
  shows "case mapping m (page mod 2 ^ 36) of None \<Rightarrow> unmap_inner dealloc m page keep = None
    | Some (frame, fl) \<Rightarrow> \<exists>m'. unmap_inner dealloc m page keep = Some (m', frame) \<and>
        vm_ok limit good avail R m' \<and> same_on R m m' \<and> mapping m' = (mapping m)(page mod 2 ^ 36 := None)"
proof (cases "mapping m (page mod 2 ^ 36)")
  case None
  then have "translate_page m page = None" by (simp add: translate_page_mapping [OF page])
  then have "unmap_inner dealloc m page keep = None"
    by (auto simp: unmap_inner_def translate_page_def split: bind_splits)
  then show ?thesis using None by simp
next
  case (Some v)
  obtain frame fl where v: "v = (frame, fl)" by (cases v)
  have "translate_page m page = Some frame" using Some v by (simp add: translate_page_mapping [OF page])
  then obtain p3 p2 p1 where w: "next_table m (vm_p4 m) (p4_index page) = Some p3"
    "next_table m p3 (p3_index page) = Some p2" "next_table m p2 (p2_index page) = Some p1"
    and fr: "pointed_frame (vm_tables m p1 ! p1_index page) = Some frame"
    by (auto simp: translate_page_def split: bind_splits)
  then have t: "tbl m [p4_index page] = Some p3" "tbl m [p4_index page, p3_index page] = Some p2"
    "tbl m (path_of page) = Some p1" by (simp_all add: tbl_def path_of_def)
  define m1 where "m1 = clear_entry m p1 (p1_index page)"
  note c = clear_leaf [OF ok page t(3) fr, folded m1_def]
  have "ok_path [p4_index page]" "ok_path [p4_index page, p3_index page]" "ok_path (path_of page)"
    using index_bound [of page] page by (auto simp: ok_path_def path_of_def)
  then have t1: "tbl m1 [p4_index page] = Some p3" "tbl m1 [p4_index page, p3_index page] = Some p2"
    "tbl m1 (path_of page) = Some p1" using c t by auto
  show ?thesis
  proof (cases "keep \<or> \<not> table_is_unused (vm_tables m1 p1)")
    case True
    then show ?thesis using Some v w fr c by (simp add: unmap_inner_def m1_def Let_def)
  next
    case False
    then show ?thesis
      using Some v w fr c free_parents [OF _ page t1, of R "vm_p4 m" frame] same_on_trans [of R m m1] same_on_p4 [of R m m1]
      by (auto simp: unmap_inner_def m1_def [symmetric] Let_def)
  qed
qed

end

text \<open>The kernel's allocator provides the frames of the page tables.\<close>

interpretation kmap: mapper
  "2 ^ 40" "recycle_inv (2 ^ 40) bump_inv bump_avail" "recycle_avail bump_avail" set_noncore
  "recycle_allocate bump_allocate" "recycle_deallocate bump_deallocate"
  by unfold_locales simp

end
