(* ===== verification/Paging_Props.thy ===== *)
theory Paging_Props
  imports Paging_Mapper Memory_Props
begin

text \<open>
  The properties of the page tables: mapping, remapping and unmapping as operations on a finite map,
  new address spaces, and the recursive slot.  The frames come from the kernel's own allocator.
\<close>

type_synonym kvm = "bump recycle vm"

abbreviation kvm_ok :: "nat set \<Rightarrow> kvm \<Rightarrow> bool" where
  "kvm_ok \<equiv> vm_ok (2 ^ 40) (recycle_inv (2 ^ 40) bump_inv bump_avail) (recycle_avail bump_avail)"

abbreviation kalloc :: "bump recycle alloc_fn" where
  "kalloc \<equiv> recycle_allocate bump_allocate"

abbreviation kdealloc :: "bump recycle dealloc_fn" where
  "kdealloc \<equiv> recycle_deallocate bump_deallocate"

subsection \<open>Empty address spaces\<close>

lemma empty_walk:
  assumes "\<forall>i < 511. entry_is_unused (vm_tables m (vm_p4 m) ! i)" "ok_path p" "p \<noteq> []"
  shows "tbl m p = None"
proof (cases p)
  case (Cons i q)
  then have "next_table m (vm_p4 m) i = None" using assms by (intro next_table_unused) (simp add: ok_path_def)
  then show ?thesis by (simp add: tbl_def Cons)
qed (use assms in simp)

lemma empty_vm:
  assumes "length (vm_tables m (vm_p4 m)) = 512" "\<forall>i < 511. vm_tables m (vm_p4 m) ! i = 0" "vm_p4 m \<notin> A"
  shows "pt_ok limit A m" "mapping m = (\<lambda>_. None)"
proof -
  have u: "\<forall>i < 511. entry_is_unused (vm_tables m (vm_p4 m) ! i)" using assms(2) by simp
  have "table_ok (slots []) (vm_tables m (vm_p4 m))"
    using assms(1,2) u by (auto simp: table_ok_def slots_def used_def entry_count_def counter_bits_def)
  moreover have "p = [] \<and> t = vm_p4 m" if "ok_path p" "tbl m p = Some t" for p t
    using empty_walk [OF u that(1)] that(2) by (cases "p = []") auto
  ultimately show "pt_ok limit A m" using assms(3) unfolding pt_ok_def by blast
  show "mapping m = (\<lambda>_. None)"
    using empty_walk [OF u path_of_ok] by (auto simp: mapping_def leaf_alt path_of_def)
qed

text \<open>Writing a frame that is no table of this address space.\<close>

lemma put_elsewhere:
  assumes "pt_ok limit A m" "t \<in> A"
  shows "pt_ok limit A (put_table m t tab)" "mapping (put_table m t tab) = mapping m"
    "ok_path q \<Longrightarrow> tbl (put_table m t tab) q = tbl m q"
proof -
  have eq: "tbl (put_table m t tab) q = tbl m q" if "ok_path q" for q
    using that
  proof (induction q rule: rev_induct)
    case (snoc i q)
    then have okq: "ok_path q" by (simp add: ok_path_snoc)
    have "next_table (put_table m t tab) s i = next_table m s i" if "tbl m q = Some s" for s
      using pt_okD(2) [OF assms(1) okq that] assms(2) by (auto simp: next_table_view)
    then show ?case using snoc okq by (auto simp: tbl_snoc split: option.splits)
  qed simp
  then show "ok_path q \<Longrightarrow> tbl (put_table m t tab) q = tbl m q" .
  have tabs: "vm_tables (put_table m t tab) s = vm_tables m s" if "ok_path q" "tbl m q = Some s" for q s
    using pt_okD(2) [OF assms(1) that] assms(2) by auto
  show "pt_ok limit A (put_table m t tab)"
    using assms(1) eq tabs unfolding pt_ok_def by (metis (no_types, lifting))
  show "mapping (put_table m t tab) = mapping m"
    by (rule mapping_eqI) (use eq tabs in \<open>auto simp: leaf_alt split: option.splits\<close>)
qed

subsection \<open>The recursive slot\<close>

definition aligned :: "64 word \<Rightarrow> bool" where
  "aligned a \<longleftrightarrow> (\<forall>n < 12. \<not> bit a n)"

lemma next_address_bit:
  assumes "n < 64"
  shows "bit (next_table_address a i) n \<longleftrightarrow> 9 \<le> n \<and> bit a (n - 9) \<or> 12 \<le> n \<and> bit i (n - 12)"
  using assms by (auto simp: next_table_address_def bit_or_iff bit_push_bit_iff possible_bit_def bit_of_nat_iff)

lemma next_address_aligned: "aligned a \<Longrightarrow> aligned (next_table_address a i)"
  by (simp add: aligned_def next_address_bit)

lemma va_index_eqI:
  assumes "\<And>n. n < 9 \<Longrightarrow> bit (drop_bit (12 + 9 * (l - 1)) a) n \<longleftrightarrow> bit (drop_bit (12 + 9 * (l' - 1)) b) n"
  shows "va_index l a = va_index l' b"
  unfolding va_index_def word_unat_eq_iff [symmetric] bit_word64_eq using assms by (auto simp: bit_take_bit_iff)

lemma va_index_next:
  assumes "aligned a" "i < 512"
  shows "va_index 1 (next_table_address a i) = i" "2 \<le> l \<Longrightarrow> l \<le> 4 \<Longrightarrow> va_index l (next_table_address a i) = va_index (l - 1) a"
proof -
  have ib: "bit i n \<Longrightarrow> n < 9" for n using bit_nat_bound [of i 9 n] assms(2) by simp
  have "bit (take_bit 9 (drop_bit 12 (next_table_address a i))) n \<longleftrightarrow> bit (of_nat i :: 64 word) n" if "n < 64" for n
    using that ib [of n] assms(1)
    by (auto simp: bit_take_bit_iff bit_drop_bit_eq next_address_bit aligned_def bit_of_nat_iff possible_bit_def)
  then have "take_bit 9 (drop_bit 12 (next_table_address a i)) = of_nat i" by (simp only: bit_word64_eq) blast
  then show "va_index 1 (next_table_address a i) = i" using assms(2) by (simp add: va_index_def unat_of_nat)
  show "va_index l (next_table_address a i) = va_index (l - 1) a" if "2 \<le> l" "l \<le> 4"
  proof -
    have "l = 2 \<or> l = 3 \<or> l = 4" using that by auto
    then show ?thesis
      using ib by (intro va_index_eqI, elim disjE) (fastforce simp: bit_drop_bit_eq next_address_bit)+
  qed
qed

lemma bit_P4: "bit P4_ADDRESS n \<longleftrightarrow> 12 \<le> n \<and> n < 64"
proof -
  have p4: "P4_ADDRESS = push_bit 12 (mask 52)" by (simp add: P4_ADDRESS_def mask_eq_exp_minus_1)
  show ?thesis unfolding p4 bit_push_bit_iff bit_mask_iff by (auto simp: possible_bit_def)
qed

lemma P4_aligned: "aligned P4_ADDRESS"
  by (simp add: aligned_def bit_P4)

lemma P4_index: "l \<le> 4 \<Longrightarrow> va_index l P4_ADDRESS = 511"
proof -
  assume "l \<le> 4"
  then have "take_bit 9 (drop_bit (12 + 9 * (l - 1)) P4_ADDRESS) = mask 9"
    unfolding bit_word64_eq by (auto simp: bit_take_bit_iff bit_drop_bit_eq bit_P4 bit_mask_iff)
  then show ?thesis by (simp add: va_index_def mask_eq_exp_minus_1)
qed

lemma recursive_flags:
  "flags_ok (PRESENT OR WRITABLE OR NO_EXECUTE)" "bit (PRESENT OR WRITABLE OR NO_EXECUTE) 0"
  "\<not> bit (PRESENT OR WRITABLE OR NO_EXECUTE) 7"
  by (auto simp: flags_ok_def bit_word64_eq bit_and_iff bit_or_iff mask_bits)

lemma list4_cases:
  assumes "length xs \<le> 3"
  obtains "xs = []" | a where "xs = [a]" | a b where "xs = [a, b]" | a b c where "xs = [a, b, c]"
proof -
  have "length xs = 0 \<or> length xs = 1 \<or> length xs = 2 \<or> length xs = 3" using assms by arith
  then show ?thesis using that by (auto simp: length_Suc_conv numeral_2_eq_2 numeral_3_eq_3)
qed

lemma mmu_frame_view:
  assumes "next_table m t i = Some f"
  shows "pointed_frame (vm_tables m t ! i) = Some f"
  using assms by (auto simp: next_table_def Let_def split: if_splits)

subsection \<open>A concrete address space\<close>

definition demo_frames :: "nat \<Rightarrow> bump recycle" where
  "demo_frames n = \<lparr> rec_inner = demo_bump n, rec_noncore = True, rec_free = [] \<rparr>"

definition demo_p4 :: table where
  "demo_p4 = zero_table[511 := entry_set 0 5 (PRESENT OR WRITABLE OR NO_EXECUTE)]"

definition demo_vm :: kvm where
  "demo_vm = \<lparr> vm_tables = (\<lambda>_. zero_table)(5 := demo_p4), vm_p4 = 5, vm_alloc = demo_frames 260 \<rparr>"

lemma demo_frame: "260 \<le> n \<Longrightarrow> n \<le> 270 \<Longrightarrow> kalloc (demo_frames n) 1 = Some (demo_frames (Suc n), Some n)"
proof -
  assume n: "260 \<le> n" "n \<le> 270"
  have "bump_allocate (demo_bump n) 1 = Some (demo_bump (Suc n), Some n)"
    by (subst bump_allocate_unfold) (use n in \<open>simp add: demo_bump_def in_kernel_def\<close>)
  then show ?thesis by (simp add: demo_frames_def recycle_allocate_def)
qed

lemma demo_supplies: "supplies kalloc 3 (demo_frames 260)"
  by (simp add: numeral_3_eq_3 demo_frame [unfolded One_nat_def])

lemma demo_frames_inv: "recycle_inv (2 ^ 40) bump_inv bump_avail (demo_frames 260)"
  "recycle_avail bump_avail (demo_frames 260) \<subseteq> {260..271}"
  using demo_bump_inv [of 260]
  by (auto simp: recycle_inv_def recycle_avail_def demo_frames_def bump_avail_def demo_bump_def free_ok_def free_pages_def)

lemma demo_vm_ok: "kvm_ok {7} demo_vm" and demo_vm_empty: "mapping demo_vm = (\<lambda>_. None)"
proof -
  have "5 \<notin> recycle_avail bump_avail (demo_frames 260) \<union> {7}" using demo_frames_inv(2) by auto
  then have "pt_ok (2 ^ 40) (recycle_avail bump_avail (demo_frames 260) \<union> {7}) demo_vm"
    by (intro empty_vm) (simp_all add: demo_vm_def demo_p4_def)
  then show "kvm_ok {7} demo_vm" using demo_frames_inv by (auto simp: vm_ok_def demo_vm_def)
  show "mapping demo_vm = (\<lambda>_. None)"
    by (rule empty_vm(2) [of _ "{}"]) (simp_all add: demo_vm_def demo_p4_def)
qed

lemma demo_no_huge: "p4_index page \<noteq> 511 \<Longrightarrow> no_huge demo_vm page"
proof -
  assume "p4_index page \<noteq> 511"
  then have "p4_index page < 511" using index_bound(1) [of page] by simp
  then have "vm_tables demo_vm 5 ! p4_index page = 0" "next_table demo_vm 5 (p4_index page) = None"
    by (simp_all add: demo_vm_def demo_p4_def next_table_unused)
  then show ?thesis
    by (auto simp: no_huge_def tbl_def path_of_def numeral_3_eq_3 less_Suc_eq demo_vm_def)
qed

lemma demo_flags: "flags_ok WRITABLE" "WRITABLE OR PRESENT = 3" "flags_ok NO_EXECUTE"
proof -
  show "flags_ok WRITABLE" "flags_ok NO_EXECUTE"
    by (auto simp: flags_ok_def bit_word64_eq bit_and_iff mask_bits)
qed (simp add: WRITABLE_def PRESENT_def)

lemma demo_p4_frame [simp]: "vm_p4 demo_vm = 5"
  by (simp add: demo_vm_def)

lemma demo_page: "p4_index 3 \<noteq> 511"
  by (simp add: p4_index_def)

lemma demo_mapped:
  obtains m where "map_to kalloc demo_vm 3 9 WRITABLE = Some m" "kvm_ok {7} m"
    "mapping m = (\<lambda>_. None)(3 \<mapsto> (9, 3))"
proof -
  have "vm_alloc demo_vm = demo_frames 260" by (simp add: demo_vm_def)
  then have "map_to kalloc demo_vm 3 9 WRITABLE \<noteq> None"
    using demo_vm_empty demo_supplies
    by (intro kmap.map_to_returns [OF demo_vm_ok demo_page _ demo_no_huge [OF demo_page]]) simp_all
  then show thesis
    using that kmap.map_to_spec [OF demo_vm_ok demo_page _ demo_flags(1), of 9] demo_vm_empty demo_flags(2) by auto
qed

text \<open>C17: mapping a page is an update of the finite map: a page that is mapped already makes the
  call panic; otherwise, with frames for the tables on the way and no huge page there, the call
  returns, maps this page to the frame with the given flags (and every address in it to the same
  offset in the frame), changes no other page, keeps the tables well formed, and writes no frame
  outside its own tables.\<close>

theorem map_to_refines_map:
  assumes "kvm_ok R m" "p4_index page \<noteq> 511" "page < 2 ^ 52" "frame < 2 ^ 40" "flags_ok fl"
  shows "case mapping m (page mod 2 ^ 36) of
      Some _ \<Rightarrow> map_to kalloc m page frame fl = None
    | None \<Rightarrow> no_huge m page \<and> supplies kalloc 3 (vm_alloc m) \<longrightarrow>
        (\<exists>m'. map_to kalloc m page frame fl = Some m' \<and> kvm_ok R m' \<and> same_on R m m' \<and>
          mapping m' = (mapping m)(page mod 2 ^ 36 \<mapsto> (frame, fl OR PRESENT)) \<and>
          (\<forall>off < 4096. translate m' (page * 4096 + off) = Some (frame * 4096 + off)))"
proof (cases "mapping m (page mod 2 ^ 36)")
  case None
  have "translate m' (page * 4096 + off) = Some (frame * 4096 + off)"
    if "mapping m' = (mapping m)(page mod 2 ^ 36 \<mapsto> (frame, fl OR PRESENT))" "off < 4096" for m' :: kvm and off
    using that assms(2,4)
    by (simp add: translate_def page_containing_address_def PAGE_SIZE_def translate_page_mapping frame_start_address_def)
  then show ?thesis
    using None kmap.map_to_spec [OF assms(1,2,4,5)] kmap.map_to_returns [OF assms(1,2) None, of frame fl] by fastforce
next
  case (Some v)
  then have "map_to kalloc m page frame fl = None"
    using kmap.map_to_spec [OF assms(1,2,4,5)] by (cases "map_to kalloc m page frame fl") auto
  then show ?thesis using Some by simp
qed

theorem map_to_refines_map_witness:
  "\<exists>m'. map_to kalloc demo_vm 3 9 WRITABLE = Some m' \<and> kvm_ok {7} m' \<and> same_on {7} demo_vm m' \<and>
     mapping m' = (\<lambda>_. None)(3 \<mapsto> (9, 3)) \<and> translate m' 0x3123 = Some 0x9123"
proof -
  have "vm_alloc demo_vm = demo_frames 260" by (simp add: demo_vm_def)
  then obtain m' where "map_to kalloc demo_vm 3 9 WRITABLE = Some m'" "kvm_ok {7} m'" "same_on {7} demo_vm m'"
    "mapping m' = (\<lambda>_. None)(3 \<mapsto> (9, 3))" "\<forall>off < 4096. translate m' (3 * 4096 + off) = Some (9 * 4096 + off)"
    using map_to_refines_map [OF demo_vm_ok demo_page _ _ demo_flags(1), of 9] demo_vm_empty
      demo_no_huge [OF demo_page] demo_supplies demo_flags(2) by auto
  moreover from this(5) have "translate m' 0x3123 = Some 0x9123" by (auto dest: spec [of _ "0x123"])
  ultimately show ?thesis by blast
qed

lemma remap_changes_flags_only:
  assumes "kvm_ok R m" "p4_index page \<noteq> 511" "flags_ok fl"
  shows "case mapping m (page mod 2 ^ 36) of
      None \<Rightarrow> remap m page fl = None
    | Some (frame, fl0) \<Rightarrow> \<exists>m'. remap m page fl = Some m' \<and> kvm_ok R m' \<and> same_on R m m' \<and>
        mapping m' = (mapping m)(page mod 2 ^ 36 \<mapsto> (frame, fl OR PRESENT))"
  using kmap.remap_spec [OF assms] .

lemma unmap_removes_page_only:
  assumes "kvm_ok R m" "p4_index page \<noteq> 511"
  shows "case mapping m (page mod 2 ^ 36) of
      None \<Rightarrow> unmap_return kdealloc m page keep_parents = None
    | Some (frame, fl) \<Rightarrow> \<exists>m'. unmap_return kdealloc m page keep_parents = Some (m', frame) \<and>
        kvm_ok R m' \<and> same_on R m m' \<and> mapping m' = (mapping m)(page mod 2 ^ 36 := None)"
  using kmap.unmap_inner_spec [OF assms] by (simp only: unmap_return_def)

text \<open>C18: remapping changes the flags of one page and nothing else.  Unmapping a page returns its frame and
  removes exactly this page from the map, although it also frees every table that became empty on the way
  up.  Both panic exactly when the page is not mapped.  Frames of others are not written, and the tables
  stay well formed.\<close>

theorem remap_unmap_one_page:
  assumes "kvm_ok R m" "p4_index page \<noteq> 511" "flags_ok fl"
  shows "case mapping m (page mod 2 ^ 36) of
      None \<Rightarrow> remap m page fl = None \<and> unmap_return kdealloc m page keep_parents = None
    | Some (frame, fl0) \<Rightarrow>
        (\<exists>m'. remap m page fl = Some m' \<and> kvm_ok R m' \<and> same_on R m m' \<and>
           mapping m' = (mapping m)(page mod 2 ^ 36 \<mapsto> (frame, fl OR PRESENT))) \<and>
        (\<exists>m'. unmap_return kdealloc m page keep_parents = Some (m', frame) \<and> kvm_ok R m' \<and> same_on R m m' \<and>
           mapping m' = (mapping m)(page mod 2 ^ 36 := None))"
  using remap_changes_flags_only [OF assms] unmap_removes_page_only [OF assms(1,2), of keep_parents]
  by (simp split: option.splits prod.splits)

theorem remap_unmap_one_page_witness:
  "\<exists>m m1 m2. map_to kalloc demo_vm 3 9 WRITABLE = Some m \<and> remap m 4 NO_EXECUTE = None \<and>
     remap m 3 NO_EXECUTE = Some m1 \<and> mapping m1 = (\<lambda>_. None)(3 \<mapsto> (9, NO_EXECUTE OR PRESENT)) \<and>
     unmap_return kdealloc m 3 False = Some (m2, 9) \<and> mapping m2 = (\<lambda>_. None)"
proof -
  obtain m where m: "map_to kalloc demo_vm 3 9 WRITABLE = Some m" "kvm_ok {7} m"
    "mapping m = (\<lambda>_. None)(3 \<mapsto> (9, 3))" by (rule demo_mapped)
  have "p4_index 4 \<noteq> 511" by (simp add: p4_index_def)
  from remap_unmap_one_page [OF m(2) this demo_flags(3)] m(3) have "remap m 4 NO_EXECUTE = None" by simp
  then show ?thesis using remap_unmap_one_page [OF m(2) demo_page demo_flags(3), of False] m by fastforce
qed

text \<open>C20: through the recursive slot, the address that \<open>next_table_address\<close> computes for a path of
  table indices is backed, in the walk of the processor, by the very frame of the table that the
  path leads to.\<close>

theorem recursive_slot_reaches_tables:
  assumes "next_table m (vm_p4 m) RECURSIVE_PAGE_PML4 = Some (vm_p4 m)"
    and "length path \<le> 3" "\<forall>i \<in> set path. i < 512" "tbl m path = Some t"
  shows "mmu_frame m (foldl next_table_address P4_ADDRESS path) = Some t"
proof -
  note rec = assms(1) [unfolded slot_values(1)]
  note simps = mmu_frame_def va_index_next va_index_next(1) [unfolded One_nat_def] P4_index P4_aligned next_address_aligned rec mmu_frame_view
  show ?thesis
  proof (cases rule: list4_cases [OF assms(2)])
    case 1
    then have "t = vm_p4 m" using assms(4) by simp
    then show ?thesis using 1 by (simp add: simps)
  next
    case 2
    then show ?thesis using assms(3,4) by (auto simp: simps tbl_def split: option.splits)
  next
    case 3
    then show ?thesis using assms(3,4) by (auto simp: simps tbl_def split: option.splits)
  next
    case 4
    then show ?thesis using assms(3,4) by (auto simp: simps tbl_def split: option.splits)
  qed
qed

theorem recursive_slot_reaches_tables_witness:
  "mmu_frame demo_vm (foldl next_table_address P4_ADDRESS [511, 511]) = Some 5"
proof -
  have "pointed_frame (entry_set 0 5 (PRESENT OR WRITABLE OR NO_EXECUTE)) = Some 5"
    "entry_flags_of (entry_set 0 5 (PRESENT OR WRITABLE OR NO_EXECUTE)) = PRESENT OR WRITABLE OR NO_EXECUTE"
    using recursive_flags by (simp_all add: entry_set_pointed entry_set_flags)
  then have n: "next_table demo_vm 5 511 = Some 5"
    using recursive_flags by (simp add: next_table_view demo_vm_def demo_p4_def entry_view_def)
  then have "tbl demo_vm [511, 511] = Some 5" by (simp add: tbl_def demo_p4_frame)
  then show ?thesis
    using n by (intro recursive_slot_reaches_tables) (simp_all add: slot_values(1) demo_p4_frame)
qed

subsection \<open>New address spaces\<close>

lemma kvm_ok_put:
  assumes "kvm_ok R m" "t \<in> R"
  shows "kvm_ok R (put_table m t tab)" "mapping (put_table m t tab) = mapping m"
  using assms put_elsewhere [of "2 ^ 40" "recycle_avail bump_avail (vm_alloc m) \<union> R" m t, where tab = tab]
  by (auto simp: vm_ok_def)

text \<open>C21: a new address space: building the top-level table through a temporary page returns, leaves
  the mappings of the active address space as they were (the temporary page is unmapped again), and
  the new table maps nothing, is well formed, and has its recursive slot point to itself.\<close>

theorem inactive_table_is_empty:
  assumes ok: "kvm_ok R m" and frame: "frame \<in> R" "frame < 2 ^ 40"
    and tmp: "p4_index tmp \<noteq> 511" "mapping m (tmp mod 2 ^ 36) = None" "no_huge m tmp"
    and sup: "supplies kalloc 3 (vm_alloc m)"
  shows "\<exists>m'. inactive_new kalloc kdealloc m frame tmp = Some m' \<and> kvm_ok R m' \<and>
    vm_p4 m' = vm_p4 m \<and> mapping m' = mapping m \<and> (\<forall>f \<in> R - {frame}. vm_tables m' f = vm_tables m f) \<and>
    kvm_ok (R - {frame}) (m'\<lparr>vm_p4 := frame\<rparr>) \<and> mapping (m'\<lparr>vm_p4 := frame\<rparr>) = (\<lambda>_. None) \<and>
    next_table m' frame RECURSIVE_PAGE_PML4 = Some frame"
proof -
  define fl where "fl = PRESENT OR WRITABLE OR NO_EXECUTE"
  have flo: "flags_ok fl" "bit fl 0" "\<not> bit fl 7" using recursive_flags by (simp_all add: fl_def)
  obtain m1 where m1: "map_to kalloc m tmp frame fl = Some m1"
    using kmap.map_to_returns [OF ok tmp sup, of frame fl] by auto
  note s1 = kmap.map_to_spec [OF ok tmp(1) frame(2) flo(1) m1]
  have tr: "translate_page m tmp = None" "translate_page m1 tmp = Some frame"
    using tmp(1,2) s1 by (simp_all add: translate_page_mapping)
  define tab where "tab = zero_table[511 := entry_set (zero_table ! 511) frame fl]"
  define m2 where "m2 = put_table m1 frame tab"
  have s2: "kvm_ok R m2" "mapping m2 = mapping m1" using kvm_ok_put [OF _ frame(1)] s1 by (auto simp: m2_def)
  have "mapping m2 (tmp mod 2 ^ 36) = Some (frame, fl OR PRESENT)" using s1 s2 by simp
  then obtain m3 where m3: "unmap_inner kdealloc m2 tmp True = Some (m3, frame)" "kvm_ok R m3"
    "same_on R m2 m3" "mapping m3 = (mapping m2)(tmp mod 2 ^ 36 := None)"
    using kmap.unmap_inner_spec [OF s2(1) tmp(1), of True] by auto
  have run: "inactive_new kalloc kdealloc m frame tmp = Some m3"
    using m1 tr m3(1)
    by (simp add: inactive_new_def temporary_map_def temporary_unmap_def unmap_return_def Let_def fl_def
        m2_def tab_def slot_values(1))
  have t3: "vm_tables m3 frame = tab" using m3(3) frame(1) by (simp add: same_on_def m2_def)
  have "entry_view (tab ! 511) = Some (frame, fl)" using flo frame(2) by (simp add: tab_def entry_set_view)
  then have rec: "next_table m3 frame RECURSIVE_PAGE_PML4 = Some frame"
    using flo(3) t3 by (simp add: next_table_view slot_values(1))
  define n where "n = m3\<lparr>vm_p4 := frame\<rparr>"
  have "length (vm_tables n (vm_p4 n)) = 512" "\<forall>i < 511. vm_tables n (vm_p4 n) ! i = 0"
    using t3 by (simp_all add: n_def tab_def)
  note e = empty_vm [OF this]
  have g: "recycle_inv (2 ^ 40) bump_inv bump_avail (vm_alloc m3)"
    "recycle_avail bump_avail (vm_alloc m3) \<inter> R = {}" using m3(2) by (auto simp: vm_ok_def)
  have "frame \<notin> recycle_avail bump_avail (vm_alloc m3) \<union> (R - {frame})" using g(2) frame(1) by auto
  then have "kvm_ok (R - {frame}) n" using e(1) g by (auto simp: vm_ok_def n_def)
  moreover have "mapping m3 = mapping m" using m3(4) s2(2) s1 tmp(2) by auto
  ultimately show ?thesis
    using run m3(2,3) rec e(2) [of "{}"] s1 by (auto simp: n_def same_on_def m2_def)
qed

theorem inactive_table_is_empty_witness:
  "\<exists>m'. inactive_new kalloc kdealloc demo_vm 7 3 = Some m' \<and> mapping m' = (\<lambda>_. None) \<and>
     mapping (m'\<lparr>vm_p4 := 7\<rparr>) = (\<lambda>_. None) \<and> next_table m' 7 511 = Some 7"
proof -
  have "vm_alloc demo_vm = demo_frames 260" by (simp add: demo_vm_def)
  then show ?thesis
    using inactive_table_is_empty [OF demo_vm_ok _ _ demo_page _ demo_no_huge [OF demo_page], of 7]
      demo_vm_empty demo_supplies by (auto simp: slot_values(1))
qed

end
