(* ===== verification/Aml_Values.thy ===== *)
theory Aml_Values
  imports Prelude
begin

text \<open>
  Values of the AML interpreter, kernel/src/acpi/aml/namespace.rs: the value type with its
  conversions, and the resolution of names against a scope.

  A computation of the interpreter has an outcome: a value, an error of the interpreter, a panic, or
  no return at all (a spin lock that is never released, or a loop that never ends).  A Rust String
  is the list of its UTF-8 bytes.
\<close>

subsection \<open>Data\<close>

type_synonym rstring = bytes
type_synonym sdt_signature = "rstring \<times> bytes \<times> bytes"

definition str :: "string \<Rightarrow> rstring" where
  "str s = map of_char s"

datatype region_space = SystemMemory | SystemIO | PCIConfig | EmbeddedControl | SMBus | SystemCMOS
  | PciBarTarget | IPMI | GeneralPurposeIO | GenericSerialBus | UserDefined "8 word"

datatype access_attrib = AttribBytes "8 word" | AttribRawBytes "8 word" | AttribRawProcessBytes "8 word"
  | AttribQuick | AttribSendReceive | AttribByte | AttribWord | AttribBlock | AttribProcessCall
  | AttribBlockProcessCall

datatype access_type = AnyAcc | ByteAcc | WordAcc | DWordAcc | QWordAcc | BufferAcc access_attrib

datatype update_rule = Preserve | WriteAsOnes | WriteAsZeros

record field_flags =
  ff_access_type :: access_type
  ff_lock_rule :: bool
  ff_update_rule :: update_rule

record aml_method =
  arg_count :: "8 word"
  serialized :: bool
  m_sync_level :: "8 word"
  term_list :: bytes

text \<open>Callbacks are numbers; devices start without any.\<close>

type_synonym notify_methods = "(8 word \<times> nat list) list"

record device =
  dev_obj_list :: "rstring list"
  dev_notify_methods :: notify_methods

record thermal_zone =
  tz_obj_list :: "rstring list"
  tz_notify_methods :: notify_methods

record processor =
  proc_id :: "8 word"
  p_blk :: "32 word option"
  proc_obj_list :: "rstring list"
  proc_notify_methods :: notify_methods

record power_resource =
  system_level :: "8 word"
  resource_order :: "16 word"
  pr_obj_list :: "rstring list"

text \<open>The accessor of a region: the code only has the one that reads 0 and writes nothing.\<close>

datatype accessor = NullAccessor

text \<open>The types that hold values, for any type of values, and the values themselves.\<close>

datatype 'v field_selector =
    Region rstring
  | Bank rstring rstring 'v
  | IndexSel rstring rstring

datatype 'v object_reference =
    ArgObj "8 word"
  | LocalObj "8 word"
  | Object rstring
  | Index 'v 'v

datatype 'v buffer_field = MkBufferField (source_buf: 'v) (bf_index: 'v) (bf_length: 'v)

datatype 'v field_unit = MkFieldUnit "'v field_selector" 'v field_flags nat nat

datatype 'v operation_region =
    MkOperationRegion region_space 'v 'v accessor (accessed_by: "64 word option")

datatype aml_value =
    VNone
  | Uninitialized
  | Alias rstring
  | Buffer bytes
  | BufferField "aml_value buffer_field"
  | DDBHandle "rstring list" sdt_signature
  | DebugObject
  | Device device
  | Event "64 word"
  | FieldUnit "aml_value field_unit"
  | Integer "64 word"
  | IntegerConstant "64 word"
  | Method aml_method
  | Mutex "8 word" "64 word option"
  | ObjectReference "aml_value object_reference"
  | OperationRegion "aml_value operation_region"
  | Package "aml_value list"
  | VString rstring
  | PowerResource power_resource
  | Processor processor
  | RawDataBuffer bytes
  | ThermalZone thermal_zone

datatype aml_error =
    AmlParseError string
  | AmlInvalidOpCode
  | AmlValueError
  | AmlDeferredLoad
  | AmlFatalError "8 word" "16 word" aml_value
  | AmlHardFatal

datatype 'a outcome = Ok 'a | Err aml_error | Panic | Hang

fun obind :: "'a outcome \<Rightarrow> ('a \<Rightarrow> 'b outcome) \<Rightarrow> 'b outcome" where
  "obind (Ok a) f = f a"
| "obind (Err e) f = Err e"
| "obind Panic f = Panic"
| "obind Hang f = Hang"

subsection \<open>Strings\<close>

definition char_boundary :: "rstring \<Rightarrow> nat \<Rightarrow> bool" where
  "char_boundary s i \<longleftrightarrow> i = 0 \<or> i = length s \<or> i < length s \<and> \<not> utf8_cont (s ! i)"

function hex_digits :: "nat \<Rightarrow> rstring" where
  "hex_digits n =
    (let d = n mod 16; c = (if d < 10 then of_nat (48 + d) else of_nat (55 + d)) in
     if n < 16 then [c] else hex_digits (n div 16) @ [c])"
  by pat_completeness auto
termination by (relation "measure id") auto

function dec_digits :: "nat \<Rightarrow> rstring" where
  "dec_digits n = (if n < 10 then [of_nat (48 + n)] else dec_digits (n div 10) @ [of_nat (48 + n mod 10)])"
  by pat_completeness auto
termination by (relation "measure id") auto

text \<open>
  The upper-case version of a string, as far as the hexadecimal digits at its start depend on it:
  an ASCII letter gives its capital; the ligatures ff, fi, fl, ffi, ffl and the letter a with right
  half ring give more than one character; no other character outside ASCII has a capital that
  starts with an ASCII digit or a letter from A to F, and 0x80 stands for those.
\<close>

fun upper_chars :: "rstring \<Rightarrow> byte list" where
  "upper_chars [] = []"
| "upper_chars (a # r) =
    (if a < 0x80 then (if 0x61 \<le> a \<and> a \<le> 0x7A then a - 0x20 else a) # upper_chars r
     else case r of
       b # c # r' \<Rightarrow>
         if a = 0xEF \<and> b = 0xAC \<and> c = 0x80 then 0x46 # 0x46 # upper_chars r'
         else if a = 0xEF \<and> b = 0xAC \<and> c = 0x81 then [0x46, 0x49]
         else if a = 0xEF \<and> b = 0xAC \<and> c = 0x82 then [0x46, 0x4C]
         else if a = 0xEF \<and> b = 0xAC \<and> c = 0x83 then [0x46, 0x46, 0x49]
         else if a = 0xEF \<and> b = 0xAC \<and> c = 0x84 then [0x46, 0x46, 0x4C]
         else if a = 0xE1 \<and> b = 0xBA \<and> c = 0x9A then [0x41, 0x80]
         else [0x80]
     | _ \<Rightarrow> [0x80])"

definition hex_digit :: "byte \<Rightarrow> 64 word option" where
  "hex_digit c =
    (if 0x30 \<le> c \<and> c \<le> 0x39 then Some (ucast (c - 0x30))
     else if 0x41 \<le> c \<and> c \<le> 0x46 then Some (ucast (c - 55))
     else None)"

fun hex_value :: "64 word \<Rightarrow> byte list \<Rightarrow> 64 word" where
  "hex_value i [] = i"
| "hex_value i (c # cs) =
    (case hex_digit c of None \<Rightarrow> i | Some d \<Rightarrow> hex_value (push_bit 8 i + d) cs)"

subsection \<open>Conversions\<close>

definition get_type_string :: "aml_value \<Rightarrow> rstring" where
  "get_type_string v = str (case v of
      Uninitialized \<Rightarrow> ''[Uninitialized Object]''
    | Integer _ \<Rightarrow> ''[Integer]''
    | VString _ \<Rightarrow> ''[String]''
    | Buffer _ \<Rightarrow> ''[Buffer]''
    | Package _ \<Rightarrow> ''[Package]''
    | FieldUnit _ \<Rightarrow> ''[Field]''
    | Device _ \<Rightarrow> ''[Device]''
    | Event _ \<Rightarrow> ''[Event]''
    | Method _ \<Rightarrow> ''[Control Method]''
    | Mutex _ _ \<Rightarrow> ''[Mutex]''
    | OperationRegion _ \<Rightarrow> ''[Operation Region]''
    | PowerResource _ \<Rightarrow> ''[Power Resource]''
    | Processor _ \<Rightarrow> ''[Processor]''
    | ThermalZone _ \<Rightarrow> ''[Thermal Zone]''
    | BufferField _ \<Rightarrow> ''[Buffer Field]''
    | DDBHandle _ _ \<Rightarrow> ''[DDB Handle]''
    | DebugObject \<Rightarrow> ''[Debug Object]''
    | _ \<Rightarrow> '''')"

text \<open>The list of loaded tables, SDT\_ORDER, is an argument of the conversions that use it.\<close>

type_synonym sdt_order = "sdt_signature list option"

definition get_signature_from_index :: "sdt_order \<Rightarrow> nat \<Rightarrow> sdt_signature option" where
  "get_signature_from_index order i =
    (case order of Some o' \<Rightarrow> if i < length o' then Some (o' ! i) else None | None \<Rightarrow> None)"

fun last_index :: "sdt_signature \<Rightarrow> sdt_signature list \<Rightarrow> nat \<Rightarrow> nat option" where
  "last_index sig os 0 = None"
| "last_index sig os (Suc i) = (if os ! i = sig then Some i else last_index sig os i)"

definition get_index_from_signature :: "sdt_order \<Rightarrow> sdt_signature \<Rightarrow> nat option" where
  "get_index_from_signature order sig =
    (case order of Some o' \<Rightarrow> last_index sig o' (length o') | None \<Rightarrow> None)"

text \<open>The loops that build the bytes of an integer and the integer of some bytes.\<close>

function push_bytes :: "nat \<Rightarrow> bytes" where
  "push_bytes i = (if i = 0 then [] else of_nat (i mod 256) # push_bytes (i div 256))"
  by pat_completeness auto
termination by (relation "measure id") auto

definition integer_bytes :: "64 word \<Rightarrow> bytes" where
  "integer_bytes i = (let v = push_bytes (unat i) in v @ replicate (8 - length v) 0)"

definition pop_bytes :: "bytes \<Rightarrow> 64 word" where
  "pop_bytes b = foldl (\<lambda>i x. push_bit 8 i + ucast x) 0 (rev b)"

function (sequential) get_as_buffer :: "sdt_order \<Rightarrow> aml_value \<Rightarrow> bytes outcome"
  and get_as_integer :: "sdt_order \<Rightarrow> aml_value \<Rightarrow> 64 word outcome" where
  "get_as_buffer order (Buffer b) = Ok b"
| "get_as_buffer order (Integer i) = Ok (integer_bytes i)"
| "get_as_buffer order (VString s) = Ok s"
| "get_as_buffer order (BufferField (MkBufferField src ix ln)) =
    obind (get_as_buffer order src) (\<lambda>buf.
    obind (get_as_integer order ix) (\<lambda>idx.
    obind (get_as_integer order ln) (\<lambda>len.
    let e = uadd (unat idx) (unat len) in
    if e > length buf then Err AmlValueError
    else if unat idx > e then Panic
    else Ok (take (e - unat idx) (drop (unat idx) buf)))))"
| "get_as_buffer order v = Err AmlValueError"
| "get_as_integer order (IntegerConstant i) = Ok i"
| "get_as_integer order (Integer i) = Ok i"
| "get_as_integer order (Buffer b) = (if length b > 8 then Err AmlValueError else Ok (pop_bytes b))"
| "get_as_integer order (BufferField bf) =
    obind (get_as_buffer order (BufferField bf)) (\<lambda>b.
    if length b > 8 then Err AmlValueError else Ok (pop_bytes b))"
| "get_as_integer order (DDBHandle d sig) =
    (case get_index_from_signature order sig of Some i \<Rightarrow> Ok (of_nat i) | None \<Rightarrow> Err AmlValueError)"
| "get_as_integer order (VString s) =
    (if 8 \<le> length s \<and> char_boundary s 8 then Ok (hex_value 0 (upper_chars (take 8 s))) else Panic)"
| "get_as_integer order v = Err AmlValueError"
  by pat_completeness auto
termination
  by (relation "measure (\<lambda>x. case x of Inl (order, v) \<Rightarrow> 2 * size v | Inr (order, v) \<Rightarrow> Suc (2 * size v))") auto

declare hex_digits.simps [simp del] dec_digits.simps [simp del] push_bytes.simps [simp del]

definition get_as_buffer_field :: "sdt_order \<Rightarrow> aml_value \<Rightarrow> aml_value buffer_field outcome" where
  "get_as_buffer_field order v =
    (case v of BufferField b \<Rightarrow> Ok b
     | _ \<Rightarrow> obind (get_as_buffer order v) (\<lambda>raw.
         Ok (MkBufferField (Buffer raw) (IntegerConstant 0) (Integer (of_nat (length raw))))))"

definition get_as_ddb_handle :: "sdt_order \<Rightarrow> aml_value \<Rightarrow> (rstring list \<times> sdt_signature) outcome" where
  "get_as_ddb_handle order v =
    (case v of DDBHandle d sig \<Rightarrow> Ok (d, sig)
     | Integer i \<Rightarrow>
         (case get_signature_from_index order (unat i) of
            Some sig \<Rightarrow> Ok ([], sig)
          | None \<Rightarrow> Err AmlValueError)
     | _ \<Rightarrow> Err AmlValueError)"

definition get_as_device :: "aml_value \<Rightarrow> device outcome" where
  "get_as_device v = (case v of Device d \<Rightarrow> Ok d | _ \<Rightarrow> Err AmlValueError)"

definition get_as_event :: "aml_value \<Rightarrow> 64 word outcome" where
  "get_as_event v = (case v of Event e \<Rightarrow> Ok e | _ \<Rightarrow> Err AmlValueError)"

definition get_as_field_unit :: "aml_value \<Rightarrow> aml_value field_unit outcome" where
  "get_as_field_unit v = (case v of FieldUnit e \<Rightarrow> Ok e | _ \<Rightarrow> Err AmlValueError)"

definition get_as_integer_constant :: "aml_value \<Rightarrow> 64 word outcome" where
  "get_as_integer_constant v = (case v of IntegerConstant i \<Rightarrow> Ok i | _ \<Rightarrow> Err AmlValueError)"

definition get_as_method :: "aml_value \<Rightarrow> aml_method outcome" where
  "get_as_method v = (case v of Method m \<Rightarrow> Ok m | _ \<Rightarrow> Err AmlValueError)"

definition get_as_mutex :: "aml_value \<Rightarrow> (8 word \<times> 64 word option) outcome" where
  "get_as_mutex v = (case v of Mutex l ow \<Rightarrow> Ok (l, ow) | _ \<Rightarrow> Err AmlValueError)"

definition get_as_object_reference :: "aml_value \<Rightarrow> aml_value object_reference outcome" where
  "get_as_object_reference v = (case v of ObjectReference r \<Rightarrow> Ok r | _ \<Rightarrow> Err AmlValueError)"

definition get_as_package :: "aml_value \<Rightarrow> aml_value list outcome" where
  "get_as_package v = (case v of Package p \<Rightarrow> Ok p | _ \<Rightarrow> Err AmlValueError)"

definition expect_utf8 :: "bytes \<Rightarrow> rstring outcome" where
  "expect_utf8 b = (case from_utf8 b of Some s \<Rightarrow> Ok s | None \<Rightarrow> Panic)"

definition get_as_string :: "sdt_order \<Rightarrow> aml_value \<Rightarrow> rstring outcome" where
  "get_as_string order v =
    (case v of VString s \<Rightarrow> Ok s
     | Integer i \<Rightarrow> Ok (hex_digits (unat i))
     | IntegerConstant i \<Rightarrow> Ok (hex_digits (unat i))
     | Buffer b \<Rightarrow> expect_utf8 b
     | BufferField _ \<Rightarrow> obind (get_as_buffer order v) expect_utf8
     | _ \<Rightarrow> Err AmlValueError)"

definition get_as_power_resource :: "aml_value \<Rightarrow> power_resource outcome" where
  "get_as_power_resource v = (case v of PowerResource p \<Rightarrow> Ok p | _ \<Rightarrow> Err AmlValueError)"

definition get_as_processor :: "aml_value \<Rightarrow> processor outcome" where
  "get_as_processor v = (case v of Processor p \<Rightarrow> Ok p | _ \<Rightarrow> Err AmlValueError)"

definition get_as_raw_data_buffer :: "aml_value \<Rightarrow> bytes outcome" where
  "get_as_raw_data_buffer v = (case v of RawDataBuffer p \<Rightarrow> Ok p | _ \<Rightarrow> Err AmlValueError)"

definition get_as_thermal_zone :: "aml_value \<Rightarrow> thermal_zone outcome" where
  "get_as_thermal_zone v = (case v of ThermalZone p \<Rightarrow> Ok p | _ \<Rightarrow> Err AmlValueError)"

text \<open>The value \<open>v\<close> converted to the type of \<open>t\<close>.\<close>

definition omap :: "('a \<Rightarrow> 'b) \<Rightarrow> 'a outcome \<Rightarrow> 'b outcome" where
  "omap f r = obind r (\<lambda>a. Ok (f a))"

definition get_as_type :: "sdt_order \<Rightarrow> aml_value \<Rightarrow> aml_value \<Rightarrow> aml_value outcome" where
  "get_as_type order v t =
    (case t of
       VNone \<Rightarrow> Ok VNone
     | Uninitialized \<Rightarrow> Ok v
     | Alias _ \<Rightarrow> (case v of Alias _ \<Rightarrow> Ok v | _ \<Rightarrow> Err AmlValueError)
     | Buffer _ \<Rightarrow> omap Buffer (get_as_buffer order v)
     | BufferField _ \<Rightarrow> omap BufferField (get_as_buffer_field order v)
     | DDBHandle _ _ \<Rightarrow> omap (\<lambda>(d, sig). DDBHandle d sig) (get_as_ddb_handle order v)
     | DebugObject \<Rightarrow> (case v of DebugObject \<Rightarrow> Ok v | _ \<Rightarrow> Err AmlValueError)
     | Device _ \<Rightarrow> omap Device (get_as_device v)
     | Event _ \<Rightarrow> omap Event (get_as_event v)
     | FieldUnit _ \<Rightarrow> omap FieldUnit (get_as_field_unit v)
     | Integer _ \<Rightarrow> omap Integer (get_as_integer order v)
     | IntegerConstant _ \<Rightarrow> omap IntegerConstant (get_as_integer_constant v)
     | Method _ \<Rightarrow> omap Method (get_as_method v)
     | Mutex _ _ \<Rightarrow> omap (\<lambda>(l, ow). Mutex l ow) (get_as_mutex v)
     | ObjectReference _ \<Rightarrow> omap ObjectReference (get_as_object_reference v)
     | OperationRegion _ \<Rightarrow> (case v of OperationRegion _ \<Rightarrow> Ok v | _ \<Rightarrow> Err AmlValueError)
     | Package _ \<Rightarrow> omap Package (get_as_package v)
     | VString _ \<Rightarrow> omap VString (get_as_string order v)
     | PowerResource _ \<Rightarrow> omap PowerResource (get_as_power_resource v)
     | Processor _ \<Rightarrow> omap Processor (get_as_processor v)
     | RawDataBuffer _ \<Rightarrow> omap RawDataBuffer (get_as_raw_data_buffer v)
     | ThermalZone _ \<Rightarrow> omap ThermalZone (get_as_thermal_zone v))"

subsection \<open>Names\<close>

definition ends_with :: "rstring \<Rightarrow> byte \<Rightarrow> bool" where
  "ends_with s c \<longleftrightarrow> s \<noteq> [] \<and> last s = c"

text \<open>Pop characters until one dot is gone; None when the string runs empty.  Dropping bytes and
  dropping characters stop at the same dot, since no byte of a longer character is a dot.\<close>

fun climb_rev :: "rstring \<Rightarrow> rstring option" where
  "climb_rev [] = None"
| "climb_rev (c # s) = (if c = 0x2E then Some s else climb_rev s)"

definition climb :: "rstring \<Rightarrow> rstring option" where
  "climb s = map_option rev (climb_rev (rev s))"

fun strip_carets :: "rstring \<Rightarrow> rstring \<Rightarrow> (rstring \<times> rstring) outcome" where
  "strip_carets ns [] = Ok (ns, [])"
| "strip_carets ns (c # m) =
    (if c = 0x5E then
       if ends_with ns 0x5C then Err AmlValueError
       else case climb ns of None \<Rightarrow> Err AmlValueError | Some ns' \<Rightarrow> strip_carets ns' m
     else Ok (ns, c # m))"

definition get_namespace_string :: "sdt_order \<Rightarrow> rstring \<Rightarrow> aml_value \<Rightarrow> rstring outcome" where
  "get_namespace_string order current modifier_v =
    obind (get_as_string order modifier_v) (\<lambda>modifier.
    if current = [] then Ok modifier
    else if modifier = [] then Ok current
    else if hd modifier = 0x5C then Ok modifier
    else obind (strip_carets current modifier) (\<lambda>(ns, modifier).
      Ok ((if ends_with ns 0x5C then ns else ns @ [0x2E]) @ modifier)))"

end
