(* ===== verification/Aml_Context.thy ===== *)
theory Aml_Context
  imports Aml_Values
begin

text \<open>
  The execution context of the AML interpreter, kernel/src/acpi/aml/parser.rs, over the global
  tables of kernel/src/acpi/mod.rs.

  A computation is a function of the state; errors keep the effects that came before them.  The
  namespace is behind a spin lock that is not reentrant: while a guard is held (\<open>ns_locked\<close>), taking
  the lock again never returns.  \<open>modify\<close> can call itself through buffer fields without bound; its
  recursive call is the argument \<open>md\<close>, tied later with fuel.
\<close>

datatype exec_state = EXECUTING | CONTINUE | BREAK | RETURN aml_value

record aml_ctx =
  scope :: rstring
  local_vars :: "aml_value list"
  arg_vars :: "aml_value list"
  exec :: exec_state
  namespace_delta :: "rstring list"
  ctx_id :: "64 word"
  sync_level :: "8 word"

record sdt =
  sdt_signature_bytes :: bytes
  sdt_oem_id :: bytes
  sdt_oem_table_id :: bytes
  sdt_data :: bytes

type_synonym namespace = "rstring \<rightharpoonup> aml_value"

record aml_world =
  acpi_namespace :: "namespace option"
  ns_locked :: bool
  next_ctx :: "64 word"
  sdt_order :: sdt_order
  sdt_pointers :: "(sdt_signature \<times> sdt) list option"
  clock :: "nat \<Rightarrow> 64 word \<times> 64 word"
  ticks :: nat
  notified :: "nat list"
  cur :: aml_ctx

type_synonym 'a aml = "aml_world \<Rightarrow> 'a outcome \<times> aml_world"

subsection \<open>Computations\<close>

definition ret :: "'a \<Rightarrow> 'a aml" where "ret a = (\<lambda>s. (Ok a, s))"
definition fail :: "aml_error \<Rightarrow> 'a aml" where "fail e = (\<lambda>s. (Err e, s))"
definition panics :: "'a aml" where "panics = (\<lambda>s. (Panic, s))"
definition hangs :: "'a aml" where "hangs = (\<lambda>s. (Hang, s))"
definition lift :: "'a outcome \<Rightarrow> 'a aml" where "lift r = (\<lambda>s. (r, s))"
definition gets :: "(aml_world \<Rightarrow> 'a) \<Rightarrow> 'a aml" where "gets f = (\<lambda>s. (Ok (f s), s))"
definition update :: "(aml_world \<Rightarrow> aml_world) \<Rightarrow> unit aml" where "update f = (\<lambda>s. (Ok (), f s))"

definition bnd :: "'a aml \<Rightarrow> ('a \<Rightarrow> 'b aml) \<Rightarrow> 'b aml" where
  "bnd m f = (\<lambda>s. case m s of
      (Ok a, s') \<Rightarrow> f a s'
    | (Err e, s') \<Rightarrow> (Err e, s')
    | (Panic, s') \<Rightarrow> (Panic, s')
    | (Hang, s') \<Rightarrow> (Hang, s'))"

text \<open>\<open>attempt\<close> makes the Result of a call a value, for code that inspects it; \<open>ignore\<close> is a
  discarded Result.\<close>

definition attempt :: "'a aml \<Rightarrow> (aml_error + 'a) aml" where
  "attempt m = (\<lambda>s. case m s of
      (Ok a, s') \<Rightarrow> (Ok (Inr a), s')
    | (Err e, s') \<Rightarrow> (Ok (Inl e), s')
    | (Panic, s') \<Rightarrow> (Panic, s')
    | (Hang, s') \<Rightarrow> (Hang, s'))"

definition ignore :: "'a aml \<Rightarrow> unit aml" where
  "ignore m = bnd (attempt m) (\<lambda>_. ret ())"

definition lock_ns :: "unit aml" where
  "lock_ns = (\<lambda>s. if ns_locked s then (Hang, s) else (Ok (), s))"

text \<open>Run \<open>m\<close> while holding the write guard of the namespace.\<close>

definition holding :: "'a aml \<Rightarrow> 'a aml" where
  "holding m = (\<lambda>s. if ns_locked s then (Hang, s)
     else (case m (s\<lparr>ns_locked := True\<rparr>) of (r, s') \<Rightarrow> (r, s'\<lparr>ns_locked := False\<rparr>)))"

definition put_ns :: "namespace \<Rightarrow> unit aml" where
  "put_ns n = update (\<lambda>s. s\<lparr>acpi_namespace := Some n\<rparr>)"

definition upd_ctx :: "(aml_ctx \<Rightarrow> aml_ctx) \<Rightarrow> unit aml" where
  "upd_ctx f = update (\<lambda>s. s\<lparr>cur := f (cur s)\<rparr>)"

definition as_integer :: "aml_value \<Rightarrow> 64 word aml" where
  "as_integer v = (\<lambda>s. (get_as_integer (sdt_order s) v, s))"

definition as_buffer :: "aml_value \<Rightarrow> bytes aml" where
  "as_buffer v = (\<lambda>s. (get_as_buffer (sdt_order s) v, s))"

definition as_string :: "aml_value \<Rightarrow> rstring aml" where
  "as_string v = (\<lambda>s. (get_as_string (sdt_order s) v, s))"

text \<open>Element \<open>i\<close> of a vector, and a vector with element \<open>i\<close> replaced; out of range is a panic.\<close>

definition elem :: "'a list \<Rightarrow> nat \<Rightarrow> 'a aml" where
  "elem xs i = (if i < length xs then ret (xs ! i) else panics)"

definition set_elem :: "'a list \<Rightarrow> nat \<Rightarrow> 'a \<Rightarrow> 'a list aml" where
  "set_elem xs i v = (if i < length xs then ret (xs[i := v]) else panics)"

subsection \<open>Contexts\<close>

definition new_ctx :: "rstring \<Rightarrow> aml_ctx aml" where
  "new_ctx sc = (\<lambda>s. (Ok \<lparr> scope = sc, local_vars = replicate 8 Uninitialized,
      arg_vars = replicate 8 Uninitialized, exec = EXECUTING, namespace_delta = [],
      ctx_id = next_ctx s, sync_level = 0 \<rparr>, s\<lparr>next_ctx := next_ctx s + 1\<rparr>))"

text \<open>Run \<open>m\<close> in another context; the result comes with the context as \<open>m\<close> left it.\<close>

definition in_ctx :: "aml_ctx \<Rightarrow> 'a aml \<Rightarrow> ('a \<times> aml_ctx) aml" where
  "in_ctx c m = (\<lambda>s. case m (s\<lparr>cur := c\<rparr>) of
      (Ok a, s') \<Rightarrow> (Ok (a, cur s'), s'\<lparr>cur := cur s\<rparr>)
    | (Err e, s') \<Rightarrow> (Err e, s'\<lparr>cur := cur s\<rparr>)
    | (Panic, s') \<Rightarrow> (Panic, s')
    | (Hang, s') \<Rightarrow> (Hang, s'))"

definition object_name :: "aml_value \<Rightarrow> rstring outcome" where
  "object_name v =
    (case v of VString s \<Rightarrow> Ok s
     | ObjectReference (Object s) \<Rightarrow> Ok s
     | _ \<Rightarrow> Err AmlValueError)"

text \<open>Take the lock, find the object, and go on with the namespace, the name and the object.\<close>

definition find_object :: "aml_value \<Rightarrow> (namespace \<Rightarrow> rstring \<Rightarrow> aml_value \<Rightarrow> 'a aml) \<Rightarrow> 'a aml" where
  "find_object ptr f =
    bnd lock_ns (\<lambda>_.
    bnd (gets acpi_namespace) (\<lambda>ns. case ns of
        None \<Rightarrow> fail AmlHardFatal
      | Some n \<Rightarrow>
          bnd (lift (object_name ptr)) (\<lambda>idx. case n idx of
              None \<Rightarrow> fail AmlValueError
            | Some v \<Rightarrow> f n idx v)))"

definition wait_for_event :: "aml_value \<Rightarrow> bool aml" where
  "wait_for_event event_ptr = find_object event_ptr (\<lambda>n idx v. case v of
      Event count \<Rightarrow>
        if count > 0 then bnd (put_ns (n(idx \<mapsto> Event (count - 1)))) (\<lambda>_. ret True) else ret False
    | _ \<Rightarrow> fail AmlValueError)"

definition signal_event :: "aml_value \<Rightarrow> unit aml" where
  "signal_event event_ptr = find_object event_ptr (\<lambda>n idx v. case v of
      Event count \<Rightarrow> put_ns (n(idx \<mapsto> Event (count + 1)))
    | _ \<Rightarrow> fail AmlValueError)"

definition set_accessed_by :: "aml_value operation_region \<Rightarrow> 64 word option \<Rightarrow> aml_value operation_region" where
  "set_accessed_by r ow = (case r of MkOperationRegion sp off len acc _ \<Rightarrow> MkOperationRegion sp off len acc ow)"

definition release_mutex :: "aml_value \<Rightarrow> unit aml" where
  "release_mutex mutex_ptr =
    bnd (gets cur) (\<lambda>c. find_object mutex_ptr (\<lambda>n idx v. case v of
      Mutex level owner \<Rightarrow>
        (case owner of
           Some ow \<Rightarrow>
             if ow = ctx_id c then
               if level = sync_level c then put_ns (n(idx \<mapsto> Mutex level None)) else fail AmlValueError
             else fail AmlHardFatal
         | None \<Rightarrow> ret ())
    | OperationRegion r \<Rightarrow>
        (case accessed_by r of
           Some ow \<Rightarrow>
             if ow = ctx_id c then put_ns (n(idx \<mapsto> OperationRegion (set_accessed_by r None)))
             else fail AmlHardFatal
         | None \<Rightarrow> ret ())
    | _ \<Rightarrow> fail AmlValueError))"

definition acquire_mutex :: "aml_value \<Rightarrow> bool aml" where
  "acquire_mutex mutex_ptr =
    bnd (gets cur) (\<lambda>c. find_object mutex_ptr (\<lambda>n idx v. case v of
      Mutex level owner \<Rightarrow>
        if owner = None then
          if level < sync_level c then fail AmlValueError
          else bnd (put_ns (n(idx \<mapsto> Mutex level (Some (ctx_id c))))) (\<lambda>_.
               bnd (upd_ctx (\<lambda>c. c\<lparr>sync_level := level\<rparr>)) (\<lambda>_. ret True))
        else ret False
    | OperationRegion r \<Rightarrow>
        if accessed_by r = None then
          bnd (put_ns (n(idx \<mapsto> OperationRegion (set_accessed_by r (Some (ctx_id c)))))) (\<lambda>_. ret True)
        else ret False
    | _ \<Rightarrow> fail AmlValueError))"

definition may_define :: "aml_value option \<Rightarrow> bool" where
  "may_define obj =
    (case obj of
       None \<Rightarrow> True
     | Some Uninitialized \<Rightarrow> True
     | Some (Method m) \<Rightarrow> term_list m = []
     | Some _ \<Rightarrow> False)"

definition add_to_namespace :: "rstring \<Rightarrow> aml_value \<Rightarrow> unit aml" where
  "add_to_namespace name value =
    bnd lock_ns (\<lambda>_.
    bnd (gets acpi_namespace) (\<lambda>ns. case ns of
        None \<Rightarrow> fail AmlValueError
      | Some n \<Rightarrow>
          if may_define (n name) then
            bnd (upd_ctx (\<lambda>c. c\<lparr>namespace_delta := namespace_delta c @ [name]\<rparr>)) (\<lambda>_.
            put_ns (n(name \<mapsto> value)))
          else fail AmlValueError))"

definition clean_namespace :: "unit aml" where
  "clean_namespace =
    bnd lock_ns (\<lambda>_.
    bnd (gets cur) (\<lambda>c.
    bnd (gets acpi_namespace) (\<lambda>ns. case ns of
        None \<Rightarrow> ret ()
      | Some n \<Rightarrow> put_ns (foldl (\<lambda>n k. n(k := None)) n (namespace_delta c)))))"

definition init_arg_vars :: "aml_value list \<Rightarrow> aml_ctx \<Rightarrow> aml_ctx" where
  "init_arg_vars parameters c =
    (if length parameters > 8 then c
     else c\<lparr>arg_vars := parameters @ drop (length parameters) (arg_vars c)\<rparr>)"

subsection \<open>Writing objects\<close>

type_synonym modifier = "aml_value \<Rightarrow> aml_value \<Rightarrow> unit aml"

definition modify_local_obj :: "nat \<Rightarrow> aml_value \<Rightarrow> unit aml" where
  "modify_local_obj local value =
    bnd (gets cur) (\<lambda>c.
    bnd (elem (local_vars c) local) (\<lambda>old.
    bnd (\<lambda>s. (get_as_type (sdt_order s) value old, s)) (\<lambda>v.
    upd_ctx (\<lambda>c. c\<lparr>local_vars := (local_vars c)[local := v]\<rparr>))))"

definition modify_object :: "rstring \<Rightarrow> aml_value \<Rightarrow> unit aml" where
  "modify_object name value =
    bnd lock_ns (\<lambda>_.
    bnd (gets acpi_namespace) (\<lambda>ns. case ns of
        None \<Rightarrow> fail AmlHardFatal
      | Some n \<Rightarrow>
          (let coercion_obj = (case n name of Some v \<Rightarrow> v | None \<Rightarrow> Uninitialized) in
           bnd (\<lambda>s. (get_as_type (sdt_order s) value coercion_obj, s)) (\<lambda>v.
           put_ns (n(name \<mapsto> v))))))"

fun modify_index_core :: "modifier \<Rightarrow> aml_value \<Rightarrow> aml_value \<Rightarrow> 64 word list \<Rightarrow> aml_value aml" where
  "modify_index_core md obj value [] = fail AmlValueError"
| "modify_index_core md obj value (i # indices) =
    (case obj of
       VString string \<Rightarrow>
         if indices \<noteq> [] then fail AmlValueError
         else bnd (as_integer value) (\<lambda>v.
              bnd (set_elem string (unat i) (ucast v)) (\<lambda>b.
              bnd (lift (expect_utf8 b)) (\<lambda>string. ret (VString string))))
     | Buffer b \<Rightarrow>
         if indices \<noteq> [] then fail AmlValueError
         else bnd (as_integer value) (\<lambda>v.
              bnd (set_elem b (unat i) (ucast v)) (\<lambda>b. ret (Buffer b)))
     | BufferField b \<Rightarrow>
         if indices \<noteq> [] then fail AmlValueError
         else bnd (as_integer (bf_index b)) (\<lambda>off.
              bnd (ignore (md (ObjectReference (Index (source_buf b) (Integer (i + off)))) value)) (\<lambda>_.
              ret (BufferField b)))
     | Package p \<Rightarrow>
         if indices = [] then bnd (set_elem p (unat i) value) (\<lambda>p. ret (Package p))
         else bnd (elem p (unat i)) (\<lambda>x.
              bnd (modify_index_core md x value indices) (\<lambda>x'.
              bnd (set_elem p (unat i) x') (\<lambda>p. ret (Package p))))
     | _ \<Rightarrow> fail AmlValueError)"

definition modify_index_final :: "modifier \<Rightarrow> rstring \<Rightarrow> aml_value \<Rightarrow> 64 word list \<Rightarrow> unit aml" where
  "modify_index_final md name value indices = holding
    (bnd (gets acpi_namespace) (\<lambda>ns. case ns of
        None \<Rightarrow> fail AmlValueError
      | Some n \<Rightarrow>
          (case n name of
             None \<Rightarrow> fail AmlValueError
           | Some obj \<Rightarrow>
               bnd (modify_index_core md obj value indices) (\<lambda>obj. put_ns (n(name \<mapsto> obj))))))"

fun modify_index :: "modifier \<Rightarrow> aml_value \<Rightarrow> aml_value \<Rightarrow> 64 word list \<Rightarrow> unit aml" where
  "modify_index md (ObjectReference (Object s)) value indices = modify_index_final md s value indices"
| "modify_index md (ObjectReference (Index c v)) value indices =
    bnd (as_integer v) (\<lambda>i. modify_index md c value (indices @ [i]))"
| "modify_index md (ObjectReference (ArgObj _)) value indices = fail AmlValueError"
| "modify_index md (ObjectReference (LocalObj i)) value indices =
    bnd (gets cur) (\<lambda>c.
    bnd (elem (local_vars c) (unat i)) (\<lambda>v.
    bnd (modify_index_core md v value indices) (\<lambda>v.
    upd_ctx (\<lambda>c. c\<lparr>local_vars := (local_vars c)[unat i := v]\<rparr>))))"
| "modify_index md _ value indices = fail AmlValueError"

definition modify_body :: "modifier \<Rightarrow> modifier" where
  "modify_body md name value =
    (case name of
       ObjectReference r \<Rightarrow>
         (case r of
            ArgObj _ \<Rightarrow> fail AmlValueError
          | LocalObj i \<Rightarrow> modify_local_obj (unat i) value
          | Object s \<Rightarrow> modify_object s value
          | Index c v \<Rightarrow> bnd (as_integer v) (\<lambda>i. modify_index md c value [i]))
     | VString s \<Rightarrow> modify_object s value
     | _ \<Rightarrow> fail AmlValueError)"

definition copy_local_obj :: "nat \<Rightarrow> aml_value \<Rightarrow> unit aml" where
  "copy_local_obj local value =
    bnd (gets cur) (\<lambda>c.
    bnd (set_elem (local_vars c) local value) (\<lambda>vs.
    upd_ctx (\<lambda>c. c\<lparr>local_vars := vs\<rparr>)))"

definition copy_object :: "rstring \<Rightarrow> aml_value \<Rightarrow> unit aml" where
  "copy_object name value =
    bnd lock_ns (\<lambda>_.
    bnd (gets acpi_namespace) (\<lambda>ns. case ns of
        None \<Rightarrow> fail AmlHardFatal
      | Some n \<Rightarrow> put_ns (n(name \<mapsto> value))))"

definition copy_body :: "modifier \<Rightarrow> modifier" where
  "copy_body md name value =
    (case name of
       ObjectReference r \<Rightarrow>
         (case r of
            ArgObj _ \<Rightarrow> fail AmlValueError
          | LocalObj i \<Rightarrow> copy_local_obj (unat i) value
          | Object s \<Rightarrow> copy_object s value
          | Index c v \<Rightarrow> bnd (as_integer v) (\<lambda>i. modify_index md c value [i]))
     | VString s \<Rightarrow> copy_object s value
     | _ \<Rightarrow> fail AmlValueError)"

subsection \<open>Reading objects\<close>

fun get_index_core :: "aml_value \<Rightarrow> 64 word list \<Rightarrow> aml_value aml" where
  "get_index_core obj [] = fail AmlValueError"
| "get_index_core obj (i # indices) =
    (case obj of
       VString string \<Rightarrow>
         if indices \<noteq> [] then fail AmlValueError
         else bnd (elem string (unat i)) (\<lambda>b. ret (Integer (ucast b)))
     | Buffer b \<Rightarrow>
         if indices \<noteq> [] then fail AmlValueError
         else bnd (elem b (unat i)) (\<lambda>b. ret (Integer (ucast b)))
     | BufferField b \<Rightarrow>
         if indices \<noteq> [] then fail AmlValueError
         else bnd (as_integer (bf_index b)) (\<lambda>off.
              bnd (as_buffer (source_buf b)) (\<lambda>src.
              bnd (elem src (unat (i + off))) (\<lambda>b. ret (Integer (ucast b)))))
     | Package p \<Rightarrow>
         bnd (elem p (unat i)) (\<lambda>x. if indices = [] then ret x else get_index_core x indices)
     | _ \<Rightarrow> fail AmlValueError)"

definition get_index_final :: "rstring \<Rightarrow> 64 word list \<Rightarrow> aml_value aml" where
  "get_index_final name indices =
    bnd lock_ns (\<lambda>_.
    bnd (gets acpi_namespace) (\<lambda>ns. case ns of
        None \<Rightarrow> fail AmlValueError
      | Some n \<Rightarrow> (case n name of None \<Rightarrow> fail AmlValueError | Some obj \<Rightarrow> get_index_core obj indices)))"

fun get_index :: "aml_value \<Rightarrow> 64 word list \<Rightarrow> aml_value aml" where
  "get_index (ObjectReference (Object s)) indices = get_index_final s indices"
| "get_index (ObjectReference (Index c v)) indices =
    bnd (as_integer v) (\<lambda>i. get_index c (indices @ [i]))"
| "get_index (ObjectReference (ArgObj _)) indices = fail AmlValueError"
| "get_index (ObjectReference (LocalObj i)) indices =
    bnd (gets cur) (\<lambda>c.
    bnd (elem (local_vars c) (unat i)) (\<lambda>v. get_index_core v indices))"
| "get_index _ indices = fail AmlValueError"

definition get_object :: "rstring \<Rightarrow> aml_value aml" where
  "get_object name =
    bnd lock_ns (\<lambda>_.
    bnd (gets acpi_namespace) (\<lambda>ns. ret (case ns of
        None \<Rightarrow> VNone
      | Some n \<Rightarrow> (case n name of Some v \<Rightarrow> v | None \<Rightarrow> VNone))))"

definition get_value :: "aml_value \<Rightarrow> aml_value aml" where
  "get_value name =
    (case name of
       ObjectReference r \<Rightarrow>
         (case r of
            ArgObj i \<Rightarrow> bnd (gets cur) (\<lambda>c. elem (arg_vars c) (unat i))
          | LocalObj i \<Rightarrow> bnd (gets cur) (\<lambda>c. elem (local_vars c) (unat i))
          | Object s \<Rightarrow> get_object s
          | Index c v \<Rightarrow> bnd (as_integer v) (\<lambda>i. get_index c [i]))
     | VString s \<Rightarrow> get_object s
     | _ \<Rightarrow> ret VNone)"

end
