(* ===== verification/Aml_Names.thy ===== *)
theory Aml_Names
  imports Aml_Context
begin

text \<open>
  Reading package lengths, names and constants off the byte stream: kernel/src/acpi/aml/pkglength.rs,
  namestring.rs and the constants of dataobj.rs.
\<close>

subsection \<open>Bytes\<close>

definition byte_o :: "bytes \<Rightarrow> nat \<Rightarrow> byte outcome" where
  "byte_o data i = (if i < length data then Ok (data ! i) else Panic)"

definition tail_o :: "bytes \<Rightarrow> nat \<Rightarrow> bytes outcome" where
  "tail_o data a = (if a \<le> length data then Ok (drop a data) else Panic)"

definition range_o :: "bytes \<Rightarrow> nat \<Rightarrow> nat \<Rightarrow> bytes outcome" where
  "range_o data a b = (if a \<le> b \<and> b \<le> length data then Ok (take (b - a) (drop a data)) else Panic)"

definition opcode_o :: "bytes \<Rightarrow> byte \<Rightarrow> unit outcome" where
  "opcode_o data c = obind (byte_o data 0) (\<lambda>b. if b \<noteq> c then Err AmlInvalidOpCode else Ok ())"

fun select_o :: "(bytes \<Rightarrow> 'a outcome) list \<Rightarrow> bytes \<Rightarrow> 'a outcome" where
  "select_o [] data = Err AmlInvalidOpCode"
| "select_o (p # ps) data = (case p data of Err AmlInvalidOpCode \<Rightarrow> select_o ps data | r \<Rightarrow> r)"

subsection \<open>Package lengths\<close>

fun pkg_bytes :: "bytes \<Rightarrow> nat \<Rightarrow> nat \<Rightarrow> nat outcome" where
  "pkg_bytes data current 0 = Ok 0"
| "pkg_bytes data current (Suc left) =
    obind (byte_o data (1 + current)) (\<lambda>b.
    obind (pkg_bytes data (Suc current) left) (\<lambda>r.
    Ok ((unat b * 16 * 256 ^ current) mod 2 ^ 32 + r)))"

definition parse_pkg_length :: "bytes \<Rightarrow> (nat \<times> nat) outcome" where
  "parse_pkg_length data =
    obind (byte_o data 0) (\<lambda>lead.
    let count_bytes = unat (drop_bit 6 lead) in
    if count_bytes = 0 then Ok (unat (lead AND 0x3F), 1)
    else if drop_bit 4 lead AND 0x03 \<noteq> 0 then Err (AmlParseError ''Invalid package length'')
    else obind (pkg_bytes data 0 count_bytes) (\<lambda>r.
      Ok (unat (lead AND 0x0F) + r, count_bytes + 1)))"

subsection \<open>Name strings\<close>

definition parse_null_name :: "bytes \<Rightarrow> (bytes \<times> nat) outcome" where
  "parse_null_name data = obind (opcode_o data 0x00) (\<lambda>_. Ok ([], 1))"

definition lead_name_char :: "byte \<Rightarrow> bool" where
  "lead_name_char c \<longleftrightarrow> 0x41 \<le> c \<and> c \<le> 0x5A \<or> c = 0x5F"

definition name_char :: "byte \<Rightarrow> bool" where
  "name_char c \<longleftrightarrow> 0x30 \<le> c \<and> c \<le> 0x39 \<or> lead_name_char c"

definition check_char :: "(byte \<Rightarrow> bool) \<Rightarrow> bytes \<Rightarrow> nat \<Rightarrow> byte outcome" where
  "check_char ok data i = obind (byte_o data i) (\<lambda>c. if ok c then Ok c else Err AmlInvalidOpCode)"

text \<open>Drop trailing underscores of the reversed name; a name of underscores only is a panic.\<close>

fun strip_underscores :: "bytes \<Rightarrow> bytes outcome" where
  "strip_underscores [] = Panic"
| "strip_underscores (c # cs) = (if c = 0x5F then strip_underscores cs else Ok (c # cs))"

definition parse_name_seg :: "bytes \<Rightarrow> (bytes \<times> nat) outcome" where
  "parse_name_seg data =
    obind (check_char lead_name_char data 0) (\<lambda>a.
    obind (check_char name_char data 1) (\<lambda>b.
    obind (check_char name_char data 2) (\<lambda>c.
    obind (check_char name_char data 3) (\<lambda>d.
    obind (strip_underscores [d, c, b, a]) (\<lambda>seg. Ok (rev seg, 4))))))"

definition parse_dual_name_path :: "bytes \<Rightarrow> (bytes \<times> nat) outcome" where
  "parse_dual_name_path data =
    obind (opcode_o data 0x2E) (\<lambda>_.
    obind (range_o data 1 5) (\<lambda>d1.
    obind (parse_name_seg d1) (\<lambda>(v1, len1).
    obind (range_o data 5 9) (\<lambda>d2.
    obind (parse_name_seg d2) (\<lambda>(v2, len2).
    Ok (v1 @ [0x2E] @ v2, 1 + len1 + len2))))))"

fun multi_segs :: "bytes \<Rightarrow> nat \<Rightarrow> nat \<Rightarrow> (bytes \<times> nat) outcome" where
  "multi_segs data current 0 = Ok ([], 0)"
| "multi_segs data current (Suc left) =
    obind (tail_o data (current * 4 + 2)) (\<lambda>d.
    obind (parse_name_seg d) (\<lambda>(v, len).
    obind (multi_segs data (Suc current) left) (\<lambda>(vs, lens).
    Ok (v @ [0x2E] @ vs, len + lens))))"

definition parse_multi_name_path :: "bytes \<Rightarrow> (bytes \<times> nat) outcome" where
  "parse_multi_name_path data =
    obind (opcode_o data 0x2F) (\<lambda>_.
    obind (byte_o data 1) (\<lambda>seg_count.
    if seg_count = 0 then Err (AmlParseError ''MultiName Path - can't have zero name segments'')
    else obind (multi_segs data 0 (unat seg_count)) (\<lambda>(characters, len).
      Ok (butlast characters, 2 + len))))"

fun carets :: "bytes \<Rightarrow> nat \<Rightarrow> nat outcome" where
  "carets [] n = Panic"
| "carets (c # cs) n = (if c = 0x5E then carets cs (Suc n) else Ok n)"

definition name_string :: "bytes \<Rightarrow> (aml_value \<times> nat) outcome" where
  "name_string data =
    obind (byte_o data 0) (\<lambda>c.
    obind (if c = 0x5C then Ok ([0x5C], 1)
           else if c = 0x5E then obind (carets data 0) (\<lambda>n. Ok (replicate n 0x5E, n))
           else Ok ([], 0)) (\<lambda>(characters, starting_index).
    obind (tail_o data starting_index) (\<lambda>d.
    obind (select_o [parse_dual_name_path, parse_multi_name_path, parse_null_name, parse_name_seg] d) (\<lambda>(chr, len).
    case from_utf8 (characters @ chr) of
      Some s \<Rightarrow> Ok (VString s, len + starting_index)
    | None \<Rightarrow> Err (AmlParseError ''Namestring - Name is invalid'')))))"

subsection \<open>Parsers\<close>

type_synonym parser = "bytes \<Rightarrow> (aml_value \<times> nat) aml"

text \<open>Every parser returns nothing at once when execution was broken off.\<close>

definition guarded :: "parser \<Rightarrow> parser" where
  "guarded p data = bnd (gets (exec \<circ> cur)) (\<lambda>e. case e of EXECUTING \<Rightarrow> p data | _ \<Rightarrow> ret (VNone, 0))"

text \<open>The first parser that does not refuse the opcode decides.\<close>

fun selector :: "parser list \<Rightarrow> parser" where
  "selector [] data = fail AmlInvalidOpCode"
| "selector (p # ps) data =
    (\<lambda>s. case p data s of
       (Err AmlInvalidOpCode, s') \<Rightarrow> selector ps data s'
     | r \<Rightarrow> r)"

definition byte_at :: "bytes \<Rightarrow> nat \<Rightarrow> byte aml" where
  "byte_at data i = lift (byte_o data i)"

definition tail_at :: "bytes \<Rightarrow> nat \<Rightarrow> bytes aml" where
  "tail_at data a = lift (tail_o data a)"

definition range_at :: "bytes \<Rightarrow> nat \<Rightarrow> nat \<Rightarrow> bytes aml" where
  "range_at data a b = lift (range_o data a b)"

text \<open>Parse the data from offset \<open>a\<close> on, or between two offsets.\<close>

definition at :: "parser \<Rightarrow> bytes \<Rightarrow> nat \<Rightarrow> (aml_value \<times> nat) aml" where
  "at p data a = bnd (tail_at data a) p"

definition within :: "parser \<Rightarrow> bytes \<Rightarrow> nat \<Rightarrow> nat \<Rightarrow> (aml_value \<times> nat) aml" where
  "within p data a b = bnd (range_at data a b) p"

definition opcode :: "bytes \<Rightarrow> byte \<Rightarrow> 'a aml \<Rightarrow> 'a aml" where
  "opcode data c k = bnd (byte_at data 0) (\<lambda>b. if b \<noteq> c then fail AmlInvalidOpCode else k)"

definition opcode_extended :: "bytes \<Rightarrow> byte \<Rightarrow> 'a aml \<Rightarrow> 'a aml" where
  "opcode_extended data c k =
    bnd (byte_at data 0) (\<lambda>a.
    if a \<noteq> 0x5B then fail AmlInvalidOpCode
    else bnd (byte_at data 1) (\<lambda>b. if b \<noteq> c then fail AmlInvalidOpCode else k))"

definition pkg_length :: "bytes \<Rightarrow> nat \<Rightarrow> (nat \<times> nat) aml" where
  "pkg_length data a = bnd (tail_at data a) (\<lambda>d. lift (parse_pkg_length d))"

definition parse_name_string :: parser where
  "parse_name_string = guarded (\<lambda>data. lift (name_string data))"

definition parse_debug_obj :: parser where
  "parse_debug_obj = guarded (\<lambda>data. opcode_extended data 0x31 (ret (DebugObject, 2)))"

definition parse_arg_obj :: parser where
  "parse_arg_obj = guarded (\<lambda>data. bnd (byte_at data 0) (\<lambda>c.
     if 0x68 \<le> c \<and> c \<le> 0x6E then ret (ObjectReference (ArgObj (c - 0x68)), 1)
     else fail AmlInvalidOpCode))"

definition parse_local_obj :: parser where
  "parse_local_obj = guarded (\<lambda>data. bnd (byte_at data 0) (\<lambda>c.
     if 0x68 \<le> c \<and> c \<le> 0x6E then ret (ObjectReference (LocalObj (c - 0x60)), 1)
     else fail AmlInvalidOpCode))"

definition parse_simple_name :: parser where
  "parse_simple_name = guarded (selector [parse_name_string, parse_arg_obj, parse_local_obj])"

text \<open>A little-endian number of \<open>n\<close> bytes at offset \<open>a\<close>.\<close>

definition le_at :: "bytes \<Rightarrow> nat \<Rightarrow> nat \<Rightarrow> nat aml" where
  "le_at data a n = (if a + n \<le> length data then ret (le_nat (take n (drop a data))) else panics)"

fun cstring :: "bytes \<Rightarrow> bytes outcome" where
  "cstring [] = Panic"
| "cstring (c # cs) = (if c = 0 then Ok [] else obind (cstring cs) (\<lambda>s. Ok (c # s)))"

text \<open>Constants; anything else is a buffer, which \<open>buf\<close> parses.\<close>

definition parse_computational_data :: "parser \<Rightarrow> parser" where
  "parse_computational_data buf = guarded (\<lambda>data. bnd (byte_at data 0) (\<lambda>c.
     if c = 0x0A then bnd (le_at data 1 1) (\<lambda>n. ret (Integer (of_nat n), 2))
     else if c = 0x0B then bnd (le_at data 1 2) (\<lambda>n. ret (Integer (of_nat n), 3))
     else if c = 0x0C then bnd (le_at data 1 4) (\<lambda>n. ret (Integer (of_nat n), 5))
     else if c = 0x0D then
       bnd (lift (cstring (drop 1 data))) (\<lambda>b. case from_utf8 b of
         Some s \<Rightarrow> ret (VString s, length s + 2)
       | None \<Rightarrow> fail (AmlParseError ''String data - invalid string''))
     else if c = 0x0E then bnd (le_at data 1 8) (\<lambda>n. ret (Integer (of_nat n), 9))
     else if c = 0x00 then ret (IntegerConstant 0, 1)
     else if c = 0x01 then ret (IntegerConstant 1, 1)
     else if c = 0x5B then
       bnd (byte_at data 1) (\<lambda>c. if c = 0x30 then ret (IntegerConstant 20170630, 2) else fail AmlInvalidOpCode)
     else if c = 0xFF then ret (IntegerConstant 0xFFFFFFFFFFFFFFFF, 1)
     else buf data))"

end
