(* ===== verification/Aml_Opcodes.thy ===== *)
theory Aml_Opcodes
  imports Aml_Names
begin

text \<open>
  The expression opcodes of the AML interpreter: kernel/src/acpi/aml/type2opcode.rs with the name and
  data parsers that call back into it (namestring.rs, dataobj.rs, termlist.rs).

  The parsers call each other recursively.  The recursive calls that a parser makes go through the
  record \<open>parsers\<close>, together with the fuel of its loops; the knot is tied in the theory of the
  interpreter.
\<close>

record parsers =
  fuel :: nat
  r_modify :: modifier
  r_term_arg :: parser
  r_term_list :: parser
  r_object_list :: parser
  r_super_name :: parser
  r_data_ref_obj :: parser

definition modify :: "parsers \<Rightarrow> modifier" where
  "modify R = modify_body (r_modify R)"

definition copy_value :: "parsers \<Rightarrow> modifier" where
  "copy_value R = copy_body (r_modify R)"

definition parse_target :: "parsers \<Rightarrow> parser" where
  "parse_target R = guarded (\<lambda>data. bnd (byte_at data 0) (\<lambda>c.
     if c = 0x00 then ret (VNone, 1) else r_super_name R data))"

text \<open>The clock, in nanoseconds.\<close>

definition monotonic_ns :: "64 word aml" where
  "monotonic_ns = (\<lambda>s. case clock s (ticks s) of (seconds, nanoseconds) \<Rightarrow>
     (Ok (nanoseconds + seconds * 1000000000), s\<lparr>ticks := Suc (ticks s)\<rparr>))"

subsection \<open>Methods and tables\<close>

definition execute :: "parsers \<Rightarrow> aml_method \<Rightarrow> rstring \<Rightarrow> aml_value list \<Rightarrow> aml_value aml" where
  "execute R m sc parameters =
    bnd (new_ctx sc) (\<lambda>c.
    bnd (in_ctx (init_arg_vars parameters c)
          (bnd (ignore (r_term_list R (term_list m))) (\<lambda>_. clean_namespace))) (\<lambda>(_, c).
    ret (case exec c of RETURN v \<Rightarrow> v | _ \<Rightarrow> IntegerConstant 0)))"

definition parse_aml_with_scope :: "parsers \<Rightarrow> bytes \<Rightarrow> rstring \<Rightarrow> rstring list aml" where
  "parse_aml_with_scope R data sc =
    bnd (new_ctx sc) (\<lambda>c.
    bnd (in_ctx c (r_term_list R data)) (\<lambda>(_, c). ret (namespace_delta c)))"

definition scoped_name :: "aml_value \<Rightarrow> rstring aml" where
  "scoped_name v = (\<lambda>s. (get_namespace_string (sdt_order s) (scope (cur s)) v, s))"

fun parse_params :: "parsers \<Rightarrow> bytes \<Rightarrow> nat \<Rightarrow> nat \<Rightarrow> (aml_value list \<times> nat) aml" where
  "parse_params R data off 0 = ret ([], off)"
| "parse_params R data off (Suc n) =
    bnd (at (r_term_arg R) data off) (\<lambda>(v, len).
    bnd (parse_params R data (off + len) n) (\<lambda>(vs, off). ret (v # vs, off)))"

definition parse_method_invocation :: "parsers \<Rightarrow> parser" where
  "parse_method_invocation R = guarded (\<lambda>data.
     bnd (parse_name_string data) (\<lambda>(name, nlen).
     bnd (get_value name) (\<lambda>method.
     bnd (case method of VNone \<Rightarrow> fail AmlDeferredLoad | _ \<Rightarrow> lift (get_as_method method)) (\<lambda>m.
     bnd (parse_params R data nlen (unat (arg_count m))) (\<lambda>(params, off).
     bnd (scoped_name name) (\<lambda>sc.
     bnd (execute R m sc params) (\<lambda>v. ret (v, off))))))))"

subsection \<open>Buffers and packages\<close>

definition parse_def_buffer :: "parsers \<Rightarrow> parser" where
  "parse_def_buffer R = guarded (\<lambda>data. opcode data 0x11
    (bnd (pkg_length data 1) (\<lambda>(pl, pll).
     bnd (at (r_term_arg R) data (1 + pll)) (\<lambda>(sz, szl).
     bnd (range_at data (1 + pll + szl) (1 + pl)) (\<lambda>byte_list.
     bnd (as_integer sz) (\<lambda>n. ret (Buffer (take (unat n) byte_list), 1 + pl)))))))"

fun package_loop :: "nat \<Rightarrow> parsers \<Rightarrow> bytes \<Rightarrow> nat \<Rightarrow> aml_value list aml" where
  "package_loop 0 R data off = hangs"
| "package_loop (Suc k) R data off =
    (if off < length data then
       bnd (attempt (at (r_data_ref_obj R) data off)) (\<lambda>r.
       bnd (case r of
              Inr dro \<Rightarrow> ret dro
            | Inl _ \<Rightarrow>
                bnd (at parse_name_string data off) (\<lambda>(d, dl).
                bnd (as_string d) (\<lambda>s. ret (ObjectReference (Object s), dl)))) (\<lambda>(v, len).
       bnd (package_loop k R data (off + len)) (\<lambda>vs. ret (v # vs))))
     else ret [])"

definition parse_package_elements_list :: "parsers \<Rightarrow> parser" where
  "parse_package_elements_list R = guarded (\<lambda>data.
     bnd (package_loop (fuel R) R data 0) (\<lambda>vs. ret (Package vs, length data)))"

definition resize_package :: "aml_value list \<Rightarrow> nat \<Rightarrow> aml_value list" where
  "resize_package elements n =
    (if length elements > n then take n elements
     else elements @ replicate (n - length elements) Uninitialized)"

definition parse_def_package :: "parsers \<Rightarrow> parser" where
  "parse_def_package R = guarded (\<lambda>data. opcode data 0x12
    (bnd (pkg_length data 1) (\<lambda>(pl, pll).
     bnd (byte_at data (1 + pll)) (\<lambda>n.
     bnd (within (parse_package_elements_list R) data (2 + pll) (1 + pl)) (\<lambda>(p, _).
     bnd (lift (get_as_package p)) (\<lambda>elements.
     ret (Package (resize_package elements (unat n)), 1 + pl)))))))"

definition parse_def_var_package :: "parsers \<Rightarrow> parser" where
  "parse_def_var_package R = guarded (\<lambda>data. opcode data 0x13
    (bnd (pkg_length data 1) (\<lambda>(pl, pll).
     bnd (within (r_term_arg R) data (1 + pll) (1 + pl)) (\<lambda>(num, numl).
     bnd (within (parse_package_elements_list R) data (1 + pll + numl) (1 + pl)) (\<lambda>(p, _).
     bnd (lift (get_as_package p)) (\<lambda>elements.
     bnd (as_integer num) (\<lambda>n.
     ret (Package (resize_package elements (unat n)), 1 + pl))))))))"

definition parse_data_obj :: "parsers \<Rightarrow> parser" where
  "parse_data_obj R = guarded (selector
    [parse_computational_data (parse_def_buffer R), parse_def_package R, parse_def_var_package R])"

subsection \<open>References\<close>

definition parse_def_ref_of :: "parsers \<Rightarrow> parser" where
  "parse_def_ref_of R = guarded (\<lambda>data. opcode data 0x71
    (bnd (at (r_super_name R) data 1) (\<lambda>(obj, len).
     bnd (case obj of
            VString s \<Rightarrow> bnd (get_value (VString s)) (\<lambda>v.
              case v of VNone \<Rightarrow> fail AmlValueError | _ \<Rightarrow> ret (Object s))
          | ObjectReference r \<Rightarrow> ret r
          | _ \<Rightarrow> fail AmlValueError) (\<lambda>r.
     ret (ObjectReference r, 1 + len)))))"

definition parse_def_deref_of :: "parsers \<Rightarrow> parser" where
  "parse_def_deref_of R = guarded (\<lambda>data. opcode data 0x83
    (bnd (at (r_term_arg R) data 1) (\<lambda>(obj, len).
     bnd (get_value obj) (\<lambda>v. case v of VNone \<Rightarrow> fail AmlValueError | _ \<Rightarrow> ret (v, 1 + len)))))"

definition parse_def_index :: "parsers \<Rightarrow> parser" where
  "parse_def_index R = guarded (\<lambda>data. opcode data 0x88
    (bnd (at (r_term_arg R) data 1) (\<lambda>(obj, ol).
     bnd (at (r_term_arg R) data (1 + ol)) (\<lambda>(idx, il).
     bnd (at (parse_target R) data (1 + ol + il)) (\<lambda>(target, tl).
     bnd (ignore (modify R target (ObjectReference (Index obj idx)))) (\<lambda>_.
     ret (ObjectReference (Index obj idx), 1 + ol + il + tl)))))))"

definition parse_type6_opcode :: "parsers \<Rightarrow> parser" where
  "parse_type6_opcode R = guarded (selector
    [parse_def_deref_of R, parse_def_ref_of R, parse_def_index R, parse_method_invocation R])"

definition parse_super_name :: "parsers \<Rightarrow> parser" where
  "parse_super_name R = guarded (selector [parse_simple_name, parse_type6_opcode R, parse_debug_obj])"

definition parse_def_object_type :: "parsers \<Rightarrow> parser" where
  "parse_def_object_type R = guarded (\<lambda>data. opcode data 0x8E
    (selector [parse_super_name R, parse_def_ref_of R, parse_def_deref_of R, parse_def_index R] data))"

definition parse_def_cond_ref_of :: "parsers \<Rightarrow> parser" where
  "parse_def_cond_ref_of R = guarded (\<lambda>data. opcode_extended data 0x12
    (bnd (at (r_super_name R) data 2) (\<lambda>(obj, ol).
     bnd (at (parse_target R) data (2 + ol)) (\<lambda>(target, tl).
     bnd (case obj of
            VString s \<Rightarrow> bnd (get_value (VString s)) (\<lambda>v.
              case v of VNone \<Rightarrow> ret None | _ \<Rightarrow> ret (Some (Object s)))
          | ObjectReference r \<Rightarrow> ret (Some r)
          | _ \<Rightarrow> fail AmlValueError) (\<lambda>r.
     case r of
       None \<Rightarrow> ret (Integer 0, 1 + ol + tl)
     | Some r \<Rightarrow> bnd (ignore (modify R target (ObjectReference r))) (\<lambda>_. ret (Integer 1, 1 + ol + tl)))))))"

definition parse_def_size_of :: "parsers \<Rightarrow> parser" where
  "parse_def_size_of R = guarded (\<lambda>data. opcode data 0x87
    (bnd (at (r_super_name R) data 1) (\<lambda>(name, nl).
     bnd (get_value name) (\<lambda>obj.
     bnd (case obj of
            Buffer v \<Rightarrow> ret (length v)
          | VString s \<Rightarrow> ret (length s)
          | Package p \<Rightarrow> ret (length p)
          | _ \<Rightarrow> fail AmlValueError) (\<lambda>n. ret (Integer (of_nat n), 1 + nl))))))"

definition parse_def_store :: "parsers \<Rightarrow> parser" where
  "parse_def_store R = guarded (\<lambda>data. opcode data 0x70
    (bnd (at (r_term_arg R) data 1) (\<lambda>(operand, ol).
     bnd (at (r_super_name R) data (1 + ol)) (\<lambda>(target, tl).
     bnd (ignore (modify R target operand)) (\<lambda>_. ret (target, 1 + ol + tl))))))"

definition parse_def_copy_object :: "parsers \<Rightarrow> parser" where
  "parse_def_copy_object R = guarded (\<lambda>data. opcode data 0x9D
    (bnd (at (r_term_arg R) data 1) (\<lambda>(source, sl).
     bnd (at parse_simple_name data (1 + sl)) (\<lambda>(destination, dl).
     bnd (copy_value R destination source) (\<lambda>_. ret (source, 1 + sl + dl))))))"

subsection \<open>Arithmetic\<close>

text \<open>The shape that most operators share: two operands and a target at their offsets, a result that
  is stored in the target (a failure to store is ignored) and returned.\<close>

definition binary :: "parsers \<Rightarrow> bytes \<Rightarrow> (aml_value \<Rightarrow> aml_value \<Rightarrow> aml_value aml) \<Rightarrow> (aml_value \<times> nat) aml" where
  "binary R data f =
    bnd (at (r_term_arg R) data 1) (\<lambda>(lhs, ll).
    bnd (at (r_term_arg R) data (1 + ll)) (\<lambda>(rhs, rl).
    bnd (at (parse_target R) data (1 + ll + rl)) (\<lambda>(target, tl).
    bnd (f lhs rhs) (\<lambda>result.
    bnd (ignore (modify R target result)) (\<lambda>_. ret (result, 1 + ll + rl + tl))))))"

definition int2 :: "(64 word \<Rightarrow> 64 word \<Rightarrow> 64 word) \<Rightarrow> aml_value \<Rightarrow> aml_value \<Rightarrow> aml_value aml" where
  "int2 f l r = bnd (as_integer l) (\<lambda>a. bnd (as_integer r) (\<lambda>b. ret (Integer (f a b))))"

text \<open>Shifts take the amount modulo 64.\<close>

definition shr :: "64 word \<Rightarrow> 64 word \<Rightarrow> 64 word" where
  "shr a b = drop_bit (unat b mod 64) a"

definition shl :: "64 word \<Rightarrow> 64 word \<Rightarrow> 64 word" where
  "shl a b = push_bit (unat b mod 64) a"

definition parse_def_subtract :: "parsers \<Rightarrow> parser" where
  "parse_def_subtract R = guarded (\<lambda>data. opcode data 0x74 (binary R data (int2 (-))))"

definition parse_def_or :: "parsers \<Rightarrow> parser" where
  "parse_def_or R = guarded (\<lambda>data. opcode data 0x7D (binary R data (int2 (OR))))"

definition parse_def_shift_left :: "parsers \<Rightarrow> parser" where
  "parse_def_shift_left R = guarded (\<lambda>data. opcode data 0x79 (binary R data (int2 (shr))))"

definition parse_def_shift_right :: "parsers \<Rightarrow> parser" where
  "parse_def_shift_right R = guarded (\<lambda>data. opcode data 0x7A (binary R data (int2 (shl))))"

definition parse_def_add :: "parsers \<Rightarrow> parser" where
  "parse_def_add R = guarded (\<lambda>data. opcode data 0x72 (binary R data (int2 (+))))"

definition parse_def_and :: "parsers \<Rightarrow> parser" where
  "parse_def_and R = guarded (\<lambda>data. opcode data 0x7B (binary R data (int2 (AND))))"

definition parse_def_xor :: "parsers \<Rightarrow> parser" where
  "parse_def_xor R = guarded (\<lambda>data. opcode data 0x7F (binary R data (int2 (XOR))))"

definition parse_def_multiply :: "parsers \<Rightarrow> parser" where
  "parse_def_multiply R = guarded (\<lambda>data. opcode data 0x77 (binary R data (int2 (*))))"

definition parse_def_nand :: "parsers \<Rightarrow> parser" where
  "parse_def_nand R = guarded (\<lambda>data. opcode data 0x7C (binary R data (int2 (\<lambda>a b. NOT (a AND b)))))"

definition parse_def_nor :: "parsers \<Rightarrow> parser" where
  "parse_def_nor R = guarded (\<lambda>data. opcode data 0x7E (binary R data (int2 (\<lambda>a b. NOT (a OR b)))))"

definition parse_def_mod :: "parsers \<Rightarrow> parser" where
  "parse_def_mod R = guarded (\<lambda>data. opcode data 0x85 (binary R data (\<lambda>l r.
     bnd (as_integer r) (\<lambda>z. if z = 0 then fail AmlValueError else int2 (mod) l r))))"

definition parse_def_divide :: "parsers \<Rightarrow> parser" where
  "parse_def_divide R = guarded (\<lambda>data. opcode data 0x78
    (bnd (at (r_term_arg R) data 1) (\<lambda>(lhs, ll).
     bnd (at (r_term_arg R) data (1 + ll)) (\<lambda>(rhs, rl).
     bnd (at (parse_target R) data (1 + ll + rl)) (\<lambda>(target_remainder, rml).
     bnd (at (parse_target R) data (1 + ll + rl + rml)) (\<lambda>(target_quotient, ql).
     bnd (as_integer lhs) (\<lambda>numerator.
     bnd (as_integer rhs) (\<lambda>denominator.
     if denominator = 0 then panics
     else
       (let remainder = numerator mod denominator; quotient = (numerator - remainder) div denominator in
        bnd (ignore (modify R target_remainder (Integer remainder))) (\<lambda>_.
        bnd (ignore (modify R target_quotient (Integer quotient))) (\<lambda>_.
        ret (Integer quotient, 1 + ll + rl + rml + ql))))))))))))"

definition step_value :: "parsers \<Rightarrow> bytes \<Rightarrow> (64 word \<Rightarrow> 64 word) \<Rightarrow> (aml_value \<times> nat) aml" where
  "step_value R data f =
    bnd (at (r_super_name R) data 1) (\<lambda>(obj, len). holding
      (bnd (get_value obj) (\<lambda>v.
       bnd (as_integer v) (\<lambda>i.
       bnd (ignore (modify R obj (Integer (f i)))) (\<lambda>_. ret (Integer (f i), 1 + len))))))"

definition parse_def_increment :: "parsers \<Rightarrow> parser" where
  "parse_def_increment R = guarded (\<lambda>data. opcode data 0x75 (step_value R data (\<lambda>i. i + 1)))"

definition parse_def_decrement :: "parsers \<Rightarrow> parser" where
  "parse_def_decrement R = guarded (\<lambda>data. opcode data 0x76 (step_value R data (\<lambda>i. i - 1)))"

definition parse_def_not :: "parsers \<Rightarrow> parser" where
  "parse_def_not R = guarded (\<lambda>data. opcode data 0x80
    (bnd (at (r_term_arg R) data 1) (\<lambda>(operand, ol).
     bnd (at (parse_target R) data (1 + ol)) (\<lambda>(target, tl).
     bnd (as_integer operand) (\<lambda>i.
     bnd (ignore (modify R target (Integer (NOT i)))) (\<lambda>_. ret (Integer (NOT i), 1 + ol + tl)))))))"

subsection \<open>Logic\<close>

definition logical :: "parsers \<Rightarrow> bytes \<Rightarrow> (aml_value \<Rightarrow> aml_value \<Rightarrow> bool aml) \<Rightarrow> (aml_value \<times> nat) aml" where
  "logical R data f =
    bnd (at (r_term_arg R) data 1) (\<lambda>(lhs, ll).
    bnd (at (r_term_arg R) data (1 + ll)) (\<lambda>(rhs, rl).
    bnd (f lhs rhs) (\<lambda>b. ret (IntegerConstant (if b then 1 else 0), 1 + ll + rl))))"

definition cmp2 :: "(64 word \<Rightarrow> 64 word \<Rightarrow> bool) \<Rightarrow> aml_value \<Rightarrow> aml_value \<Rightarrow> bool aml" where
  "cmp2 f l r = bnd (as_integer l) (\<lambda>a. bnd (as_integer r) (\<lambda>b. ret (f a b)))"

definition parse_def_land :: "parsers \<Rightarrow> parser" where
  "parse_def_land R = guarded (\<lambda>data. opcode data 0x90 (logical R data (\<lambda>l r.
     bnd (as_integer l) (\<lambda>a. if a > 0 then bnd (as_integer r) (\<lambda>b. ret (b > 0)) else ret False))))"

definition parse_def_lor :: "parsers \<Rightarrow> parser" where
  "parse_def_lor R = guarded (\<lambda>data. opcode data 0x91 (logical R data (\<lambda>l r.
     bnd (as_integer l) (\<lambda>a. if a > 0 then ret True else bnd (as_integer r) (\<lambda>b. ret (b > 0))))))"

definition parse_def_lequal :: "parsers \<Rightarrow> parser" where
  "parse_def_lequal R = guarded (\<lambda>data. opcode data 0x93 (logical R data (cmp2 (=))))"

definition parse_def_lgreater :: "parsers \<Rightarrow> parser" where
  "parse_def_lgreater R = guarded (\<lambda>data. opcode data 0x94 (logical R data (cmp2 (>))))"

definition parse_def_lless :: "parsers \<Rightarrow> parser" where
  "parse_def_lless R = guarded (\<lambda>data. opcode data 0x95 (logical R data (cmp2 (<))))"

definition parse_def_lnot :: "parsers \<Rightarrow> parser" where
  "parse_def_lnot R = guarded (\<lambda>data. opcode data 0x92
    (bnd (at (r_term_arg R) data 1) (\<lambda>(operand, ol).
     bnd (as_integer operand) (\<lambda>i. ret (IntegerConstant (if i = 0 then 1 else 0), 1 + ol)))))"

subsection \<open>Conversions\<close>

text \<open>The conversions read their operand two bytes in, and report a length that starts at \<open>base\<close>.\<close>

definition convert :: "parsers \<Rightarrow> bytes \<Rightarrow> nat \<Rightarrow> (aml_value \<Rightarrow> aml_value aml) \<Rightarrow> (aml_value \<times> nat) aml" where
  "convert R data base f =
    bnd (at (r_term_arg R) data 2) (\<lambda>(operand, ol).
    bnd (at (parse_target R) data (2 + ol)) (\<lambda>(target, tl).
    bnd (f operand) (\<lambda>res.
    bnd (ignore (modify R target res)) (\<lambda>_. ret (res, base + ol + tl)))))"

definition digits_string :: "(nat \<Rightarrow> rstring) \<Rightarrow> aml_value \<Rightarrow> aml_value aml" where
  "digits_string f v =
    (case v of
       Integer i \<Rightarrow> ret (VString (f (unat i)))
     | VString s \<Rightarrow> ret (VString s)
     | Buffer b \<Rightarrow> ret (VString (concat (map (\<lambda>x. f (unat x)) b)))
     | _ \<Rightarrow> fail AmlValueError)"

definition parse_def_to_hex_string :: "parsers \<Rightarrow> parser" where
  "parse_def_to_hex_string R = guarded (\<lambda>data. opcode data 0x98 (convert R data 1 (digits_string hex_digits)))"

definition parse_def_to_decimal_string :: "parsers \<Rightarrow> parser" where
  "parse_def_to_decimal_string R = guarded (\<lambda>data. opcode data 0x97 (convert R data 1 (digits_string dec_digits)))"

definition parse_def_to_buffer :: "parsers \<Rightarrow> parser" where
  "parse_def_to_buffer R = guarded (\<lambda>data. opcode data 0x96
    (convert R data 1 (\<lambda>v. bnd (as_buffer v) (\<lambda>b. ret (Buffer b)))))"

definition parse_def_to_integer :: "parsers \<Rightarrow> parser" where
  "parse_def_to_integer R = guarded (\<lambda>data. opcode data 0x99
    (convert R data 1 (\<lambda>v. bnd (as_integer v) (\<lambda>i. ret (Integer i)))))"

function to_bcd :: "nat \<Rightarrow> 64 word \<Rightarrow> 64 word" where
  "to_bcd i result = (if i = 0 then result else to_bcd (i div 10) (push_bit 4 result + of_nat (i mod 10)))"
  by pat_completeness auto
termination by (relation "measure fst") auto

definition parse_def_to_bcd :: "parsers \<Rightarrow> parser" where
  "parse_def_to_bcd R = guarded (\<lambda>data. opcode_extended data 0x29
    (convert R data 1 (\<lambda>v. bnd (as_integer v) (\<lambda>i. ret (Integer (to_bcd (unat i) 0))))))"

function from_bcd :: "nat \<Rightarrow> 64 word \<Rightarrow> 64 word outcome" where
  "from_bcd i result =
    (if i = 0 then Ok result
     else if i mod 16 > 10 then Err AmlValueError
     else from_bcd (i div 16) (result * 10 + of_nat (i mod 16)))"
  by pat_completeness auto
termination by (relation "measure fst") auto

declare to_bcd.simps [simp del] from_bcd.simps [simp del]

definition parse_def_from_bcd :: "parsers \<Rightarrow> parser" where
  "parse_def_from_bcd R = guarded (\<lambda>data. opcode_extended data 0x28
    (convert R data 2 (\<lambda>v. bnd (as_integer v) (\<lambda>i. bnd (lift (from_bcd (unat i) 0)) (\<lambda>j. ret (Integer j))))))"

fun left_bit :: "nat \<Rightarrow> 64 word \<Rightarrow> nat" where
  "left_bit 0 test = 0"
| "left_bit (Suc n) test = (if bit test 63 then Suc n else left_bit n (push_bit 1 test))"

definition parse_def_find_set_left_bit :: "parsers \<Rightarrow> parser" where
  "parse_def_find_set_left_bit R = guarded (\<lambda>data. opcode data 0x81
    (convert R data 1 (\<lambda>v. bnd (as_integer v) (\<lambda>i. ret (Integer (of_nat (left_bit 32 i)))))))"

fun right_bit :: "nat \<Rightarrow> nat \<Rightarrow> 64 word \<Rightarrow> nat" where
  "right_bit first_bit 0 test = 0"
| "right_bit first_bit (Suc n) test =
    (if bit test 0 then first_bit else right_bit (Suc first_bit) n (drop_bit 1 test))"

definition parse_def_find_set_right_bit :: "parsers \<Rightarrow> parser" where
  "parse_def_find_set_right_bit R = guarded (\<lambda>data. opcode data 0x82
    (convert R data 1 (\<lambda>v. bnd (as_integer v) (\<lambda>i. ret (Integer (of_nat (right_bit 1 32 i)))))))"

definition parse_def_to_string :: "parsers \<Rightarrow> parser" where
  "parse_def_to_string R = guarded (\<lambda>data. opcode data 0x9C
    (bnd (at (r_term_arg R) data 1) (\<lambda>(operand, ol).
     bnd (at (r_term_arg R) data (1 + ol)) (\<lambda>(len, ll).
     bnd (at (parse_target R) data (1 + ol + ll)) (\<lambda>(target, tl).
     bnd (as_buffer operand) (\<lambda>buf. case from_utf8 buf of
       None \<Rightarrow> fail AmlValueError
     | Some string \<Rightarrow>
         bnd (as_integer len) (\<lambda>n.
         if unat n < length string \<and> \<not> char_boundary string (unat n) then panics
         else
           (let res = VString (take (unat n) string) in
            bnd (ignore (modify R target res)) (\<lambda>_. ret (res, 1 + ol + ll + tl))))))))))"

definition drop_end_tag :: "bytes \<Rightarrow> bytes" where
  "drop_end_tag b = (if length b \<ge> 2 \<and> b ! (length b - 2) = 0x79 then take (length b - 2) b else b)"

definition parse_def_concat_res :: "parsers \<Rightarrow> parser" where
  "parse_def_concat_res R = guarded (\<lambda>data. opcode data 0x84
    (bnd (at (r_term_arg R) data 1) (\<lambda>(lhs, ll).
     bnd (at (r_term_arg R) data (1 + ll)) (\<lambda>(rhs, rl).
     bnd (at (parse_target R) data (1 + ll + rl)) (\<lambda>(target, tl).
     bnd (as_buffer lhs) (\<lambda>buf1.
     bnd (as_buffer rhs) (\<lambda>buf2.
     if length buf1 = 1 \<or> length buf2 = 1 then fail AmlValueError
     else
       (let buf = drop_end_tag buf1 @ drop_end_tag buf2 @ [0x79];
            checksum = sum_list buf;
            res = Buffer (buf @ [NOT checksum + 1])
        in bnd (modify R target res) (\<lambda>_. ret (res, 1 + ll + rl + tl))))))))))"

definition string_or_type :: "aml_value \<Rightarrow> rstring aml" where
  "string_or_type v = bnd (attempt (as_string v)) (\<lambda>r.
     ret (case r of Inr t \<Rightarrow> t | Inl _ \<Rightarrow> get_type_string v))"

definition concat_values :: "aml_value \<Rightarrow> aml_value \<Rightarrow> aml_value aml" where
  "concat_values lhs rhs =
    (case lhs of
       Integer i \<Rightarrow>
         bnd (as_integer rhs) (\<lambda>j. ret (Buffer (integer_bytes i @ integer_bytes j)))
     | VString s \<Rightarrow> bnd (string_or_type rhs) (\<lambda>t. ret (VString (s @ t)))
     | Buffer b \<Rightarrow>
         bnd (attempt (as_buffer rhs)) (\<lambda>r.
         ret (Buffer (b @ (case r of Inr c \<Rightarrow> c | Inl _ \<Rightarrow> get_type_string rhs))))
     | _ \<Rightarrow> bnd (string_or_type rhs) (\<lambda>t. ret (VString (get_type_string lhs @ t))))"

definition parse_def_concat :: "parsers \<Rightarrow> parser" where
  "parse_def_concat R = guarded (\<lambda>data. opcode data 0x73
    (bnd (at (r_term_arg R) data 1) (\<lambda>(lhs, ll).
     bnd (at (r_term_arg R) data (1 + ll)) (\<lambda>(rhs, rl).
     bnd (at (parse_target R) data (1 + ll + rl)) (\<lambda>(target, tl).
     bnd (concat_values lhs rhs) (\<lambda>result.
     bnd (modify R target result) (\<lambda>_. ret (result, 1 + ll + rl + tl))))))))"

definition mid_value :: "aml_value \<Rightarrow> nat \<Rightarrow> nat \<Rightarrow> aml_value aml" where
  "mid_value source idx len =
    (case source of
       VString s \<Rightarrow>
         if idx > length s then ret (VString [])
         else if \<not> char_boundary s idx then panics
         else
           (let res = drop idx s in
            if len < length res then
              if char_boundary res len then ret (VString (take len res)) else panics
            else ret (VString res))
     | _ \<Rightarrow>
         bnd (as_buffer source) (\<lambda>b.
         if idx > length b then ret (Buffer [])
         else
           (let len = (if uadd idx len > length b then length b - idx else len) in
            bnd (range_at b idx (uadd idx len)) (\<lambda>r. ret (Buffer r)))))"

definition parse_def_mid :: "parsers \<Rightarrow> parser" where
  "parse_def_mid R = guarded (\<lambda>data. opcode data 0x9E
    (bnd (at (r_term_arg R) data 1) (\<lambda>(source, sl).
     bnd (at (r_term_arg R) data (1 + sl)) (\<lambda>(index, il).
     bnd (at (r_term_arg R) data (1 + sl + il)) (\<lambda>(len, ll).
     bnd (at (parse_target R) data (1 + sl + il + ll)) (\<lambda>(target, tl).
     bnd (as_integer index) (\<lambda>i.
     bnd (as_integer len) (\<lambda>n.
     bnd (mid_value source (unat i) (unat n)) (\<lambda>result.
     bnd (ignore (modify R target result)) (\<lambda>_. ret (result, 1 + sl + il + ll + tl)))))))))))"

subsection \<open>Searching a package\<close>

datatype match_opcode = MTR | MEQ | MLE | MLT | MGE | MGT

definition match_opcode_of :: "byte \<Rightarrow> match_opcode aml" where
  "match_opcode_of c =
    (if c = 0 then ret MTR else if c = 1 then ret MEQ else if c = 2 then ret MLE
     else if c = 3 then ret MLT else if c = 4 then ret MGE else if c = 5 then ret MGT
     else fail (AmlParseError ''DefMatch - Invalid Opcode''))"

fun match_holds :: "('a \<Rightarrow> 'a \<Rightarrow> bool) \<Rightarrow> match_opcode \<Rightarrow> 'a \<Rightarrow> 'a \<Rightarrow> bool" where
  "match_holds lt MTR val i \<longleftrightarrow> True"
| "match_holds lt MEQ val i \<longleftrightarrow> val = i"
| "match_holds lt MLE val i \<longleftrightarrow> \<not> lt i val"
| "match_holds lt MLT val i \<longleftrightarrow> lt val i"
| "match_holds lt MGE val i \<longleftrightarrow> \<not> lt val i"
| "match_holds lt MGT val i \<longleftrightarrow> lt i val"

fun bytes_less :: "bytes \<Rightarrow> bytes \<Rightarrow> bool" where
  "bytes_less xs [] \<longleftrightarrow> False"
| "bytes_less [] (y # ys) \<longleftrightarrow> True"
| "bytes_less (x # xs) (y # ys) \<longleftrightarrow> x < y \<or> x = y \<and> bytes_less xs ys"

text \<open>Elements that do not convert are skipped; the index is advanced before it is returned.\<close>

fun match_from :: "(aml_value \<Rightarrow> 'a outcome) \<Rightarrow> ('a \<Rightarrow> bool) \<Rightarrow> nat \<Rightarrow> aml_value list \<Rightarrow> nat option outcome" where
  "match_from conv holds idx [] = Ok None"
| "match_from conv holds idx (x # xs) =
    (case conv x of
       Ok v \<Rightarrow> if holds v then Ok (Some (Suc idx)) else match_from conv holds (Suc idx) xs
     | Err _ \<Rightarrow> match_from conv holds (Suc idx) xs
     | Panic \<Rightarrow> Panic
     | Hang \<Rightarrow> Hang)"

definition match_package :: "aml_value list \<Rightarrow> match_opcode \<Rightarrow> aml_value \<Rightarrow> match_opcode \<Rightarrow> aml_value \<Rightarrow>
    nat \<Rightarrow> nat option aml" where
  "match_package pkg op1 first op2 second idx =
    bnd (gets sdt_order) (\<lambda>order. case first of
       Integer i \<Rightarrow> bnd (as_integer second) (\<lambda>j. lift (match_from (get_as_integer order)
         (\<lambda>v. match_holds (<) op1 v i \<and> match_holds (<) op2 v j) idx (drop idx pkg)))
     | VString i \<Rightarrow> bnd (as_string second) (\<lambda>j. lift (match_from (get_as_string order)
         (\<lambda>v. match_holds bytes_less op1 v i \<and> match_holds bytes_less op2 v j) idx (drop idx pkg)))
     | _ \<Rightarrow> bnd (as_buffer first) (\<lambda>i. bnd (as_buffer second) (\<lambda>j. lift (match_from (get_as_buffer order)
         (\<lambda>v. match_holds bytes_less op1 v i \<and> match_holds bytes_less op2 v j) idx (drop idx pkg)))))"

definition parse_def_match :: "parsers \<Rightarrow> parser" where
  "parse_def_match R = guarded (\<lambda>data. opcode data 0x28
    (bnd (at (r_term_arg R) data 1) (\<lambda>(search_pkg, pl).
     bnd (byte_at data (1 + pl)) (\<lambda>c1.
     bnd (match_opcode_of c1) (\<lambda>op1.
     bnd (at (r_term_arg R) data (2 + pl)) (\<lambda>(first, fl).
     bnd (byte_at data (2 + pl + fl)) (\<lambda>c2.
     bnd (match_opcode_of c2) (\<lambda>op2.
     bnd (at (r_term_arg R) data (3 + pl + fl)) (\<lambda>(second, sl).
     bnd (at (r_term_arg R) data (3 + pl + fl + sl)) (\<lambda>(start, il).
     bnd (lift (get_as_package search_pkg)) (\<lambda>pkg.
     bnd (as_integer start) (\<lambda>idx.
     bnd (match_package pkg op1 first op2 second (unat idx)) (\<lambda>r.
     ret (case r of Some k \<Rightarrow> Integer (of_nat k) | None \<Rightarrow> IntegerConstant 0xFFFFFFFFFFFFFFFF,
          3 + pl + fl + sl + il))))))))))))))"

subsection \<open>Waiting\<close>

text \<open>Try until it works or the time is over; the result is 0 or 1.  Without a time limit only
  success or an error ends the loop.\<close>

fun wait_loop :: "nat \<Rightarrow> bool aml \<Rightarrow> bool \<Rightarrow> 64 word \<Rightarrow> 64 word \<Rightarrow> 64 word aml" where
  "wait_loop 0 try_once forever start limit = hangs"
| "wait_loop (Suc k) try_once forever start limit =
    bnd try_once (\<lambda>b.
    if b then ret 0
    else if forever then wait_loop k try_once forever start limit
    else bnd monotonic_ns (\<lambda>now.
      if now - start > limit then ret 1 else wait_loop k try_once forever start limit))"

definition parse_def_acquire :: "parsers \<Rightarrow> parser" where
  "parse_def_acquire R = guarded (\<lambda>data. opcode_extended data 0x23
    (bnd (at (r_super_name R) data 1) (\<lambda>(obj, ol).
     bnd (le_at data (2 + ol) 2) (\<lambda>timeout.
     bnd monotonic_ns (\<lambda>start.
     bnd (wait_loop (fuel R) (acquire_mutex obj) (timeout = 0xFFFF) start (of_nat timeout * 1000000)) (\<lambda>r.
     ret (Integer r, 4 + ol)))))))"

definition parse_def_wait :: "parsers \<Rightarrow> parser" where
  "parse_def_wait R = guarded (\<lambda>data. opcode_extended data 0x25
    (bnd (at (r_super_name R) data 2) (\<lambda>(obj, ol).
     bnd (at (r_term_arg R) data (2 + ol)) (\<lambda>(timeout_obj, tl).
     bnd (as_integer timeout_obj) (\<lambda>timeout.
     bnd monotonic_ns (\<lambda>start.
     bnd (wait_loop (fuel R) (wait_for_event obj) (timeout \<ge> 0xFFFF) start (timeout * 1000000)) (\<lambda>r.
     ret (Integer r, 2 + ol + tl))))))))"

definition parse_def_timer :: "parsers \<Rightarrow> parser" where
  "parse_def_timer R = guarded (\<lambda>data. opcode_extended data 0x33
    (bnd monotonic_ns (\<lambda>ns. ret (Integer ns, 2))))"

subsection \<open>Loading tables\<close>

text \<open>The first \<open>n\<close> bytes behind the pointer of a string; a shorter string would be read out of
  bounds, which the model treats as a crash.\<close>

definition raw_prefix :: "nat \<Rightarrow> rstring \<Rightarrow> bytes aml" where
  "raw_prefix n s = (if n \<le> length s then ret (take n s) else panics)"

definition parse_def_load_table :: "parsers \<Rightarrow> parser" where
  "parse_def_load_table R = guarded (\<lambda>data. opcode_extended data 0x1F
    (bnd (at (r_term_arg R) data 2) (\<lambda>(signature, l1).
     bnd (at (r_term_arg R) data (2 + l1)) (\<lambda>(oem_id, l2).
     bnd (at (r_term_arg R) data (2 + l1 + l2)) (\<lambda>(oem_table_id, l3).
     bnd (at (r_term_arg R) data (2 + l1 + l2 + l3)) (\<lambda>(root_path, l4).
     bnd (at (r_term_arg R) data (2 + l1 + l2 + l3 + l4)) (\<lambda>(parameter_path, l5).
     bnd (at (r_term_arg R) data (2 + l1 + l2 + l3 + l4 + l5)) (\<lambda>(parameter_data, l6).
     let len = 2 + l1 + l2 + l3 + l4 + l5 + l6 in
     bnd (gets sdt_pointers) (\<lambda>ptrs. case ptrs of
       None \<Rightarrow> ret (IntegerConstant 0, len)
     | Some ptrs \<Rightarrow>
         bnd (as_string signature) (\<lambda>s1.
         bnd (raw_prefix 4 s1) (\<lambda>sig4.
         bnd (lift (expect_utf8 sig4)) (\<lambda>sig_str.
         bnd (as_string oem_id) (\<lambda>s2.
         bnd (raw_prefix 6 s2) (\<lambda>oem_str.
         bnd (as_string oem_table_id) (\<lambda>s3.
         bnd (raw_prefix 8 s3) (\<lambda>oem_table_str.
         case map_of ptrs (sig_str, oem_str, oem_table_str) of
           None \<Rightarrow> ret (IntegerConstant 0, len)
         | Some t \<Rightarrow>
             bnd (as_string root_path) (\<lambda>root.
             bnd (parse_aml_with_scope R (sdt_data t) root) (\<lambda>hdl.
             bnd (ignore (modify R parameter_path parameter_data)) (\<lambda>_.
             ret (DDBHandle hdl (sig_str, oem_str, oem_table_str), len))))))))))))))))))))"

subsection \<open>Selection\<close>

definition parse_type2_opcode :: "parsers \<Rightarrow> parser" where
  "parse_type2_opcode R = guarded (selector
    [parse_def_increment R, parse_def_acquire R, parse_def_wait R, parse_def_land R, parse_def_lequal R,
     parse_def_lgreater R, parse_def_lless R, parse_def_lnot R, parse_def_lor R, parse_def_size_of R,
     parse_def_store R, parse_def_subtract R, parse_def_to_buffer R, parse_def_to_hex_string R,
     parse_def_to_bcd R, parse_def_to_decimal_string R, parse_def_to_integer R, parse_def_to_string R,
     parse_def_add R, parse_def_xor R, parse_def_shift_left R, parse_def_shift_right R, parse_def_mod R,
     parse_def_and R, parse_def_or R, parse_def_concat_res R, parse_def_concat R, parse_def_cond_ref_of R,
     parse_def_copy_object R, parse_def_decrement R, parse_def_divide R, parse_def_find_set_left_bit R,
     parse_def_find_set_right_bit R, parse_def_from_bcd R, parse_def_load_table R, parse_def_match R,
     parse_def_mid R, parse_def_multiply R, parse_def_nand R, parse_def_nor R, parse_def_not R,
     parse_def_timer R, parse_def_buffer R, parse_def_package R, parse_def_var_package R,
     parse_def_object_type R, parse_def_deref_of R, parse_def_ref_of R, parse_def_index R,
     parse_method_invocation R])"

definition parse_term_arg :: "parsers \<Rightarrow> parser" where
  "parse_term_arg R = guarded (selector
    [parse_local_obj, parse_data_obj R, parse_arg_obj, parse_type2_opcode R])"

definition parse_data_ref_obj :: "parsers \<Rightarrow> parser" where
  "parse_data_ref_obj R = guarded (\<lambda>data s.
    case selector [parse_data_obj R, r_term_arg R] data s of
      (Err AmlInvalidOpCode, s') \<Rightarrow>
        bnd (r_super_name R data) (\<lambda>(v, len). ret (case v of
            VString n \<Rightarrow> (ObjectReference (Object n), len)
          | _ \<Rightarrow> (v, len))) s'
    | r \<Rightarrow> r)"

end
