(* ===== verification/Aml_Objects.thy ===== *)
theory Aml_Objects
  imports Aml_Opcodes
begin

text \<open>
  Named objects of the AML interpreter: kernel/src/acpi/aml/namedobj.rs.
\<close>

text \<open>A minimal length, checked before anything else.\<close>

definition at_least :: "nat \<Rightarrow> string \<Rightarrow> parser \<Rightarrow> parser" where
  "at_least n msg p data = (if length data < n then fail (AmlParseError msg) else p data)"

subsection \<open>Buffer fields\<close>

definition create_field :: "parsers \<Rightarrow> bytes \<Rightarrow> 64 word \<Rightarrow> (unit aml \<Rightarrow> unit aml) \<Rightarrow> (aml_value \<times> nat) aml" where
  "create_field R data bits result =
    bnd (at (r_term_arg R) data 2) (\<lambda>(src, sl).
    bnd (at (r_term_arg R) data (2 + sl)) (\<lambda>(bit_index, bl).
    bnd (at parse_name_string data (1 + sl + bl)) (\<lambda>(name, nl).
    bnd (scoped_name name) (\<lambda>sc.
    bnd (result (add_to_namespace sc (BufferField (MkBufferField src bit_index (IntegerConstant bits))))) (\<lambda>_.
    ret (VNone, 2 + nl + sl + bl))))))"

definition parse_def_create_bit_field :: "parsers \<Rightarrow> parser" where
  "parse_def_create_bit_field R = at_least 2 ''DefCreateBitField - data truncated'' (guarded (\<lambda>data.
     opcode data 0x8D (create_field R data 1 (\<lambda>m. m))))"

definition parse_def_create_byte_field :: "parsers \<Rightarrow> parser" where
  "parse_def_create_byte_field R = at_least 2 ''DefCreateByteField - data truncated'' (guarded (\<lambda>data.
     opcode data 0x8C (create_field R data 8 (\<lambda>m. m))))"

definition parse_def_create_word_field :: "parsers \<Rightarrow> parser" where
  "parse_def_create_word_field R = at_least 2 ''DefCreateWordField - data truncated'' (guarded (\<lambda>data.
     opcode data 0x8B (create_field R data 16 (\<lambda>m. m))))"

definition parse_def_create_dword_field :: "parsers \<Rightarrow> parser" where
  "parse_def_create_dword_field R = at_least 2 ''DefCreateDwordField - data truncated'' (guarded (\<lambda>data.
     opcode data 0x8A (create_field R data 32 ignore)))"

definition parse_def_create_qword_field :: "parsers \<Rightarrow> parser" where
  "parse_def_create_qword_field R = at_least 2 ''DefCreateQwordField - data truncated'' (guarded (\<lambda>data.
     opcode data 0x8F (create_field R data 64 (\<lambda>m. m))))"

definition parse_def_create_field :: "parsers \<Rightarrow> parser" where
  "parse_def_create_field R = at_least 2 ''DefCreateField - data truncated'' (guarded (\<lambda>data.
     opcode_extended data 0x13
      (bnd (at (r_term_arg R) data 2) (\<lambda>(src, sl).
       bnd (at (r_term_arg R) data (2 + sl)) (\<lambda>(bit_index, bl).
       bnd (at (r_term_arg R) data (2 + sl + bl)) (\<lambda>(num_bits, ml).
       bnd (at parse_name_string data (2 + sl + bl + ml)) (\<lambda>(name, nl).
       bnd (scoped_name name) (\<lambda>sc.
       bnd (add_to_namespace sc (BufferField (MkBufferField src bit_index num_bits))) (\<lambda>_.
       ret (VNone, 2 + nl + sl + bl + ml))))))))))"

subsection \<open>Regions, events and mutexes\<close>

definition parse_def_data_region :: "parsers \<Rightarrow> parser" where
  "parse_def_data_region R = at_least 2 ''DefDataRegion - data truncated'' (guarded (\<lambda>data.
     opcode_extended data 0x88
      (bnd (at parse_name_string data 2) (\<lambda>(name, nl).
       bnd (at (r_term_arg R) data (2 + nl)) (\<lambda>(signature, sl).
       bnd (at (r_term_arg R) data (2 + nl + sl)) (\<lambda>(oem_id, ol).
       bnd (at (r_term_arg R) data (2 + nl + sl + ol)) (\<lambda>(oem_table_id, tl).
       bnd (scoped_name name) (\<lambda>sc.
       bnd (add_to_namespace sc (OperationRegion (MkOperationRegion SystemMemory (IntegerConstant 0)
              (IntegerConstant 0) NullAccessor None))) (\<lambda>_.
       ret (VNone, 2 + nl + sl + ol + tl))))))))))"

definition parse_def_event :: "parsers \<Rightarrow> parser" where
  "parse_def_event R = at_least 2 ''DefEvent - data truncated'' (guarded (\<lambda>data.
     opcode_extended data 0x02
      (bnd (at parse_name_string data 2) (\<lambda>(name, nl).
       bnd (scoped_name name) (\<lambda>sc.
       bnd (add_to_namespace sc (Event 0)) (\<lambda>_. ret (VNone, 2 + nl)))))))"

definition region_space_of :: "byte \<Rightarrow> region_space aml" where
  "region_space_of c =
    (if c = 0x00 then ret SystemMemory else if c = 0x01 then ret SystemIO else if c = 0x02 then ret PCIConfig
     else if c = 0x03 then ret EmbeddedControl else if c = 0x04 then ret SMBus
     else if c = 0x05 then ret SystemCMOS else if c = 0x06 then ret PciBarTarget
     else if c = 0x07 then ret IPMI else if c = 0x08 then ret GeneralPurposeIO
     else if c = 0x09 then ret GenericSerialBus else if 0x80 \<le> c then ret (UserDefined c)
     else fail (AmlParseError ''OpRegion - invalid region''))"

definition parse_def_op_region :: "parsers \<Rightarrow> parser" where
  "parse_def_op_region R = at_least 3 ''DefOpRegion - data truncated'' (guarded (\<lambda>data.
     opcode_extended data 0x80
      (bnd (at parse_name_string data 2) (\<lambda>(name, nl).
       bnd (byte_at data (2 + nl)) (\<lambda>c.
       bnd (region_space_of c) (\<lambda>region.
       bnd (at (r_term_arg R) data (3 + nl)) (\<lambda>(off, ol).
       bnd (at (r_term_arg R) data (3 + nl + ol)) (\<lambda>(len, ll).
       bnd (scoped_name name) (\<lambda>sc.
       bnd (add_to_namespace sc (OperationRegion (MkOperationRegion region off len NullAccessor None))) (\<lambda>_.
       ret (VNone, 3 + nl + ol + ll)))))))))))"

definition parse_def_mutex :: "parsers \<Rightarrow> parser" where
  "parse_def_mutex R = at_least 1 ''DefMutex - data truncated'' (guarded (\<lambda>data.
     opcode_extended data 0x01
      (bnd (at parse_name_string data 2) (\<lambda>(name, nl).
       bnd (byte_at data (2 + nl)) (\<lambda>flags.
       bnd (scoped_name name) (\<lambda>sc.
       bnd (add_to_namespace sc (Mutex (flags AND 0x0F) None)) (\<lambda>_. ret (VNone, 3 + nl))))))))"

subsection \<open>Fields\<close>

definition access_type_of :: "string \<Rightarrow> byte \<Rightarrow> access_type outcome" where
  "access_type_of msg c =
    (let k = c AND 0x0F in
     if k = 0 then Ok AnyAcc else if k = 1 then Ok ByteAcc else if k = 2 then Ok WordAcc
     else if k = 3 then Ok DWordAcc else if k = 4 then Ok QWordAcc else if k = 5 then Ok (BufferAcc AttribByte)
     else Err (AmlParseError msg))"

definition update_rule_of :: "string \<Rightarrow> byte \<Rightarrow> update_rule outcome" where
  "update_rule_of msg c =
    (let k = drop_bit 5 (c AND 0x60) in
     if k = 0 then Ok Preserve else if k = 1 then Ok WriteAsOnes else if k = 2 then Ok WriteAsZeros
     else Err (AmlParseError msg))"

definition field_flags_of :: "string \<Rightarrow> string \<Rightarrow> byte \<Rightarrow> field_flags outcome" where
  "field_flags_of msg1 msg2 flags_raw =
    obind (access_type_of msg1 flags_raw) (\<lambda>a.
    obind (update_rule_of msg2 flags_raw) (\<lambda>u.
    Ok \<lparr> ff_access_type = a, ff_lock_rule = (flags_raw AND 0x10 = 0x10), ff_update_rule = u \<rparr>))"

definition parse_named_field :: "bytes \<Rightarrow> ((rstring \<times> nat) \<times> nat) outcome" where
  "parse_named_field data =
    (if length data < 4 then Err (AmlParseError ''NamedField - data truncated'')
     else obind (range_o data 0 4) (\<lambda>d.
       obind (parse_name_seg d) (\<lambda>(name_seg, name_seg_len). case from_utf8 name_seg of
         None \<Rightarrow> Err (AmlParseError ''NamedField - invalid name'')
       | Some name \<Rightarrow>
           obind (parse_pkg_length (drop 4 data)) (\<lambda>(len, length_len).
           Ok ((name, len), name_seg_len + length_len)))))"

definition parse_reserved_field :: "bytes \<Rightarrow> (nat \<times> nat) outcome" where
  "parse_reserved_field data =
    (if length data < 1 then Err (AmlParseError ''ReservedField - data truncated'')
     else obind (opcode_o data 0x00) (\<lambda>_.
       obind (parse_pkg_length (drop 1 data)) (\<lambda>(len, length_len). Ok (len, 1 + length_len))))"

definition access_attrib_of :: "bytes \<Rightarrow> byte \<Rightarrow> access_attrib outcome" where
  "access_attrib_of data flags_raw =
    (let k = drop_bit 6 (flags_raw AND 0xC0) in
     obind (byte_o data 2) (\<lambda>a.
     if k = 0 then
       if a = 0x02 then Ok AttribQuick else if a = 0x04 then Ok AttribSendReceive
       else if a = 0x06 then Ok AttribByte else if a = 0x08 then Ok AttribWord
       else if a = 0x0A then Ok AttribBlock
       else if a = 0x0B then omap AttribBytes (byte_o data 3)
       else if a = 0x0C then Ok AttribProcessCall else if a = 0x0D then Ok AttribBlockProcessCall
       else if a = 0x0E then omap AttribRawBytes (byte_o data 3)
       else if a = 0x0F then omap AttribRawProcessBytes (byte_o data 3)
       else Err (AmlParseError ''AccessField - Invalid access attrib'')
     else if k = 1 then Ok (AttribBytes a)
     else if k = 2 then Ok (AttribRawBytes a)
     else Ok (AttribRawProcessBytes a)))"

definition parse_access_field :: "bytes \<Rightarrow> ((access_type \<times> access_attrib) \<times> nat) outcome" where
  "parse_access_field data =
    (if length data < 3 then Err (AmlParseError ''AccessField - data truncated'')
     else if data ! 0 \<noteq> 0x01 \<and> data ! 0 \<noteq> 0x03 then Err AmlInvalidOpCode
     else obind (access_type_of ''AccessField - Invalid access type'' (data ! 1)) (\<lambda>a.
       obind (access_attrib_of data (data ! 1)) (\<lambda>b.
       Ok ((a, b), if data ! 0 = 0x01 then 3 else 4))))"

definition parse_connect_field :: "parsers \<Rightarrow> parser" where
  "parse_connect_field R = at_least 1 ''ConnectField - data truncated'' (guarded (\<lambda>data. opcode data 0x02
     (bnd (attempt (parse_def_buffer R (drop 1 data))) (\<lambda>r. case r of
        Inr (v, len) \<Rightarrow> ret (v, len + 1)
      | Inl _ \<Rightarrow>
          bnd (parse_name_string (drop 1 data)) (\<lambda>(name, nl).
          bnd (as_string name) (\<lambda>s. ret (Alias s, nl + 1)))))))"

text \<open>The state of a field list: the connection, the flags and the bit offset of the next field.\<close>

type_synonym field_state = "aml_value \<times> field_flags \<times> nat"

definition parse_field_element :: "parsers \<Rightarrow> bytes \<Rightarrow> aml_value field_selector \<Rightarrow> field_state \<Rightarrow> (nat \<times> field_state) aml" where
  "parse_field_element R data sel = (\<lambda>(connection, flags, off).
    bnd (gets (exec \<circ> cur)) (\<lambda>e. case e of
      EXECUTING \<Rightarrow>
        bnd (attempt (lift (parse_named_field data))) (\<lambda>named. case named of
          Inr ((name, bits), len) \<Rightarrow>
            bnd (scoped_name (VString name)) (\<lambda>sc.
            bnd (add_to_namespace sc (FieldUnit (MkFieldUnit sel connection flags off bits))) (\<lambda>_.
            ret (len, connection, flags, off + bits)))
        | Inl _ \<Rightarrow>
            bnd (attempt (lift (parse_reserved_field data))) (\<lambda>reserved. case reserved of
              Inr (bits, len) \<Rightarrow> ret (len, connection, flags, off + bits)
            | Inl _ \<Rightarrow>
                bnd (attempt (lift (parse_access_field data))) (\<lambda>access. case access of
                  Inr ((a, attrib), len) \<Rightarrow>
                    ret (len, connection,
                      flags\<lparr>ff_access_type := (case a of BufferAcc _ \<Rightarrow> BufferAcc attrib | _ \<Rightarrow> a)\<rparr>, off)
                | Inl _ \<Rightarrow>
                    bnd (attempt (parse_connect_field R data)) (\<lambda>connect. case connect of
                      Inr (v, len) \<Rightarrow> ret (len, v, flags, off)
                    | Inl _ \<Rightarrow> fail AmlInvalidOpCode))))
    | _ \<Rightarrow> ret (0, connection, flags, off)))"

fun field_loop :: "nat \<Rightarrow> parsers \<Rightarrow> bytes \<Rightarrow> aml_value field_selector \<Rightarrow> field_state \<Rightarrow> nat \<Rightarrow> (aml_value \<times> nat) aml" where
  "field_loop 0 R data sel fs off = hangs"
| "field_loop (Suc k) R data sel fs off =
    (if off < length data then
       bnd (tail_at data off) (\<lambda>d.
       bnd (parse_field_element R d sel fs) (\<lambda>(len, fs).
       bnd (gets (exec \<circ> cur)) (\<lambda>e. case e of
         EXECUTING \<Rightarrow> field_loop k R data sel fs (off + len)
       | _ \<Rightarrow> ret (VNone, 0))))
     else ret (VNone, length data))"

definition parse_field_list :: "parsers \<Rightarrow> aml_value field_selector \<Rightarrow> field_flags \<Rightarrow> parser" where
  "parse_field_list R sel flags = guarded (\<lambda>data.
     field_loop (fuel R) R data sel (Uninitialized, flags, 0) 0)"

definition parse_def_bank_field :: "parsers \<Rightarrow> parser" where
  "parse_def_bank_field R = at_least 3 ''DefBankField - data truncated'' (guarded (\<lambda>data.
     opcode_extended data 0x87
      (bnd (pkg_length data 2) (\<lambda>(pl, pll).
       bnd (range_at data (2 + pll) (2 + pl)) (\<lambda>data.
       bnd (parse_name_string data) (\<lambda>(region_name, rl).
       bnd (within parse_name_string data (2 + pll + rl) (2 + pl)) (\<lambda>(bank_name, bl).
       bnd (within (r_term_arg R) data (2 + pll + rl) (2 + pl)) (\<lambda>(bank_value, vl).
       bnd (byte_at data (2 + pll + rl + bl + vl)) (\<lambda>flags_raw.
       bnd (lift (field_flags_of ''BankField - invalid access type'' ''BankField - invalid update rule'' flags_raw)) (\<lambda>flags.
       bnd (as_string region_name) (\<lambda>region.
       bnd (as_string bank_name) (\<lambda>bank_register.
       bnd (within (parse_field_list R (Bank region bank_register bank_value) flags) data
             (3 + pll + rl + bl + vl) (2 + pl)) (\<lambda>_.
       ret (VNone, 2 + pl))))))))))))))"

definition parse_def_field :: "parsers \<Rightarrow> parser" where
  "parse_def_field R = at_least 3 ''DefField - data truncated'' (guarded (\<lambda>data.
     opcode_extended data 0x81
      (bnd (pkg_length data 2) (\<lambda>(pl, pll).
       bnd (within parse_name_string data (2 + pll) (2 + pl)) (\<lambda>(name, nl).
       bnd (byte_at data (2 + pll + nl)) (\<lambda>flags_raw.
       bnd (lift (field_flags_of ''Field - Invalid access type'' ''Field - Invalid update rule'' flags_raw)) (\<lambda>flags.
       bnd (as_string name) (\<lambda>region.
       bnd (within (parse_field_list R (Region region) flags) data (3 + pll + nl) (2 + pl)) (\<lambda>_.
       ret (VNone, 2 + pl))))))))))"

definition parse_def_index_field :: "parsers \<Rightarrow> parser" where
  "parse_def_index_field R = at_least 3 ''DefIndexField - data truncated'' (guarded (\<lambda>data.
     opcode_extended data 0x86
      (bnd (pkg_length data 2) (\<lambda>(pl, pll).
       bnd (within parse_name_string data (2 + pll) (2 + pl)) (\<lambda>(idx_name, il).
       bnd (within parse_name_string data (2 + pll + il) (2 + pl)) (\<lambda>(data_name, dl).
       bnd (byte_at data (2 + pll + il + dl)) (\<lambda>flags_raw.
       bnd (lift (field_flags_of ''IndexField - Invalid access type'' ''IndexField - Invalid update rule'' flags_raw)) (\<lambda>flags.
       bnd (as_string idx_name) (\<lambda>index_selector.
       bnd (as_string data_name) (\<lambda>data_selector.
       bnd (within (parse_field_list R (IndexSel index_selector data_selector) flags) data
             (3 + pll + il + dl) (2 + pl)) (\<lambda>_.
       ret (VNone, 2 + pl))))))))))))"

subsection \<open>Methods and devices\<close>

definition parse_def_method :: "parsers \<Rightarrow> parser" where
  "parse_def_method R = at_least 1 ''DefMethod - data truncated'' (guarded (\<lambda>data.
     opcode data 0x14
      (bnd (pkg_length data 1) (\<lambda>(pl, pll).
       bnd (at parse_name_string data (1 + pll)) (\<lambda>(name, nl).
       bnd (byte_at data (1 + pll + nl)) (\<lambda>flags.
       bnd (range_at data (2 + pll + nl) (1 + pl)) (\<lambda>tl.
       bnd (scoped_name name) (\<lambda>sc.
       bnd (add_to_namespace sc (Method \<lparr> arg_count = flags AND 0x07, serialized = (flags AND 0x08 = 0x08),
              m_sync_level = flags AND drop_bit 4 0xF0, term_list = tl \<rparr>)) (\<lambda>_.
       ret (VNone, 1 + pl))))))))))"

text \<open>The objects of a device are parsed in a context of their own; their names are its list.\<close>

definition child_objects :: "parsers \<Rightarrow> rstring \<Rightarrow> bytes \<Rightarrow> nat \<Rightarrow> nat \<Rightarrow> rstring list aml" where
  "child_objects R sc data a b =
    bnd (new_ctx sc) (\<lambda>c.
    bnd (in_ctx c (within (r_object_list R) data a b)) (\<lambda>(_, c). ret (namespace_delta c)))"

definition parse_def_device :: "parsers \<Rightarrow> parser" where
  "parse_def_device R = at_least 2 ''DefDevice - data truncated'' (guarded (\<lambda>data.
     opcode_extended data 0x82
      (bnd (pkg_length data 2) (\<lambda>(pl, pll).
       bnd (within parse_name_string data (2 + pll) (2 + pl)) (\<lambda>(name, nl).
       bnd (scoped_name name) (\<lambda>sc.
       bnd (child_objects R sc data (2 + pll + nl) (2 + pl)) (\<lambda>objs.
       bnd (add_to_namespace sc (Device \<lparr> dev_obj_list = objs, dev_notify_methods = [] \<rparr>)) (\<lambda>_.
       ret (VNone, 2 + pl)))))))))"

definition parse_def_power_res :: "parsers \<Rightarrow> parser" where
  "parse_def_power_res R = at_least 5 ''DefPowerRes - data truncated'' (guarded (\<lambda>data.
     opcode_extended data 0x84
      (bnd (pkg_length data 2) (\<lambda>(pl, pll).
       bnd (at parse_name_string data (2 + pll)) (\<lambda>(name, nl).
       bnd (scoped_name name) (\<lambda>sc.
       bnd (byte_at data (2 + pll + nl)) (\<lambda>level.
       bnd (le_at data (3 + pll + nl) 2) (\<lambda>order.
       bnd (child_objects R sc data (5 + pll + nl) (2 + pl)) (\<lambda>objs.
       bnd (add_to_namespace sc (PowerResource \<lparr> system_level = level, resource_order = of_nat order,
              pr_obj_list = objs \<rparr>)) (\<lambda>_.
       ret (VNone, 2 + pl)))))))))))"

definition parse_def_processor :: "parsers \<Rightarrow> parser" where
  "parse_def_processor R = at_least 8 ''DefProcessor - data truncated'' (guarded (\<lambda>data.
     opcode_extended data 0x83
      (bnd (pkg_length data 2) (\<lambda>(pl, pll).
       bnd (at parse_name_string data (2 + pll)) (\<lambda>(name, nl).
       bnd (scoped_name name) (\<lambda>sc.
       bnd (byte_at data (2 + pll + nl)) (\<lambda>pid.
       bnd (le_at data (3 + pll + nl) 4) (\<lambda>p_blk_addr.
       bnd (byte_at data (7 + pll + nl)) (\<lambda>p_blk_len.
       bnd (child_objects R sc data (8 + pll + nl) (2 + pl)) (\<lambda>objs.
       bnd (add_to_namespace sc (Processor \<lparr> proc_id = pid,
              p_blk = (if p_blk_len > 0 then Some (of_nat p_blk_addr) else None),
              proc_obj_list = objs, proc_notify_methods = [] \<rparr>)) (\<lambda>_.
       ret (VNone, 2 + pl))))))))))))"

definition parse_def_thermal_zone :: "parsers \<Rightarrow> parser" where
  "parse_def_thermal_zone R = at_least 2 ''DefThermalZone - data truncated'' (guarded (\<lambda>data.
     opcode_extended data 0x85
      (bnd (pkg_length data 2) (\<lambda>(pl, pll).
       bnd (within parse_name_string data (2 + pll) (2 + pl)) (\<lambda>(name, nl).
       bnd (scoped_name name) (\<lambda>sc.
       bnd (child_objects R sc data (2 + pll + nl) (2 + pl)) (\<lambda>objs.
       bnd (add_to_namespace sc (ThermalZone \<lparr> tz_obj_list = objs, tz_notify_methods = [] \<rparr>)) (\<lambda>_.
       ret (VNone, 2 + pl)))))))))"

definition parse_def_external :: "parsers \<Rightarrow> parser" where
  "parse_def_external R = at_least 2 ''DefExternal - data truncated'' (guarded (\<lambda>data.
     opcode_extended data 0x15
      (bnd (at parse_name_string data 1) (\<lambda>(object_name, nl).
       bnd (byte_at data (1 + nl)) (\<lambda>object_type.
       bnd (byte_at data (2 + nl)) (\<lambda>argument_count.
       bnd (scoped_name object_name) (\<lambda>sc.
       bnd (add_to_namespace sc (if object_type = 8
              then Method \<lparr> arg_count = argument_count, serialized = False, m_sync_level = 0, term_list = [] \<rparr>
              else Uninitialized)) (\<lambda>_.
       ret (VNone, 3 + nl)))))))))"

definition parse_named_obj :: "parsers \<Rightarrow> parser" where
  "parse_named_obj R = guarded (selector
    [parse_def_bank_field R, parse_def_create_bit_field R, parse_def_create_byte_field R,
     parse_def_create_word_field R, parse_def_create_dword_field R, parse_def_create_qword_field R,
     parse_def_create_field R, parse_def_data_region R, parse_def_event R, parse_def_external R,
     parse_def_device R, parse_def_op_region R, parse_def_field R, parse_def_index_field R,
     parse_def_method R, parse_def_mutex R, parse_def_power_res R, parse_def_processor R,
     parse_def_thermal_zone R])"

end
