(* ===== verification/Aml_Interp.thy ===== *)
theory Aml_Interp
  imports Aml_Objects
begin

text \<open>
  The statements of the AML interpreter (kernel/src/acpi/aml/type1opcode.rs), the namespace modifiers
  (namespacemodifier.rs), the lists of terms (termlist.rs), and the loading of tables (aml/mod.rs and
  the namespace part of kernel/src/acpi/mod.rs).

  The last section ties the recursion: \<open>parsers_n n\<close> are the parsers with recursion depth and loops
  bounded by \<open>n\<close>; running out of the bound is the outcome \<open>Hang\<close>.
\<close>

subsection \<open>Statements\<close>

definition set_exec :: "exec_state \<Rightarrow> unit aml" where
  "set_exec e = upd_ctx (\<lambda>c. c\<lparr>exec := e\<rparr>)"

definition parse_def_break :: "parsers \<Rightarrow> parser" where
  "parse_def_break R = guarded (\<lambda>data. opcode data 0xA5
     (bnd (set_exec BREAK) (\<lambda>_. ret (VNone, 1))))"

definition parse_def_breakpoint :: "parsers \<Rightarrow> parser" where
  "parse_def_breakpoint R = guarded (\<lambda>data. opcode data 0xCC (ret (VNone, 1)))"

definition parse_def_continue :: "parsers \<Rightarrow> parser" where
  "parse_def_continue R = guarded (\<lambda>data. opcode data 0x9F
     (bnd (set_exec CONTINUE) (\<lambda>_. ret (VNone, 1))))"

definition parse_def_noop :: "parsers \<Rightarrow> parser" where
  "parse_def_noop R = guarded (\<lambda>data. opcode data 0xA3 (ret (VNone, 1)))"

definition parse_def_fatal :: "parsers \<Rightarrow> parser" where
  "parse_def_fatal R = guarded (\<lambda>data. opcode_extended data 0x32
    (bnd (byte_at data 2) (\<lambda>fatal_type.
     bnd (le_at data 3 2) (\<lambda>fatal_code.
     bnd (at (r_term_arg R) data 5) (\<lambda>(fatal_arg, _).
     fail (AmlFatalError fatal_type (of_nat fatal_code) fatal_arg))))))"

subsection \<open>Tables\<close>

text \<open>
  The table header over the bytes of a buffer: a buffer too short for the header, or for the length
  that the header claims, would be read out of bounds, which the model treats as a crash.
\<close>

definition data_len :: "nat \<Rightarrow> nat" where
  "data_len total_size = (if total_size \<ge> 36 then total_size - 36 else 0)"

definition sdt_of_bytes :: "bytes \<Rightarrow> sdt outcome" where
  "sdt_of_bytes tbl =
    (let n = data_len (le_nat (take 4 (drop 4 tbl))) in
     if length tbl < 36 + n then Panic
     else Ok \<lparr> sdt_signature_bytes = take 4 tbl, sdt_oem_id = take 6 (drop 10 tbl),
               sdt_oem_table_id = take 8 (drop 16 tbl), sdt_data = take n (drop 36 tbl) \<rparr>)"

definition is_aml_table :: "sdt \<Rightarrow> bool" where
  "is_aml_table t \<longleftrightarrow> sdt_signature_bytes t = str ''DSDT'' \<or> sdt_signature_bytes t = str ''SSDT''"

definition get_sdt_signature :: "sdt \<Rightarrow> sdt_signature outcome" where
  "get_sdt_signature t =
    obind (expect_utf8 (sdt_signature_bytes t)) (\<lambda>signature. Ok (signature, sdt_oem_id t, sdt_oem_table_id t))"

definition load_table :: "sdt_signature \<Rightarrow> unit aml" where
  "load_table sig = update (\<lambda>s. s\<lparr>sdt_order := map_option (\<lambda>ord. ord @ [sig]) (sdt_order s)\<rparr>)"

definition parse_aml_table :: "parsers \<Rightarrow> sdt \<Rightarrow> rstring list aml" where
  "parse_aml_table R t = parse_aml_with_scope R (sdt_data t) [0x5C]"

definition parse_def_load :: "parsers \<Rightarrow> parser" where
  "parse_def_load R = guarded (\<lambda>data. opcode_extended data 0x20
    (bnd (at parse_name_string data 2) (\<lambda>(name, nl).
     bnd (at (parse_super_name R) data (2 + nl)) (\<lambda>(ddb_handle_object, dl).
     bnd (get_value name) (\<lambda>v.
     bnd (as_buffer v) (\<lambda>tbl.
     bnd (lift (sdt_of_bytes tbl)) (\<lambda>t.
     if is_aml_table t then
       bnd (lift (get_sdt_signature t)) (\<lambda>sig.
       bnd (load_table sig) (\<lambda>_.
       bnd (parse_aml_table R t) (\<lambda>delta.
       bnd (ignore (modify R ddb_handle_object (DDBHandle delta sig))) (\<lambda>_.
       ret (VNone, 2 + nl + dl)))))
     else fail AmlValueError)))))))"

definition parse_def_unload :: "parsers \<Rightarrow> parser" where
  "parse_def_unload R = guarded (\<lambda>data. opcode_extended data 0x2A
    (bnd (at (parse_super_name R) data 2) (\<lambda>(obj, ol).
     bnd (get_value obj) (\<lambda>v.
     bnd (\<lambda>s. (get_as_ddb_handle (sdt_order s) v, s)) (\<lambda>(delta, _).
     bnd lock_ns (\<lambda>_.
     bnd (gets acpi_namespace) (\<lambda>ns.
     bnd (case ns of
            None \<Rightarrow> ret ()
          | Some n \<Rightarrow> put_ns (foldl (\<lambda>n k. n(k := None)) n delta)) (\<lambda>_.
     ret (VNone, 2 + ol)))))))))"

subsection \<open>Events, mutexes and time\<close>

text \<open>The callbacks that a notification runs, recorded in the order of their calls.\<close>

definition notify_all :: "notify_methods \<Rightarrow> 8 word \<Rightarrow> unit aml" where
  "notify_all methods number =
    (case map_of methods number of
       None \<Rightarrow> ret ()
     | Some ms \<Rightarrow> update (\<lambda>s. s\<lparr>notified := notified s @ ms\<rparr>))"

definition parse_def_notify :: "parsers \<Rightarrow> parser" where
  "parse_def_notify R = guarded (\<lambda>data. opcode data 0x86
    (bnd (at (parse_super_name R) data 1) (\<lambda>(obj, ol).
     bnd (at (r_term_arg R) data (1 + ol)) (\<lambda>(value, vl).
     bnd (as_integer value) (\<lambda>number.
     bnd (get_value obj) (\<lambda>v.
     bnd (case v of
            Device d \<Rightarrow> notify_all (dev_notify_methods d) (ucast number)
          | Processor d \<Rightarrow> notify_all (proc_notify_methods d) (ucast number)
          | ThermalZone d \<Rightarrow> notify_all (tz_notify_methods d) (ucast number)
          | _ \<Rightarrow> fail AmlValueError) (\<lambda>_.
     ret (VNone, 1 + ol + vl))))))))"

definition parse_def_release :: "parsers \<Rightarrow> parser" where
  "parse_def_release R = guarded (\<lambda>data. opcode_extended data 0x27
    (bnd (at (parse_super_name R) data 2) (\<lambda>(obj, ol).
     bnd (ignore (release_mutex obj)) (\<lambda>_. ret (VNone, 2 + ol)))))"

definition parse_def_reset :: "parsers \<Rightarrow> parser" where
  "parse_def_reset R = guarded (\<lambda>data. opcode_extended data 0x26
    (bnd (at (parse_super_name R) data 2) (\<lambda>(obj, ol).
     bnd (get_value obj) (\<lambda>v.
     bnd (lift (get_as_event v)) (\<lambda>_.
     bnd (ignore (modify R obj (Event 0))) (\<lambda>_. ret (VNone, 2 + ol)))))))"

definition parse_def_signal :: "parsers \<Rightarrow> parser" where
  "parse_def_signal R = guarded (\<lambda>data. opcode_extended data 0x24
    (bnd (at (parse_super_name R) data 2) (\<lambda>(obj, ol).
     bnd (signal_event obj) (\<lambda>_. ret (VNone, 2 + ol)))))"

fun time_loop :: "nat \<Rightarrow> 64 word \<Rightarrow> 64 word \<Rightarrow> unit aml" where
  "time_loop 0 start limit = hangs"
| "time_loop (Suc k) start limit =
    bnd monotonic_ns (\<lambda>now. if now - start > limit then ret () else time_loop k start limit)"

definition delay :: "parsers \<Rightarrow> bytes \<Rightarrow> 64 word \<Rightarrow> (aml_value \<times> nat) aml" where
  "delay R data unit =
    bnd (at (r_term_arg R) data 2) (\<lambda>(time, tl).
    bnd (as_integer time) (\<lambda>timeout.
    bnd monotonic_ns (\<lambda>start.
    bnd (time_loop (fuel R) start (timeout * unit)) (\<lambda>_. ret (VNone, 2 + tl)))))"

definition parse_def_sleep :: "parsers \<Rightarrow> parser" where
  "parse_def_sleep R = guarded (\<lambda>data. opcode_extended data 0x22 (delay R data 1000000))"

definition parse_def_stall :: "parsers \<Rightarrow> parser" where
  "parse_def_stall R = guarded (\<lambda>data. opcode_extended data 0x21 (delay R data 1000))"

subsection \<open>Control flow\<close>

definition run :: "'a aml \<Rightarrow> unit aml" where
  "run m = bnd m (\<lambda>_. ret ())"

definition parse_def_if_else :: "parsers \<Rightarrow> parser" where
  "parse_def_if_else R = guarded (\<lambda>data. opcode data 0xA0
    (bnd (pkg_length data 1) (\<lambda>(pl, pll).
     bnd (within (r_term_arg R) data (1 + pll) (1 + pl)) (\<lambda>(if_condition, il).
     bnd (if length data > 1 + pl \<and> data ! (1 + pl) = 0xA1 then pkg_length data (2 + pl) else ret (0, 0)) (\<lambda>(el, ell).
     bnd (as_integer if_condition) (\<lambda>c.
     bnd (if c > 0 then run (within (r_term_list R) data (1 + pll + il) (1 + pl))
          else if el > 0 then run (within (r_term_list R) data (2 + pl + ell) (2 + pl + el))
          else ret ()) (\<lambda>_.
     ret (VNone, 1 + pl + (if el > 0 then 1 + el else 0)))))))))"

text \<open>The loop of a While; \<open>False\<close> when a Return ended it.\<close>

fun while_loop :: "nat \<Rightarrow> parsers \<Rightarrow> bytes \<Rightarrow> nat \<Rightarrow> nat \<Rightarrow> bool aml" where
  "while_loop 0 R data pl pll = hangs"
| "while_loop (Suc k) R data pl pll =
    bnd (at (r_term_arg R) data (1 + pll)) (\<lambda>(predicate, len).
    bnd (as_integer predicate) (\<lambda>c.
    if c = 0 then ret True
    else bnd (within (r_term_list R) data (1 + pll + len) (1 + pl)) (\<lambda>_.
      bnd (gets (exec \<circ> cur)) (\<lambda>e. case e of
        EXECUTING \<Rightarrow> while_loop k R data pl pll
      | BREAK \<Rightarrow> bnd (set_exec EXECUTING) (\<lambda>_. ret True)
      | CONTINUE \<Rightarrow> bnd (set_exec EXECUTING) (\<lambda>_. while_loop k R data pl pll)
      | RETURN _ \<Rightarrow> ret False))))"

definition parse_def_while :: "parsers \<Rightarrow> parser" where
  "parse_def_while R = guarded (\<lambda>data. opcode data 0xA2
    (bnd (pkg_length data 1) (\<lambda>(pl, pll).
     bnd (while_loop (fuel R) R data pl pll) (\<lambda>finished.
     ret (VNone, if finished then 1 + pl else 0)))))"

definition parse_def_return :: "parsers \<Rightarrow> parser" where
  "parse_def_return R = guarded (\<lambda>data. opcode data 0xA4
    (bnd (at (r_term_arg R) data 1) (\<lambda>(arg_object, al).
     bnd (set_exec (RETURN arg_object)) (\<lambda>_. ret (VNone, 1 + al)))))"

definition parse_type1_opcode :: "parsers \<Rightarrow> parser" where
  "parse_type1_opcode R = guarded (selector
    [parse_def_break R, parse_def_breakpoint R, parse_def_continue R, parse_def_noop R,
     parse_def_fatal R, parse_def_if_else R, parse_def_load R, parse_def_notify R, parse_def_release R,
     parse_def_reset R, parse_def_signal R, parse_def_sleep R, parse_def_stall R, parse_def_return R,
     parse_def_unload R, parse_def_while R])"

subsection \<open>Namespace modifiers\<close>

definition parse_alias_op :: "parsers \<Rightarrow> parser" where
  "parse_alias_op R = guarded (\<lambda>data. opcode data 0x06
    (bnd (at parse_name_string data 1) (\<lambda>(source_name, sl).
     bnd (at parse_name_string data (1 + sl)) (\<lambda>(alias_name, al).
     bnd (scoped_name source_name) (\<lambda>local_scope_string.
     bnd (scoped_name alias_name) (\<lambda>local_alias_string.
     bnd (add_to_namespace local_scope_string (Alias local_alias_string)) (\<lambda>_.
     ret (VNone, 1 + sl + al))))))))"

definition parse_name_op :: "parsers \<Rightarrow> parser" where
  "parse_name_op R = guarded (\<lambda>data. opcode data 0x08
    (bnd (at parse_name_string data 1) (\<lambda>(name, nl).
     bnd (at (parse_data_ref_obj R) data (1 + nl)) (\<lambda>(v, vl).
     bnd (scoped_name name) (\<lambda>sc.
     bnd (add_to_namespace sc v) (\<lambda>_. ret (VNone, 1 + nl + vl)))))))"

definition parse_scope_op :: "parsers \<Rightarrow> parser" where
  "parse_scope_op R = guarded (\<lambda>data. opcode data 0x10
    (bnd (pkg_length data 1) (\<lambda>(pl, pll).
     bnd (at parse_name_string data (1 + pll)) (\<lambda>(name, nl).
     bnd (scoped_name name) (\<lambda>local_scope_string.
     bnd (gets (scope \<circ> cur)) (\<lambda>containing_scope_string.
     bnd (upd_ctx (\<lambda>c. c\<lparr>scope := local_scope_string\<rparr>)) (\<lambda>_.
     bnd (within (r_term_list R) data (1 + pll + nl) (1 + pl)) (\<lambda>_.
     bnd (upd_ctx (\<lambda>c. c\<lparr>scope := containing_scope_string\<rparr>)) (\<lambda>_.
     ret (VNone, 1 + pl))))))))))"

definition parse_namespace_modifier :: "parsers \<Rightarrow> parser" where
  "parse_namespace_modifier R = guarded (selector [parse_alias_op R, parse_scope_op R, parse_name_op R])"

subsection \<open>Term lists\<close>

definition parse_object :: "parsers \<Rightarrow> parser" where
  "parse_object R = guarded (selector [parse_namespace_modifier R, parse_named_obj R])"

definition parse_term_obj :: "parsers \<Rightarrow> parser" where
  "parse_term_obj R = guarded (selector
    [parse_namespace_modifier R, parse_named_obj R, parse_type1_opcode R, parse_type2_opcode R])"

text \<open>The loop of both kinds of list; \<open>p\<close> parses one element.\<close>

fun list_loop :: "nat \<Rightarrow> parser \<Rightarrow> bytes \<Rightarrow> nat \<Rightarrow> (aml_value \<times> nat) aml" where
  "list_loop 0 p data off = hangs"
| "list_loop (Suc k) p data off =
    (if off < length data then
       bnd (at p data off) (\<lambda>(_, len).
       bnd (gets (exec \<circ> cur)) (\<lambda>e. case e of
         EXECUTING \<Rightarrow> list_loop k p data (off + len)
       | _ \<Rightarrow> ret (VNone, length data)))
     else ret (VNone, length data))"

definition parse_term_list :: "parsers \<Rightarrow> parser" where
  "parse_term_list R = guarded (\<lambda>data. list_loop (fuel R) (parse_term_obj R) data 0)"

definition parse_object_list :: "parsers \<Rightarrow> parser" where
  "parse_object_list R = guarded (\<lambda>data. list_loop (fuel R) (parse_object R) data 0)"

subsection \<open>Tying the recursion\<close>

primrec parsers_n :: "nat \<Rightarrow> parsers" where
  "parsers_n 0 = \<lparr> fuel = 0, r_modify = \<lambda>_ _. hangs, r_term_arg = \<lambda>_. hangs, r_term_list = \<lambda>_. hangs,
     r_object_list = \<lambda>_. hangs, r_super_name = \<lambda>_. hangs, r_data_ref_obj = \<lambda>_. hangs \<rparr>"
| "parsers_n (Suc n) = (let R = parsers_n n in
     \<lparr> fuel = Suc n, r_modify = modify R, r_term_arg = parse_term_arg R, r_term_list = parse_term_list R,
       r_object_list = parse_object_list R, r_super_name = parse_super_name R,
       r_data_ref_obj = parse_data_ref_obj R \<rparr>)"

subsection \<open>The namespace\<close>

definition find_sdt :: "rstring \<Rightarrow> sdt list aml" where
  "find_sdt name = gets (\<lambda>s. case sdt_pointers s of
       None \<Rightarrow> []
     | Some ptrs \<Rightarrow> map snd (filter (\<lambda>(sig, _). fst sig = name) ptrs))"

text \<open>Errors are printed and forgotten, but a fatal one stops the machine, which does not return.\<close>

definition init_aml_table :: "parsers \<Rightarrow> sdt \<Rightarrow> unit aml" where
  "init_aml_table R t = bnd (attempt (parse_aml_table R t)) (\<lambda>r. case r of
      Inl (AmlFatalError _ _ _) \<Rightarrow> hangs
    | Inl AmlHardFatal \<Rightarrow> hangs
    | _ \<Rightarrow> ret ())"

definition load_and_init :: "parsers \<Rightarrow> sdt \<Rightarrow> unit aml" where
  "load_and_init R t =
    bnd (lift (get_sdt_signature t)) (\<lambda>sig. bnd (load_table sig) (\<lambda>_. init_aml_table R t))"

fun init_ssdts :: "parsers \<Rightarrow> sdt list \<Rightarrow> unit aml" where
  "init_ssdts R [] = ret ()"
| "init_ssdts R (t # ts) = bnd (load_and_init R t) (\<lambda>_. init_ssdts R ts)"

definition init_namespace :: "parsers \<Rightarrow> unit aml" where
  "init_namespace R =
    bnd lock_ns (\<lambda>_.
    bnd (put_ns Map.empty) (\<lambda>_.
    bnd (find_sdt (str ''DSDT'')) (\<lambda>dsdt. case dsdt of
      [t] \<Rightarrow> bnd (load_and_init R t) (\<lambda>_. bnd (find_sdt (str ''SSDT'')) (init_ssdts R))
    | _ \<Rightarrow> ret ())))"

end
