(* ===== verification/Aml_Logic.thy ===== *)
theory Aml_Logic
  imports Aml_Interp
begin

text \<open>
  A logic for the computations of the AML interpreter.  \<open>sim m m'\<close> says two things of \<open>m\<close>: its effects
  are within the frame that every computation of the interpreter keeps, and it does what \<open>m'\<close> does
  unless it runs out of fuel.  The relation is closed under all combinators of the model, so one
  pass over the parsers gives both that the bound on recursion and loops does not change any
  result, and what a table can at most do to the rest of the kernel.
\<close>

definition returned :: "'a outcome \<Rightarrow> bool" where
  "returned r \<longleftrightarrow> r \<noteq> Panic \<and> r \<noteq> Hang"

lemma returned_simps [simp]: "returned (Ok a)" "returned (Err e)" "\<not> returned Panic" "\<not> returned Hang"
  by (simp_all add: returned_def)

definition extends :: "'a list \<Rightarrow> 'a list \<Rightarrow> bool" where
  "extends xs ys \<longleftrightarrow> take (length xs) ys = xs"

lemma extends_refl [simp]: "extends xs xs"
  by (simp add: extends_def)

lemma extends_append [simp]: "extends xs (xs @ ys)"
  by (simp add: extends_def)

lemma extends_trans: "extends xs ys \<Longrightarrow> extends ys zs \<Longrightarrow> extends xs zs"
  by (auto simp: extends_def) (metis length_take min.cobounded2 min.absorb2 take_take)

definition ctx_frame :: "aml_ctx \<Rightarrow> aml_ctx \<Rightarrow> bool" where
  "ctx_frame c c' \<longleftrightarrow> ctx_id c' = ctx_id c \<and> arg_vars c' = arg_vars c
     \<and> length (local_vars c') = length (local_vars c) \<and> extends (namespace_delta c) (namespace_delta c')"

definition world_frame :: "aml_world \<Rightarrow> aml_world \<Rightarrow> bool" where
  "world_frame s s' \<longleftrightarrow> ns_locked s' = ns_locked s \<and> clock s' = clock s \<and> sdt_pointers s' = sdt_pointers s
     \<and> ticks s \<le> ticks s' \<and> extends (notified s) (notified s')
     \<and> (acpi_namespace s \<noteq> None \<longrightarrow> acpi_namespace s' \<noteq> None)
     \<and> rel_option extends (sdt_order s) (sdt_order s')"

lemma extends_option_refl [simp]: "rel_option extends x x"
  by (simp add: option.rel_refl)

lemma extends_option_trans: "rel_option extends x y \<Longrightarrow> rel_option extends y z \<Longrightarrow> rel_option extends x z"
  by (cases x; cases y; cases z) (auto elim: extends_trans)

lemma ctx_frame_refl [simp]: "ctx_frame c c"
  by (simp add: ctx_frame_def)

lemma ctx_frame_trans: "ctx_frame a b \<Longrightarrow> ctx_frame b c \<Longrightarrow> ctx_frame a c"
  by (auto simp: ctx_frame_def elim: extends_trans)

lemma world_frame_refl [simp]: "world_frame s s"
  by (simp add: world_frame_def)

lemma world_frame_trans: "world_frame a b \<Longrightarrow> world_frame b c \<Longrightarrow> world_frame a c"
  unfolding world_frame_def by (auto elim: extends_trans extends_option_trans)

definition frame :: "'a outcome \<Rightarrow> aml_world \<Rightarrow> aml_world \<Rightarrow> bool" where
  "frame r s s' \<longleftrightarrow> world_frame s s' \<and> (returned r \<longrightarrow> ctx_frame (cur s) (cur s'))"

definition sim :: "'a aml \<Rightarrow> 'a aml \<Rightarrow> bool" where
  "sim m m' \<longleftrightarrow> (\<forall>s. frame (fst (m s)) s (snd (m s)) \<and> (fst (m s) \<noteq> Hang \<longrightarrow> m' s = m s))"

lemma simI:
  assumes "\<And>s r s'. m s = (r, s') \<Longrightarrow> frame r s s' \<and> (r \<noteq> Hang \<longrightarrow> m' s = (r, s'))"
  shows "sim m m'"
  unfolding sim_def using assms by (metis prod.collapse)

lemma simD:
  assumes "sim m m'" "m s = (r, s')"
  shows "frame r s s'" "r \<noteq> Hang \<Longrightarrow> m' s = (r, s')"
  using assms unfolding sim_def by (metis fst_conv snd_conv)+

lemma frame_world: "frame r s s' \<Longrightarrow> world_frame s s'"
  by (simp add: frame_def)

lemma frame_ok_trans: "frame (Ok a) s s' \<Longrightarrow> frame r s' s'' \<Longrightarrow> frame r s s''"
  by (auto simp: frame_def elim: world_frame_trans ctx_frame_trans)

lemma frame_refl [simp]: "frame r s s"
  by (simp add: frame_def)

lemma frame_cong: "returned r \<longleftrightarrow> returned r' \<Longrightarrow> frame r s s' \<Longrightarrow> frame r' s s'"
  by (simp add: frame_def)

subsection \<open>Combinators\<close>

named_theorems sim_intros

lemma sim_lift [sim_intros]: "sim (lift r) (lift r)"
  and sim_ret [sim_intros]: "sim (ret a) (ret a)"
  and sim_fail [sim_intros]: "sim (fail e) (fail e)"
  and sim_panics [sim_intros]: "sim panics panics"
  and sim_gets [sim_intros]: "sim (gets f) (gets f)"
  and sim_lock_ns [sim_intros]: "sim lock_ns lock_ns"
  by (auto simp: sim_def lift_def ret_def fail_def panics_def gets_def lock_ns_def)

lemma sim_hangs [sim_intros]: "sim hangs m"
  by (simp add: sim_def hangs_def)

lemma sim_read: "sim (\<lambda>s. (f s, s)) (\<lambda>s. (f s, s))"
  by (simp add: sim_def)

lemma sim_update [sim_intros]:
  assumes "\<And>s. frame (Ok ()) s (f s)"
  shows "sim (update f) (update f)"
  using assms by (simp add: sim_def update_def)

lemma sim_bnd [sim_intros]:
  assumes "sim m m'" "\<And>a. sim (f a) (f' a)"
  shows "sim (bnd m f) (bnd m' f')"
proof (rule simI)
  fix s r s' assume b: "bnd m f s = (r, s')"
  obtain r1 s1 where m: "m s = (r1, s1)" by (metis prod.exhaust)
  note d = simD [OF assms(1) m]
  show "frame r s s' \<and> (r \<noteq> Hang \<longrightarrow> bnd m' f' s = (r, s'))"
  proof (cases r1)
    case (Ok a)
    with b m have "f a s1 = (r, s')" by (simp add: bnd_def)
    note e = simD [OF assms(2) this]
    show ?thesis using d e Ok frame_ok_trans by (auto simp: bnd_def)
  next
    case (Err e)
    with b m d show ?thesis by (auto simp: bnd_def frame_def)
  next
    case Panic
    with b m d show ?thesis by (auto simp: bnd_def frame_def)
  next
    case Hang
    with b m d show ?thesis by (auto simp: bnd_def frame_def)
  qed
qed

lemma sim_attempt [sim_intros]:
  assumes "sim m m'" shows "sim (attempt m) (attempt m')"
proof (rule simI)
  fix s r s' assume b: "attempt m s = (r, s')"
  obtain r1 s1 where m: "m s = (r1, s1)" by (metis prod.exhaust)
  show "frame r s s' \<and> (r \<noteq> Hang \<longrightarrow> attempt m' s = (r, s'))"
    using b m simD [OF assms m] by (cases r1) (auto simp: attempt_def frame_def)
qed

lemma sim_ignore [sim_intros]: "sim m m' \<Longrightarrow> sim (ignore m) (ignore m')"
  unfolding ignore_def by (intro sim_intros)

lemma sim_run [sim_intros]: "sim m m' \<Longrightarrow> sim (run m) (run m')"
  unfolding run_def by (intro sim_intros)

lemma sim_holding [sim_intros]:
  assumes "sim m m'" shows "sim (holding m) (holding m')"
proof (rule simI)
  fix s r s' assume b: "holding m s = (r, s')"
  obtain r1 s1 where m: "m (s\<lparr>ns_locked := True\<rparr>) = (r1, s1)" by (metis prod.exhaust)
  show "frame r s s' \<and> (r \<noteq> Hang \<longrightarrow> holding m' s = (r, s'))"
    using b m simD [OF assms m]
    by (auto simp: holding_def frame_def world_frame_def split: if_splits)
qed

lemma sim_in_ctx [sim_intros]:
  assumes "sim m m'" shows "sim (in_ctx c m) (in_ctx c m')"
proof (rule simI)
  fix s r s' assume b: "in_ctx c m s = (r, s')"
  obtain r1 s1 where m: "m (s\<lparr>cur := c\<rparr>) = (r1, s1)" by (metis prod.exhaust)
  show "frame r s s' \<and> (r \<noteq> Hang \<longrightarrow> in_ctx c m' s = (r, s'))"
    using b m simD [OF assms m]
    by (cases r1) (auto simp: in_ctx_def frame_def world_frame_def)
qed

lemma sim_guarded [sim_intros]: "(\<And>d. sim (p d) (p' d)) \<Longrightarrow> sim (guarded p d) (guarded p' d)"
  unfolding guarded_def by (intro sim_intros) (simp split: exec_state.split, intro conjI allI impI sim_intros)

lemma sim_selector_Nil [sim_intros]: "sim (selector [] d) (selector [] d)"
  by (simp add: sim_fail)

lemma sim_handle:
  assumes "sim m m'" "sim h h'"
  shows "sim (\<lambda>s. case m s of (Err AmlInvalidOpCode, s') \<Rightarrow> h s' | r \<Rightarrow> r)
             (\<lambda>s. case m' s of (Err AmlInvalidOpCode, s') \<Rightarrow> h' s' | r \<Rightarrow> r)"
proof (rule simI)
  let ?h = "\<lambda>m h s. case m s of (Err AmlInvalidOpCode, s') \<Rightarrow> h s' | r \<Rightarrow> r"
  fix s r s' assume b: "?h m h s = (r, s')"
  obtain r1 s1 where m: "m s = (r1, s1)" by (metis prod.exhaust)
  note d = simD [OF assms(1) m]
  show "frame r s s' \<and> (r \<noteq> Hang \<longrightarrow> ?h m' h' s = (r, s'))"
  proof (cases "r1 = Err AmlInvalidOpCode")
    case True
    with b m have "h s1 = (r, s')" by simp
    note e = simD [OF assms(2) this]
    have "frame (Ok ()) s s1" using d True by (simp add: frame_def)
    then show ?thesis using d e True frame_ok_trans by auto
  next
    case False
    with b m have "r = r1" "s' = s1" by (auto split: outcome.splits aml_error.splits)
    with d m False show ?thesis by (auto split: outcome.splits aml_error.splits)
  qed
qed

lemma sim_selector_Cons [sim_intros]:
  "(\<And>d. sim (p d) (p' d)) \<Longrightarrow> sim (selector ps d) (selector ps' d) \<Longrightarrow>
   sim (selector (p # ps) d) (selector (p' # ps') d)"
  unfolding selector.simps by (rule sim_handle)

lemma sim_case_prod [sim_intros]:
  "(\<And>a b. sim (f a b) (g a b)) \<Longrightarrow> sim (case x of (a, b) \<Rightarrow> f a b) (case x of (a, b) \<Rightarrow> g a b)"
  by (simp split: prod.split)

lemma sim_if [sim_intros]:
  "(c \<Longrightarrow> sim a a') \<Longrightarrow> (\<not> c \<Longrightarrow> sim b b') \<Longrightarrow> sim (if c then a else b) (if c then a' else b')"
  by simp

lemma sim_Let [sim_intros]: "(\<And>x. sim (f x) (g x)) \<Longrightarrow> sim (let x = v in f x) (let x = v in g x)"
  by simp

lemma sim_case_option [sim_intros]:
  "sim a a' \<Longrightarrow> (\<And>x. sim (f x) (f' x)) \<Longrightarrow>
   sim (case v of None \<Rightarrow> a | Some x \<Rightarrow> f x) (case v of None \<Rightarrow> a' | Some x \<Rightarrow> f' x)"
  by (simp split: option.split)

lemma sim_case_sum [sim_intros]:
  "(\<And>x. sim (f x) (f' x)) \<Longrightarrow> (\<And>x. sim (g x) (g' x)) \<Longrightarrow>
   sim (case v of Inl x \<Rightarrow> f x | Inr x \<Rightarrow> g x) (case v of Inl x \<Rightarrow> f' x | Inr x \<Rightarrow> g' x)"
  by (simp split: sum.split)

lemma sim_case_list [sim_intros]:
  "sim a a' \<Longrightarrow> (\<And>x xs. sim (f x xs) (f' x xs)) \<Longrightarrow>
   sim (case v of [] \<Rightarrow> a | x # xs \<Rightarrow> f x xs) (case v of [] \<Rightarrow> a' | x # xs \<Rightarrow> f' x xs)"
  by (simp split: list.split)

lemma sim_case_exec [sim_intros]:
  "sim a a' \<Longrightarrow> sim b b' \<Longrightarrow> sim c c' \<Longrightarrow> (\<And>x. sim (f x) (f' x)) \<Longrightarrow>
   sim (case v of EXECUTING \<Rightarrow> a | CONTINUE \<Rightarrow> b | BREAK \<Rightarrow> c | RETURN x \<Rightarrow> f x)
       (case v of EXECUTING \<Rightarrow> a' | CONTINUE \<Rightarrow> b' | BREAK \<Rightarrow> c' | RETURN x \<Rightarrow> f' x)"
  by (simp split: exec_state.split)

lemma sim_case_ref [sim_intros]:
  "(\<And>x. sim (f x) (f' x)) \<Longrightarrow> (\<And>x. sim (g x) (g' x)) \<Longrightarrow> (\<And>x. sim (h x) (h' x)) \<Longrightarrow> (\<And>x y. sim (k x y) (k' x y)) \<Longrightarrow>
   sim (case v of ArgObj x \<Rightarrow> f x | LocalObj x \<Rightarrow> g x | Object x \<Rightarrow> h x | Index x y \<Rightarrow> k x y)
       (case v of ArgObj x \<Rightarrow> f' x | LocalObj x \<Rightarrow> g' x | Object x \<Rightarrow> h' x | Index x y \<Rightarrow> k' x y)"
  by (simp split: object_reference.split)

lemma sim_case_value [sim_intros]:
  assumes "sim f1 g1" "sim f2 g2" "\<And>x. sim (f3 x) (g3 x)" "\<And>x. sim (f4 x) (g4 x)"
    "\<And>x. sim (f5 x) (g5 x)" "\<And>x y. sim (f6 x y) (g6 x y)" "sim f7 g7"
    "\<And>x. sim (f8 x) (g8 x)" "\<And>x. sim (f9 x) (g9 x)" "\<And>x. sim (f10 x) (g10 x)"
    "\<And>x. sim (f11 x) (g11 x)" "\<And>x. sim (f12 x) (g12 x)" "\<And>x. sim (f13 x) (g13 x)"
    "\<And>x y. sim (f14 x y) (g14 x y)" "\<And>x. sim (f15 x) (g15 x)"
    "\<And>x. sim (f16 x) (g16 x)" "\<And>x. sim (f17 x) (g17 x)" "\<And>x. sim (f18 x) (g18 x)"
    "\<And>x. sim (f19 x) (g19 x)" "\<And>x. sim (f20 x) (g20 x)" "\<And>x. sim (f21 x) (g21 x)"
    "\<And>x. sim (f22 x) (g22 x)"
  shows "sim (case_aml_value f1 f2 f3 f4 f5 f6 f7 f8 f9 f10 f11 f12 f13 f14 f15 f16 f17 f18 f19 f20 f21 f22 v)
             (case_aml_value g1 g2 g3 g4 g5 g6 g7 g8 g9 g10 g11 g12 g13 g14 g15 g16 g17 g18 g19 g20 g21 g22 v)"
  using assms by (cases v) simp_all

subsection \<open>The context\<close>

lemma sim_as [sim_intros]:
  "sim (as_integer v) (as_integer v)" "sim (as_buffer v) (as_buffer v)" "sim (as_string v) (as_string v)"
  "sim (scoped_name v) (scoped_name v)"
  unfolding as_integer_def as_buffer_def as_string_def scoped_name_def by (rule sim_read)+

lemma sim_elem [sim_intros]: "sim (elem xs i) (elem xs i)" "sim (set_elem xs i v) (set_elem xs i v)"
  unfolding elem_def set_elem_def by (intro sim_intros)+

lemma sim_put_ns [sim_intros]: "sim (put_ns n) (put_ns n)"
  unfolding put_ns_def by (intro sim_intros) (simp add: frame_def world_frame_def)

lemma sim_upd_ctx [sim_intros]: "(\<And>c. ctx_frame c (f c)) \<Longrightarrow> sim (upd_ctx f) (upd_ctx f)"
  unfolding upd_ctx_def by (intro sim_intros) (simp add: frame_def world_frame_def)

lemma ctx_frame_updates [sim_intros]:
  "ctx_frame c (c\<lparr>sync_level := l\<rparr>)" "ctx_frame c (c\<lparr>exec := e\<rparr>)" "ctx_frame c (c\<lparr>scope := sc\<rparr>)"
  "ctx_frame c (c\<lparr>namespace_delta := namespace_delta c @ d\<rparr>)"
  "ctx_frame c (c\<lparr>local_vars := (local_vars c)[i := v]\<rparr>)"
  by (simp_all add: ctx_frame_def)

lemma sim_new_ctx [sim_intros]: "sim (new_ctx sc) (new_ctx sc)"
  by (simp add: sim_def new_ctx_def frame_def world_frame_def)

lemma sim_monotonic [sim_intros]: "sim monotonic_ns monotonic_ns"
  by (simp add: sim_def monotonic_ns_def frame_def world_frame_def split: prod.split)

lemma sim_find_object [sim_intros]:
  "(\<And>n i v. sim (f n i v) (g n i v)) \<Longrightarrow> sim (find_object p f) (find_object p g)"
  unfolding find_object_def by (intro sim_intros)

lemma sim_events [sim_intros]:
  "sim (wait_for_event p) (wait_for_event p)" "sim (signal_event p) (signal_event p)"
  "sim (release_mutex p) (release_mutex p)" "sim (acquire_mutex p) (acquire_mutex p)"
  unfolding wait_for_event_def signal_event_def release_mutex_def acquire_mutex_def
  by (intro sim_intros)+

lemma sim_namespace [sim_intros]:
  "sim (add_to_namespace n v) (add_to_namespace n v)" "sim clean_namespace clean_namespace"
  "sim (modify_object n v) (modify_object n v)" "sim (copy_object n v) (copy_object n v)"
  "sim (get_object n) (get_object n)"
  unfolding add_to_namespace_def clean_namespace_def modify_object_def copy_object_def get_object_def
  by (intro sim_intros sim_read)+

lemma sim_local_obj [sim_intros]: "sim (modify_local_obj i v) (modify_local_obj i v)"
  unfolding modify_local_obj_def by (intro sim_intros sim_read)

lemma sim_copy_local_obj [sim_intros]: "sim (copy_local_obj i v) (copy_local_obj i v)"
  unfolding copy_local_obj_def set_elem_def
  by (auto simp: sim_def bnd_def gets_def ret_def panics_def upd_ctx_def update_def frame_def
      world_frame_def ctx_frame_def)

lemma sim_modify_index_core [sim_intros]:
  assumes "\<And>x v. sim (md x v) (md' x v)"
  shows "sim (modify_index_core md obj value is) (modify_index_core md' obj value is)"
proof (induction "is" arbitrary: obj)
  case Nil
  show ?case unfolding modify_index_core.simps by (intro sim_intros)
next
  case (Cons i "is")
  show ?case unfolding modify_index_core.simps by (intro sim_intros assms Cons)
qed

lemma sim_modify_index_final [sim_intros]:
  "(\<And>x v. sim (md x v) (md' x v)) \<Longrightarrow> sim (modify_index_final md n v is) (modify_index_final md' n v is)"
  unfolding modify_index_final_def by (intro sim_intros)

lemma sim_modify_index [sim_intros]:
  assumes "\<And>x v. sim (md x v) (md' x v)"
  shows "sim (modify_index md c w js) (modify_index md' c w js)"
  using assms
proof (induction md c w js rule: modify_index.induct)
  case (1 md s w js)
  then show ?case unfolding modify_index.simps by (intro sim_intros)
next
  case (2 md c v w js)
  then show ?case unfolding modify_index.simps by (intro sim_intros) simp
next
  case (4 md i w js)
  then show ?case unfolding modify_index.simps by (intro sim_intros)
qed (simp_all add: sim_fail)

lemma sim_modify_body [sim_intros]:
  assumes "\<And>x v. sim (md x v) (md' x v)"
  shows "sim (modify_body md x v) (modify_body md' x v)" "sim (copy_body md x v) (copy_body md' x v)"
  unfolding modify_body_def copy_body_def by (intro sim_intros assms)+

lemma sim_get_index_core [sim_intros]: "sim (get_index_core obj is) (get_index_core obj is)"
proof (induction "is" arbitrary: obj)
  case Nil
  show ?case unfolding get_index_core.simps by (intro sim_intros)
next
  case (Cons i "is")
  show ?case unfolding get_index_core.simps by (intro sim_intros Cons)
qed

lemma sim_get_index [sim_intros]: "sim (get_index c is) (get_index c is)"
proof (induction c "is" rule: get_index.induct)
  case (1 s "is")
  show ?case unfolding get_index.simps get_index_final_def by (intro sim_intros)
next
  case (2 c v "is")
  then show ?case unfolding get_index.simps by (intro sim_intros)
next
  case (4 i "is")
  show ?case unfolding get_index.simps by (intro sim_intros)
qed (simp_all add: sim_fail)

lemma sim_get_value [sim_intros]: "sim (get_value v) (get_value v)"
  unfolding get_value_def by (intro sim_intros)

subsection \<open>Parsers\<close>

lemma sim_bytes [sim_intros]:
  "sim (byte_at data i) (byte_at data i)" "sim (tail_at data i) (tail_at data i)"
  "sim (range_at data i j) (range_at data i j)" "sim (pkg_length data i) (pkg_length data i)"
  "sim (le_at data i n) (le_at data i n)"
  unfolding byte_at_def tail_at_def range_at_def pkg_length_def le_at_def by (intro sim_intros)+

lemma sim_at [sim_intros]: "(\<And>d. sim (p d) (q d)) \<Longrightarrow> sim (at p data i) (at q data i)"
  and sim_within [sim_intros]: "(\<And>d. sim (p d) (q d)) \<Longrightarrow> sim (within p data i j) (within q data i j)"
  unfolding at_def within_def by (intro sim_intros | assumption)+

lemma sim_opcode [sim_intros]: "sim k k' \<Longrightarrow> sim (opcode data c k) (opcode data c k')"
  unfolding opcode_def by (intro sim_intros)

lemma sim_opcode_extended [sim_intros]: "sim k k' \<Longrightarrow> sim (opcode_extended data c k) (opcode_extended data c k')"
  unfolding opcode_extended_def by (intro sim_intros)

lemma sim_at_least [sim_intros]: "(\<And>d. sim (p d) (q d)) \<Longrightarrow> sim (at_least n msg p data) (at_least n msg q data)"
  unfolding at_least_def by (intro sim_intros)

lemma sim_names [sim_intros]:
  "sim (parse_name_string data) (parse_name_string data)" "sim (parse_debug_obj data) (parse_debug_obj data)"
  "sim (parse_arg_obj data) (parse_arg_obj data)" "sim (parse_local_obj data) (parse_local_obj data)"
  "sim (parse_simple_name data) (parse_simple_name data)"
  unfolding parse_name_string_def parse_debug_obj_def parse_arg_obj_def parse_local_obj_def parse_simple_name_def
  by (intro sim_intros)+

lemma sim_computational [sim_intros]:
  "(\<And>d. sim (p d) (q d)) \<Longrightarrow> sim (parse_computational_data p data) (parse_computational_data q data)"
  unfolding parse_computational_data_def by (intro sim_intros | assumption)+

definition parsers_le :: "parsers \<Rightarrow> parsers \<Rightarrow> bool" where
  "parsers_le R R' \<longleftrightarrow> fuel R \<le> fuel R' \<and> (\<forall>x v. sim (r_modify R x v) (r_modify R' x v))
     \<and> (\<forall>d. sim (r_term_arg R d) (r_term_arg R' d)) \<and> (\<forall>d. sim (r_term_list R d) (r_term_list R' d))
     \<and> (\<forall>d. sim (r_object_list R d) (r_object_list R' d)) \<and> (\<forall>d. sim (r_super_name R d) (r_super_name R' d))
     \<and> (\<forall>d. sim (r_data_ref_obj R d) (r_data_ref_obj R' d))"

lemma sim_recursive [sim_intros]:
  assumes "parsers_le R R'"
  shows "sim (r_modify R x v) (r_modify R' x v)" "sim (r_term_arg R d) (r_term_arg R' d)"
    "sim (r_term_list R d) (r_term_list R' d)" "sim (r_object_list R d) (r_object_list R' d)"
    "sim (r_super_name R d) (r_super_name R' d)" "sim (r_data_ref_obj R d) (r_data_ref_obj R' d)"
    "sim (modify R x v) (modify R' x v)" "sim (copy_value R x v) (copy_value R' x v)"
  using assms unfolding modify_def copy_value_def
  by (simp_all add: parsers_le_def sim_modify_body)

lemma parsers_le_fuel: "parsers_le R R' \<Longrightarrow> fuel R \<le> fuel R'"
  by (simp add: parsers_le_def)

subsection \<open>Loops\<close>

lemma sim_package_loop:
  assumes "parsers_le R R'"
  shows "k \<le> k' \<Longrightarrow> sim (package_loop k R data i) (package_loop k' R' data i)"
proof (induction k arbitrary: k' i)
  case (Suc k)
  then obtain j where "k' = Suc j" "k \<le> j" by (cases k') auto
  then show ?case by (simp only: package_loop.simps) (intro sim_intros assms Suc.IH)
qed (simp add: sim_hangs)

lemma sim_parse_def_buffer [sim_intros]:
  "parsers_le R R' \<Longrightarrow> sim (parse_def_buffer R d) (parse_def_buffer R' d)"
  unfolding parse_def_buffer_def by (intro sim_intros)

lemma sim_field_element [sim_intros]:
  "parsers_le R R' \<Longrightarrow> sim (parse_field_element R d sel fs) (parse_field_element R' d sel fs)"
  unfolding parse_field_element_def parse_connect_field_def by (intro sim_intros)

lemma sim_field_loop:
  assumes "parsers_le R R'"
  shows "k \<le> k' \<Longrightarrow> sim (field_loop k R data sel fs i) (field_loop k' R' data sel fs i)"
proof (induction k arbitrary: k' fs i)
  case (Suc k)
  then obtain j where "k' = Suc j" "k \<le> j" by (cases k') auto
  then show ?case by (simp only: field_loop.simps) (intro sim_intros assms Suc.IH)
qed (simp add: sim_hangs)

lemma sim_wait_loop:
  assumes "sim m m'"
  shows "k \<le> k' \<Longrightarrow> sim (wait_loop k m b start limit) (wait_loop k' m' b start limit)"
proof (induction k arbitrary: k')
  case (Suc k)
  then obtain j where "k' = Suc j" "k \<le> j" by (cases k') auto
  then show ?case by (simp only: wait_loop.simps) (intro sim_intros assms Suc.IH)
qed (simp add: sim_hangs)

lemma sim_time_loop: "k \<le> k' \<Longrightarrow> sim (time_loop k start limit) (time_loop k' start limit)"
proof (induction k arbitrary: k')
  case (Suc k)
  then obtain j where "k' = Suc j" "k \<le> j" by (cases k') auto
  then show ?case by (simp only: time_loop.simps) (intro sim_intros Suc.IH)
qed (simp add: sim_hangs)

lemma sim_set_exec [sim_intros]: "sim (set_exec e) (set_exec e)"
  unfolding set_exec_def by (intro sim_intros)

lemma sim_while_loop:
  assumes "parsers_le R R'"
  shows "k \<le> k' \<Longrightarrow> sim (while_loop k R data pl pll) (while_loop k' R' data pl pll)"
proof (induction k arbitrary: k')
  case (Suc k)
  then obtain j where "k' = Suc j" "k \<le> j" by (cases k') auto
  then show ?case by (simp only: while_loop.simps) (intro sim_intros assms Suc.IH)
qed (simp add: sim_hangs)

lemma sim_list_loop:
  assumes "\<And>d. sim (p d) (p' d)"
  shows "k \<le> k' \<Longrightarrow> sim (list_loop k p data i) (list_loop k' p' data i)"
proof (induction k arbitrary: k' i)
  case (Suc k)
  then obtain j where "k' = Suc j" "k \<le> j" by (cases k') auto
  then show ?case by (simp only: list_loop.simps) (intro sim_intros assms Suc.IH)
qed (simp add: sim_hangs)

lemma sim_parse_params [sim_intros]:
  assumes "parsers_le R R'"
  shows "sim (parse_params R data i n) (parse_params R' data i n)"
proof (induction n arbitrary: i)
  case (Suc n)
  show ?case unfolding parse_params.simps by (intro sim_intros assms Suc)
qed (simp add: sim_ret)

subsection \<open>All parsers\<close>

lemma sim_parse_target [sim_intros]: "parsers_le R R' \<Longrightarrow> sim (parse_target R d) (parse_target R' d)"
  unfolding parse_target_def by (intro sim_intros)

lemma sim_execute [sim_intros]: "parsers_le R R' \<Longrightarrow> sim (execute R m sc ps) (execute R' m sc ps)"
  unfolding execute_def by (intro sim_intros)

lemma sim_parse_aml_with_scope [sim_intros]:
  "parsers_le R R' \<Longrightarrow> sim (parse_aml_with_scope R data sc) (parse_aml_with_scope R' data sc)"
  unfolding parse_aml_with_scope_def by (intro sim_intros)

lemma sim_packages [sim_intros]:
  assumes "parsers_le R R'"
  shows "sim (parse_def_package R d) (parse_def_package R' d)"
    "sim (parse_def_var_package R d) (parse_def_var_package R' d)"
  unfolding parse_def_package_def parse_def_var_package_def parse_package_elements_list_def
  by (intro sim_intros sim_package_loop assms parsers_le_fuel)+

lemma sim_references [sim_intros]:
  assumes "parsers_le R R'"
  shows "sim (parse_def_ref_of R d) (parse_def_ref_of R' d)"
    "sim (parse_def_deref_of R d) (parse_def_deref_of R' d)"
    "sim (parse_def_index R d) (parse_def_index R' d)"
    "sim (parse_method_invocation R d) (parse_method_invocation R' d)"
  unfolding parse_def_ref_of_def parse_def_deref_of_def parse_def_index_def parse_method_invocation_def
  by (intro sim_intros assms)+

lemma sim_parse_super_name [sim_intros]:
  "parsers_le R R' \<Longrightarrow> sim (parse_super_name R d) (parse_super_name R' d)"
  unfolding parse_super_name_def parse_type6_opcode_def by (intro sim_intros)

lemmas value_defs = int2_def cmp2_def digits_string_def concat_values_def string_or_type_def mid_value_def
  match_opcode_of_def match_package_def raw_prefix_def region_space_of_def notify_all_def

lemma sim_match_opcode_of [sim_intros]: "sim (match_opcode_of c) (match_opcode_of c)"
  unfolding match_opcode_of_def by (intro sim_intros)

lemma sim_region_space_of [sim_intros]: "sim (region_space_of c) (region_space_of c)"
  unfolding region_space_of_def by (intro sim_intros)

lemma sim_parse_type2_opcode [sim_intros]:
  assumes "parsers_le R R'"
  shows "sim (parse_type2_opcode R d) (parse_type2_opcode R' d)"
  unfolding parse_type2_opcode_def binary_def step_value_def logical_def convert_def value_defs
    parse_def_increment_def parse_def_acquire_def parse_def_wait_def parse_def_land_def
    parse_def_lequal_def parse_def_lgreater_def parse_def_lless_def parse_def_lnot_def
    parse_def_lor_def parse_def_size_of_def parse_def_store_def parse_def_subtract_def
    parse_def_to_buffer_def parse_def_to_hex_string_def parse_def_to_bcd_def
    parse_def_to_decimal_string_def parse_def_to_integer_def parse_def_to_string_def parse_def_add_def
    parse_def_xor_def parse_def_shift_left_def parse_def_shift_right_def parse_def_mod_def
    parse_def_and_def parse_def_or_def parse_def_concat_res_def parse_def_concat_def
    parse_def_cond_ref_of_def parse_def_copy_object_def parse_def_decrement_def parse_def_divide_def
    parse_def_find_set_left_bit_def parse_def_find_set_right_bit_def parse_def_from_bcd_def
    parse_def_load_table_def parse_def_match_def parse_def_mid_def parse_def_multiply_def
    parse_def_nand_def parse_def_nor_def parse_def_not_def parse_def_timer_def
    parse_def_object_type_def
  by (intro sim_intros sim_wait_loop assms parsers_le_fuel)

lemma sim_parse_data_obj [sim_intros]:
  "parsers_le R R' \<Longrightarrow> sim (parse_data_obj R d) (parse_data_obj R' d)"
  unfolding parse_data_obj_def by (intro sim_intros)

lemma sim_parse_term_arg [sim_intros]:
  "parsers_le R R' \<Longrightarrow> sim (parse_term_arg R d) (parse_term_arg R' d)"
  unfolding parse_term_arg_def by (intro sim_intros)

lemma sim_parse_data_ref_obj [sim_intros]:
  "parsers_le R R' \<Longrightarrow> sim (parse_data_ref_obj R d) (parse_data_ref_obj R' d)"
  unfolding parse_data_ref_obj_def by (intro sim_intros sim_handle)

lemma sim_parse_named_obj [sim_intros]:
  assumes "parsers_le R R'"
  shows "sim (parse_named_obj R d) (parse_named_obj R' d)"
  unfolding parse_named_obj_def create_field_def child_objects_def parse_field_list_def
    parse_def_bank_field_def parse_def_create_bit_field_def parse_def_create_byte_field_def
    parse_def_create_word_field_def parse_def_create_dword_field_def parse_def_create_qword_field_def
    parse_def_create_field_def parse_def_data_region_def parse_def_event_def parse_def_external_def
    parse_def_device_def parse_def_op_region_def parse_def_field_def parse_def_index_field_def
    parse_def_method_def parse_def_mutex_def parse_def_power_res_def parse_def_processor_def
    parse_def_thermal_zone_def
  by (intro sim_intros sim_field_loop assms parsers_le_fuel)

lemma sim_tables [sim_intros]:
  "sim (load_table sig) (load_table sig)"
  "sim (notify_all ms number) (notify_all ms number)"
  unfolding load_table_def notify_all_def
  by (intro sim_intros; simp add: frame_def world_frame_def rel_option_iff split: option.split)+

lemma sim_parse_type1_opcode [sim_intros]:
  assumes "parsers_le R R'"
  shows "sim (parse_type1_opcode R d) (parse_type1_opcode R' d)"
  unfolding parse_type1_opcode_def delay_def parse_aml_table_def
    parse_def_break_def parse_def_breakpoint_def parse_def_continue_def parse_def_noop_def
    parse_def_fatal_def parse_def_if_else_def parse_def_load_def parse_def_notify_def
    parse_def_release_def parse_def_reset_def parse_def_signal_def parse_def_sleep_def
    parse_def_stall_def parse_def_return_def parse_def_unload_def parse_def_while_def
  by (intro sim_intros sim_while_loop sim_time_loop sim_read assms parsers_le_fuel)

lemma sim_parse_namespace_modifier [sim_intros]:
  "parsers_le R R' \<Longrightarrow> sim (parse_namespace_modifier R d) (parse_namespace_modifier R' d)"
  unfolding parse_namespace_modifier_def parse_alias_op_def parse_scope_op_def parse_name_op_def
  by (intro sim_intros)

lemma sim_lists [sim_intros]:
  assumes "parsers_le R R'"
  shows "sim (parse_term_list R d) (parse_term_list R' d)"
    "sim (parse_object_list R d) (parse_object_list R' d)"
  unfolding parse_term_list_def parse_object_list_def parse_term_obj_def parse_object_def
  by (intro sim_intros sim_list_loop assms parsers_le_fuel)+

lemma parsers_n_mono: "n \<le> m \<Longrightarrow> parsers_le (parsers_n n) (parsers_n m)"
proof (induction n arbitrary: m)
  case (Suc n)
  then obtain k where m: "m = Suc k" and le: "parsers_le (parsers_n n) (parsers_n k)" by (cases m) auto
  show ?case unfolding m parsers_n.simps Let_def parsers_le_def parsers.simps using Suc.prems m
    by (intro conjI allI sim_intros le) simp
qed (simp add: parsers_le_def sim_hangs)

end
