(* ===== verification/Aml_Expr.thy ===== *)
theory Aml_Expr
  imports Aml_Interp
begin

text \<open>
  Integer expressions of AML: the encoding of an expression as bytes, its value, and that the
  interpreter computes that value, reads exactly those bytes and changes nothing.
\<close>

named_theorems aml_run

lemma bnd_run [aml_run]:
  "bnd m f s = (case m s of (Ok a, s') \<Rightarrow> f a s' | (Err e, s') \<Rightarrow> (Err e, s') | (Panic, s') \<Rightarrow> (Panic, s')
     | (Hang, s') \<Rightarrow> (Hang, s'))"
  by (simp add: bnd_def)

lemma guarded_run [aml_run]: "exec (cur s) = EXECUTING \<Longrightarrow> guarded p d s = p d s"
  by (simp add: guarded_def bnd_def gets_def)

lemma opcode_run [aml_run]: "opcode (b # d) c k s = (if b = c then k s else (Err AmlInvalidOpCode, s))"
  by (simp add: opcode_def bnd_def byte_at_def byte_o_def lift_def fail_def)

lemma opcode_extended_run [aml_run]:
  "b \<noteq> 0x5B \<Longrightarrow> opcode_extended (b # d) c k s = (Err AmlInvalidOpCode, s)"
  by (simp add: opcode_extended_def bnd_def byte_at_def byte_o_def lift_def fail_def)

lemma at_run [aml_run]: "at p (xs @ ys) (length xs) s = p ys s"
  by (simp add: at_def bnd_def tail_at_def tail_o_def lift_def)

lemma at_run1 [aml_run]: "at p (x # ys) (Suc 0) s = p ys s"
  using at_run [of p "[x]"] by simp

lemma ignore_none [aml_run]: "ignore (modify R VNone v) s = (Ok (), s)"
  by (simp add: ignore_def attempt_def modify_def modify_body_def fail_def bnd_def ret_def)

lemma ret_run [aml_run]: "ret a s = (Ok a, s)"
  by (simp add: ret_def)

lemma null_target [aml_run]: "exec (cur s) = EXECUTING \<Longrightarrow> parse_target R (0 # d) s = (Ok (VNone, 1), s)"
  by (simp add: parse_target_def guarded_run bnd_def byte_at_def byte_o_def lift_def ret_def)

declare selector.simps [simp del]

lemma selector_Nil [aml_run]: "selector [] d s = (Err AmlInvalidOpCode, s)"
  by (simp add: selector.simps fail_def)

lemma selector_last [aml_run]: "selector [p] d s = p d s"
  by (auto simp: selector.simps fail_def split: prod.split outcome.split aml_error.split)

lemma selector_miss [aml_run]:
  "p d s = (Err AmlInvalidOpCode, s) \<Longrightarrow> selector (p # q # ps) d s = selector (q # ps) d s"
  by (simp add: selector.simps)

lemma selector_hit [aml_run]: "p d s = (Ok v, s') \<Longrightarrow> selector (p # ps) d s = (Ok v, s')"
  by (simp add: selector.simps)

lemma byte_at_run [aml_run]: "byte_at (c # d) 0 s = (Ok c, s)"
  by (simp add: byte_at_def byte_o_def lift_def)

lemma fail_run [aml_run]: "fail e s = (Err e, s)"
  by (simp add: fail_def)

lemma lift_run [aml_run]: "lift r s = (r, s)"
  by (simp add: lift_def)

lemma type2_miss:
  assumes "exec (cur s) = EXECUTING"
  shows
    "c \<noteq> 0x75 \<Longrightarrow> parse_def_increment R (c # d) s = (Err AmlInvalidOpCode, s)"
    "c \<noteq> 0x5B \<Longrightarrow> parse_def_acquire R (c # d) s = (Err AmlInvalidOpCode, s)"
    "c \<noteq> 0x5B \<Longrightarrow> parse_def_wait R (c # d) s = (Err AmlInvalidOpCode, s)"
    "c \<noteq> 0x90 \<Longrightarrow> parse_def_land R (c # d) s = (Err AmlInvalidOpCode, s)"
    "c \<noteq> 0x93 \<Longrightarrow> parse_def_lequal R (c # d) s = (Err AmlInvalidOpCode, s)"
    "c \<noteq> 0x94 \<Longrightarrow> parse_def_lgreater R (c # d) s = (Err AmlInvalidOpCode, s)"
    "c \<noteq> 0x95 \<Longrightarrow> parse_def_lless R (c # d) s = (Err AmlInvalidOpCode, s)"
    "c \<noteq> 0x92 \<Longrightarrow> parse_def_lnot R (c # d) s = (Err AmlInvalidOpCode, s)"
    "c \<noteq> 0x91 \<Longrightarrow> parse_def_lor R (c # d) s = (Err AmlInvalidOpCode, s)"
    "c \<noteq> 0x87 \<Longrightarrow> parse_def_size_of R (c # d) s = (Err AmlInvalidOpCode, s)"
    "c \<noteq> 0x70 \<Longrightarrow> parse_def_store R (c # d) s = (Err AmlInvalidOpCode, s)"
    "c \<noteq> 0x74 \<Longrightarrow> parse_def_subtract R (c # d) s = (Err AmlInvalidOpCode, s)"
    "c \<noteq> 0x96 \<Longrightarrow> parse_def_to_buffer R (c # d) s = (Err AmlInvalidOpCode, s)"
    "c \<noteq> 0x98 \<Longrightarrow> parse_def_to_hex_string R (c # d) s = (Err AmlInvalidOpCode, s)"
    "c \<noteq> 0x5B \<Longrightarrow> parse_def_to_bcd R (c # d) s = (Err AmlInvalidOpCode, s)"
    "c \<noteq> 0x97 \<Longrightarrow> parse_def_to_decimal_string R (c # d) s = (Err AmlInvalidOpCode, s)"
    "c \<noteq> 0x99 \<Longrightarrow> parse_def_to_integer R (c # d) s = (Err AmlInvalidOpCode, s)"
    "c \<noteq> 0x9C \<Longrightarrow> parse_def_to_string R (c # d) s = (Err AmlInvalidOpCode, s)"
    "c \<noteq> 0x72 \<Longrightarrow> parse_def_add R (c # d) s = (Err AmlInvalidOpCode, s)"
    "c \<noteq> 0x7F \<Longrightarrow> parse_def_xor R (c # d) s = (Err AmlInvalidOpCode, s)"
    "c \<noteq> 0x79 \<Longrightarrow> parse_def_shift_left R (c # d) s = (Err AmlInvalidOpCode, s)"
    "c \<noteq> 0x7A \<Longrightarrow> parse_def_shift_right R (c # d) s = (Err AmlInvalidOpCode, s)"
    "c \<noteq> 0x85 \<Longrightarrow> parse_def_mod R (c # d) s = (Err AmlInvalidOpCode, s)"
    "c \<noteq> 0x7B \<Longrightarrow> parse_def_and R (c # d) s = (Err AmlInvalidOpCode, s)"
    "c \<noteq> 0x7D \<Longrightarrow> parse_def_or R (c # d) s = (Err AmlInvalidOpCode, s)"
    "c \<noteq> 0x84 \<Longrightarrow> parse_def_concat_res R (c # d) s = (Err AmlInvalidOpCode, s)"
    "c \<noteq> 0x73 \<Longrightarrow> parse_def_concat R (c # d) s = (Err AmlInvalidOpCode, s)"
    "c \<noteq> 0x5B \<Longrightarrow> parse_def_cond_ref_of R (c # d) s = (Err AmlInvalidOpCode, s)"
    "c \<noteq> 0x9D \<Longrightarrow> parse_def_copy_object R (c # d) s = (Err AmlInvalidOpCode, s)"
    "c \<noteq> 0x76 \<Longrightarrow> parse_def_decrement R (c # d) s = (Err AmlInvalidOpCode, s)"
    "c \<noteq> 0x78 \<Longrightarrow> parse_def_divide R (c # d) s = (Err AmlInvalidOpCode, s)"
    "c \<noteq> 0x81 \<Longrightarrow> parse_def_find_set_left_bit R (c # d) s = (Err AmlInvalidOpCode, s)"
    "c \<noteq> 0x82 \<Longrightarrow> parse_def_find_set_right_bit R (c # d) s = (Err AmlInvalidOpCode, s)"
    "c \<noteq> 0x5B \<Longrightarrow> parse_def_from_bcd R (c # d) s = (Err AmlInvalidOpCode, s)"
    "c \<noteq> 0x5B \<Longrightarrow> parse_def_load_table R (c # d) s = (Err AmlInvalidOpCode, s)"
    "c \<noteq> 0x28 \<Longrightarrow> parse_def_match R (c # d) s = (Err AmlInvalidOpCode, s)"
    "c \<noteq> 0x9E \<Longrightarrow> parse_def_mid R (c # d) s = (Err AmlInvalidOpCode, s)"
    "c \<noteq> 0x77 \<Longrightarrow> parse_def_multiply R (c # d) s = (Err AmlInvalidOpCode, s)"
    "c \<noteq> 0x7C \<Longrightarrow> parse_def_nand R (c # d) s = (Err AmlInvalidOpCode, s)"
    "c \<noteq> 0x7E \<Longrightarrow> parse_def_nor R (c # d) s = (Err AmlInvalidOpCode, s)"
    "c \<noteq> 0x80 \<Longrightarrow> parse_def_not R (c # d) s = (Err AmlInvalidOpCode, s)"
    "c \<noteq> 0x5B \<Longrightarrow> parse_def_timer R (c # d) s = (Err AmlInvalidOpCode, s)"
    "c \<noteq> 0x11 \<Longrightarrow> parse_def_buffer R (c # d) s = (Err AmlInvalidOpCode, s)"
    "c \<noteq> 0x12 \<Longrightarrow> parse_def_package R (c # d) s = (Err AmlInvalidOpCode, s)"
    "c \<noteq> 0x13 \<Longrightarrow> parse_def_var_package R (c # d) s = (Err AmlInvalidOpCode, s)"
    "c \<noteq> 0x8E \<Longrightarrow> parse_def_object_type R (c # d) s = (Err AmlInvalidOpCode, s)"
    "c \<noteq> 0x83 \<Longrightarrow> parse_def_deref_of R (c # d) s = (Err AmlInvalidOpCode, s)"
    "c \<noteq> 0x71 \<Longrightarrow> parse_def_ref_of R (c # d) s = (Err AmlInvalidOpCode, s)"
    "c \<noteq> 0x88 \<Longrightarrow> parse_def_index R (c # d) s = (Err AmlInvalidOpCode, s)"
  unfolding
    parse_def_increment_def parse_def_acquire_def parse_def_wait_def parse_def_land_def
    parse_def_lequal_def parse_def_lgreater_def parse_def_lless_def parse_def_lnot_def
    parse_def_lor_def parse_def_size_of_def parse_def_store_def parse_def_subtract_def
    parse_def_to_buffer_def parse_def_to_hex_string_def parse_def_to_bcd_def
    parse_def_to_decimal_string_def parse_def_to_integer_def parse_def_to_string_def parse_def_add_def
    parse_def_xor_def parse_def_shift_left_def parse_def_shift_right_def parse_def_mod_def
    parse_def_and_def parse_def_or_def parse_def_concat_res_def parse_def_concat_def
    parse_def_cond_ref_of_def parse_def_copy_object_def parse_def_decrement_def parse_def_divide_def
    parse_def_find_set_left_bit_def parse_def_find_set_right_bit_def parse_def_from_bcd_def
    parse_def_load_table_def parse_def_match_def parse_def_mid_def parse_def_multiply_def
    parse_def_nand_def parse_def_nor_def parse_def_not_def parse_def_timer_def parse_def_buffer_def
    parse_def_package_def parse_def_var_package_def parse_def_object_type_def parse_def_deref_of_def
    parse_def_ref_of_def parse_def_index_def
  using assms by (simp_all add: guarded_run opcode_run opcode_extended_run)

definition operator_byte :: "byte \<Rightarrow> bool" where
  "operator_byte c \<longleftrightarrow> 0x70 \<le> c \<and> c \<le> 0x95"

lemma variable_miss [aml_run]:
  assumes "exec (cur s) = EXECUTING" "\<not> (0x68 \<le> c \<and> c \<le> 0x6E)"
  shows "parse_local_obj (c # d) s = (Err AmlInvalidOpCode, s)"
    "parse_arg_obj (c # d) s = (Err AmlInvalidOpCode, s)"
  using assms by (auto simp: parse_local_obj_def parse_arg_obj_def aml_run)

lemma data_obj_miss:
  assumes "exec (cur s) = EXECUTING" "operator_byte c"
  shows "parse_data_obj R (c # d) s = (Err AmlInvalidOpCode, s)"
proof -
  have "c \<notin> {0x0A, 0x0B, 0x0C, 0x0D, 0x0E, 0x00, 0x01, 0x5B, 0xFF, 0x11, 0x12, 0x13}"
    using assms(2) by (auto simp: operator_byte_def word_le_nat_alt)
  then show ?thesis using assms(1)
    by (simp add: parse_data_obj_def parse_computational_data_def type2_miss aml_run)
qed

lemma term_arg_operator:
  assumes "exec (cur s) = EXECUTING" "operator_byte c"
  shows "parse_term_arg R (c # d) s = parse_type2_opcode R (c # d) s"
proof -
  have "\<not> (0x68 \<le> c \<and> c \<le> 0x6E)" using assms(2) by (auto simp: operator_byte_def word_le_nat_alt)
  then show ?thesis using assms(1) by (simp add: parse_term_arg_def data_obj_miss [OF assms] aml_run)
qed

subsection \<open>Expressions\<close>

datatype arith_op = AddOp | SubtractOp | MultiplyOp | AndOp | OrOp | XorOp | NandOp | NorOp

datatype logic_op = LandOp | LorOp | LequalOp | LgreaterOp | LlessOp

datatype aml_expr =
    ByteConst "8 word"
  | WordConst "16 word"
  | DWordConst "32 word"
  | QWordConst "64 word"
  | Zero
  | One
  | Ones
  | Arith arith_op aml_expr aml_expr
  | Logic logic_op aml_expr aml_expr
  | NotExpr aml_expr
  | LnotExpr aml_expr

fun arith_byte :: "arith_op \<Rightarrow> byte" where
  "arith_byte AddOp = 0x72"
| "arith_byte SubtractOp = 0x74"
| "arith_byte MultiplyOp = 0x77"
| "arith_byte AndOp = 0x7B"
| "arith_byte NandOp = 0x7C"
| "arith_byte OrOp = 0x7D"
| "arith_byte NorOp = 0x7E"
| "arith_byte XorOp = 0x7F"

fun logic_byte :: "logic_op \<Rightarrow> byte" where
  "logic_byte LandOp = 0x90"
| "logic_byte LorOp = 0x91"
| "logic_byte LequalOp = 0x93"
| "logic_byte LgreaterOp = 0x94"
| "logic_byte LlessOp = 0x95"

text \<open>The encoding of the ACPI specification; results are not stored (null target).\<close>

fun encode :: "aml_expr \<Rightarrow> bytes" where
  "encode (ByteConst w) = 0x0A # le_bytes 1 (unat w)"
| "encode (WordConst w) = 0x0B # le_bytes 2 (unat w)"
| "encode (DWordConst w) = 0x0C # le_bytes 4 (unat w)"
| "encode (QWordConst w) = 0x0E # le_bytes 8 (unat w)"
| "encode Zero = [0x00]"
| "encode One = [0x01]"
| "encode Ones = [0xFF]"
| "encode (Arith f a b) = arith_byte f # encode a @ encode b @ [0x00]"
| "encode (Logic f a b) = logic_byte f # encode a @ encode b"
| "encode (NotExpr a) = 0x80 # encode a @ [0x00]"
| "encode (LnotExpr a) = 0x92 # encode a"

fun arith_value :: "arith_op \<Rightarrow> 64 word \<Rightarrow> 64 word \<Rightarrow> 64 word" where
  "arith_value AddOp a b = a + b"
| "arith_value SubtractOp a b = a - b"
| "arith_value MultiplyOp a b = a * b"
| "arith_value AndOp a b = a AND b"
| "arith_value NandOp a b = NOT (a AND b)"
| "arith_value OrOp a b = a OR b"
| "arith_value NorOp a b = NOT (a OR b)"
| "arith_value XorOp a b = a XOR b"

fun logic_value :: "logic_op \<Rightarrow> 64 word \<Rightarrow> 64 word \<Rightarrow> bool" where
  "logic_value LandOp a b \<longleftrightarrow> a \<noteq> 0 \<and> b \<noteq> 0"
| "logic_value LorOp a b \<longleftrightarrow> a \<noteq> 0 \<or> b \<noteq> 0"
| "logic_value LequalOp a b \<longleftrightarrow> a = b"
| "logic_value LgreaterOp a b \<longleftrightarrow> a > b"
| "logic_value LlessOp a b \<longleftrightarrow> a < b"

fun eval :: "aml_expr \<Rightarrow> 64 word" where
  "eval (ByteConst w) = ucast w"
| "eval (WordConst w) = ucast w"
| "eval (DWordConst w) = ucast w"
| "eval (QWordConst w) = w"
| "eval Zero = 0"
| "eval One = 1"
| "eval Ones = 0xFFFFFFFFFFFFFFFF"
| "eval (Arith f a b) = arith_value f (eval a) (eval b)"
| "eval (Logic f a b) = (if logic_value f (eval a) (eval b) then 1 else 0)"
| "eval (NotExpr a) = NOT (eval a)"
| "eval (LnotExpr a) = (if eval a = 0 then 1 else 0)"

fun read_only :: "aml_expr \<Rightarrow> bool" where
  "read_only Zero \<longleftrightarrow> True"
| "read_only One \<longleftrightarrow> True"
| "read_only Ones \<longleftrightarrow> True"
| "read_only (Logic f a b) \<longleftrightarrow> True"
| "read_only (LnotExpr a) \<longleftrightarrow> True"
| "read_only e \<longleftrightarrow> False"

text \<open>The object an expression denotes: ACPI's constants and truth values are read-only integers.\<close>

definition denotes :: "aml_expr \<Rightarrow> aml_value" where
  "denotes e = (if read_only e then IntegerConstant (eval e) else Integer (eval e))"

fun height :: "aml_expr \<Rightarrow> nat" where
  "height (Arith f a b) = Suc (max (height a) (height b))"
| "height (Logic f a b) = Suc (max (height a) (height b))"
| "height (NotExpr a) = Suc (height a)"
| "height (LnotExpr a) = Suc (height a)"
| "height e = 0"

lemma as_integer_denotes [aml_run]: "as_integer (denotes e) s = (Ok (eval e), s)"
  by (simp add: as_integer_def denotes_def)

subsection \<open>Evaluation\<close>

lemma ucast_of_unat: "of_nat (unat w) = ucast w"
  by simp

lemma unat_less_power: "unat (w :: 'a::len word) < 2 ^ LENGTH('a)"
  by (rule unsigned_less)

lemma le_at_bytes [aml_run]: "le_at (c # le_bytes n x @ rest) (Suc 0) n s = (Ok (x mod 256 ^ n), s)"
  by (simp add: le_at_def ret_def le_nat_le_bytes)

lemma data_obj_byte: "exec (cur s) = EXECUTING \<Longrightarrow>
    parse_data_obj R (0x0A # le_bytes 1 x @ rest) s = (Ok (Integer (of_nat (x mod 256 ^ 1)), 2), s)"
  and data_obj_word: "exec (cur s) = EXECUTING \<Longrightarrow>
    parse_data_obj R (0x0B # le_bytes 2 x @ rest) s = (Ok (Integer (of_nat (x mod 256 ^ 2)), 3), s)"
  and data_obj_dword: "exec (cur s) = EXECUTING \<Longrightarrow>
    parse_data_obj R (0x0C # le_bytes 4 x @ rest) s = (Ok (Integer (of_nat (x mod 256 ^ 4)), 5), s)"
  and data_obj_qword: "exec (cur s) = EXECUTING \<Longrightarrow>
    parse_data_obj R (0x0E # le_bytes 8 x @ rest) s = (Ok (Integer (of_nat (x mod 256 ^ 8)), 9), s)"
  and data_obj_constant: "exec (cur s) = EXECUTING \<Longrightarrow> parse_data_obj R (0 # rest) s = (Ok (IntegerConstant 0, 1), s)"
    "exec (cur s) = EXECUTING \<Longrightarrow> parse_data_obj R (1 # rest) s = (Ok (IntegerConstant 1, 1), s)"
    "exec (cur s) = EXECUTING \<Longrightarrow>
      parse_data_obj R (0xFF # rest) s = (Ok (IntegerConstant 0xFFFFFFFFFFFFFFFF, 1), s)"
  by (simp_all add: parse_data_obj_def parse_computational_data_def aml_run del: le_bytes.simps power_Suc)

lemma data_obj_leaf:
  assumes "exec (cur s) = EXECUTING"
  shows "parse_data_obj R (encode (ByteConst b) @ rest) s = (Ok (denotes (ByteConst b), length (encode (ByteConst b))), s)"
    "parse_data_obj R (encode (WordConst w) @ rest) s = (Ok (denotes (WordConst w), length (encode (WordConst w))), s)"
    "parse_data_obj R (encode (DWordConst d) @ rest) s = (Ok (denotes (DWordConst d), length (encode (DWordConst d))), s)"
    "parse_data_obj R (encode (QWordConst q) @ rest) s = (Ok (denotes (QWordConst q), length (encode (QWordConst q))), s)"
    "parse_data_obj R (encode Zero @ rest) s = (Ok (denotes Zero, 1), s)"
    "parse_data_obj R (encode One @ rest) s = (Ok (denotes One, 1), s)"
    "parse_data_obj R (encode Ones @ rest) s = (Ok (denotes Ones, 1), s)"
proof -
  have *: "unat b mod 256 ^ 1 = unat b" "unat w mod 256 ^ 2 = unat w" "unat d mod 256 ^ 4 = unat d"
    "unat q mod 256 ^ 8 = unat q"
    using unat_less_power [of b] unat_less_power [of w] unat_less_power [of d] unat_less_power [of q] by simp_all
  show "parse_data_obj R (encode (ByteConst b) @ rest) s = (Ok (denotes (ByteConst b), length (encode (ByteConst b))), s)"
    using data_obj_byte [OF assms, of R "unat b" rest, unfolded *] by (simp add: denotes_def)
  show "parse_data_obj R (encode (WordConst w) @ rest) s = (Ok (denotes (WordConst w), length (encode (WordConst w))), s)"
    using data_obj_word [OF assms, of R "unat w" rest, unfolded *] by (simp add: denotes_def)
  show "parse_data_obj R (encode (DWordConst d) @ rest) s = (Ok (denotes (DWordConst d), length (encode (DWordConst d))), s)"
    using data_obj_dword [OF assms, of R "unat d" rest, unfolded *] by (simp add: denotes_def)
  show "parse_data_obj R (encode (QWordConst q) @ rest) s = (Ok (denotes (QWordConst q), length (encode (QWordConst q))), s)"
    using data_obj_qword [OF assms, of R "unat q" rest, unfolded *] by (simp add: denotes_def)
qed (simp_all add: data_obj_constant [OF assms] denotes_def)

lemma term_arg_data_obj:
  assumes "exec (cur s) = EXECUTING" "\<not> (0x68 \<le> c \<and> c \<le> 0x6E)" "parse_data_obj R (c # d) s = (Ok v, s)"
  shows "parse_term_arg R (c # d) s = (Ok v, s)"
  using assms by (simp add: parse_term_arg_def aml_run)

lemma at_prefix: "n = length xs \<Longrightarrow> at p (xs @ ys) n s = p ys s"
  by (simp add: at_run)

lemma binary_run:
  assumes "exec (cur s) = EXECUTING"
    and "\<And>rest. r_term_arg R (xs @ rest) s = (Ok (a, length xs), s)"
    and "\<And>rest. r_term_arg R (ys @ rest) s = (Ok (b, length ys), s)"
    and "f a b s = (Ok v, s)"
  shows "binary R (c # xs @ ys @ 0 # rest) f s = (Ok (v, 2 + length xs + length ys), s)"
  using assms at_prefix [of "Suc (length xs)" "c # xs" "r_term_arg R" "ys @ 0 # rest" s]
    at_prefix [of "Suc (length xs + length ys)" "c # xs @ ys" "parse_target R" "0 # rest" s]
  by (simp add: binary_def aml_run)

lemma logical_run:
  assumes "\<And>rest. r_term_arg R (xs @ rest) s = (Ok (a, length xs), s)"
    and "\<And>rest. r_term_arg R (ys @ rest) s = (Ok (b, length ys), s)"
    and "f a b s = (Ok v, s)"
  shows "logical R (c # xs @ ys @ rest) f s =
    (Ok (IntegerConstant (if v then 1 else 0), 1 + length xs + length ys), s)"
  using assms at_prefix [of "Suc (length xs)" "c # xs" "r_term_arg R" "ys @ rest" s]
  by (simp add: logical_def aml_run)

lemma arith_value_fun: "arith_value AddOp = (+)" "arith_value SubtractOp = (-)" "arith_value MultiplyOp = (*)"
  "arith_value AndOp = (AND)" "arith_value NandOp = (\<lambda>a b. NOT (a AND b))" "arith_value OrOp = (OR)"
  "arith_value NorOp = (\<lambda>a b. NOT (a OR b))" "arith_value XorOp = (XOR)"
  by (intro ext, simp only: arith_value.simps)+

lemma arith_hit:
  assumes "exec (cur s) = EXECUTING"
  shows "parse_def_add R (0x72 # d) s = binary R (0x72 # d) (int2 (arith_value AddOp)) s"
    "parse_def_subtract R (0x74 # d) s = binary R (0x74 # d) (int2 (arith_value SubtractOp)) s"
    "parse_def_multiply R (0x77 # d) s = binary R (0x77 # d) (int2 (arith_value MultiplyOp)) s"
    "parse_def_and R (0x7B # d) s = binary R (0x7B # d) (int2 (arith_value AndOp)) s"
    "parse_def_nand R (0x7C # d) s = binary R (0x7C # d) (int2 (arith_value NandOp)) s"
    "parse_def_or R (0x7D # d) s = binary R (0x7D # d) (int2 (arith_value OrOp)) s"
    "parse_def_nor R (0x7E # d) s = binary R (0x7E # d) (int2 (arith_value NorOp)) s"
    "parse_def_xor R (0x7F # d) s = binary R (0x7F # d) (int2 (arith_value XorOp)) s"
  using assms unfolding arith_value_fun parse_def_add_def parse_def_subtract_def
    parse_def_multiply_def parse_def_and_def parse_def_nand_def parse_def_or_def parse_def_nor_def
    parse_def_xor_def
  by (simp_all only: guarded_run opcode_run if_True refl)

lemma logic_hit:
  assumes "exec (cur s) = EXECUTING" "as_integer a s = (Ok i, s)" "as_integer b s = (Ok j, s)"
    and "\<And>rest. r_term_arg R (xs @ rest) s = (Ok (a, length xs), s)"
    and "\<And>rest. r_term_arg R (ys @ rest) s = (Ok (b, length ys), s)"
  shows "parse_type2_opcode R (logic_byte f # xs @ ys @ rest) s =
    (Ok (IntegerConstant (if logic_value f i j then 1 else 0), 1 + length xs + length ys), s)"
proof -
  note run = logical_run [OF assms(4,5), where v = "logic_value f i j"]
  show ?thesis using assms(1-3) unfolding parse_type2_opcode_def
    by (cases f) (simp_all add: type2_miss aml_run parse_def_land_def parse_def_lor_def parse_def_lequal_def
      parse_def_lgreater_def parse_def_lless_def cmp2_def word_neq_0_conv run)
qed

lemma arith_dispatch:
  assumes "exec (cur s) = EXECUTING" "binary R (arith_byte f # d) (int2 (arith_value f)) s = (Ok v, s)"
  shows "parse_type2_opcode R (arith_byte f # d) s = (Ok v, s)"
  using assms unfolding parse_type2_opcode_def
  by (cases f) (simp_all add: type2_miss aml_run arith_hit)

lemma not_dispatch:
  assumes "exec (cur s) = EXECUTING" "as_integer a s = (Ok i, s)"
    and "\<And>rest. r_term_arg R (xs @ rest) s = (Ok (a, length xs), s)"
  shows "parse_type2_opcode R (0x80 # xs @ 0 # rest) s = (Ok (Integer (NOT i), 2 + length xs), s)"
    and "parse_type2_opcode R (0x92 # xs @ rest) s = (Ok (IntegerConstant (if i = 0 then 1 else 0), 1 + length xs), s)"
  using assms at_prefix [of "Suc (length xs)" "0x80 # xs" "parse_target R" "0 # rest" s]
  unfolding parse_type2_opcode_def
  by (simp_all add: type2_miss aml_run parse_def_not_def parse_def_lnot_def)

lemma operator_bytes: "operator_byte (arith_byte f)" "operator_byte (logic_byte g)" "operator_byte 0x80" "operator_byte 0x92"
  by (cases f; simp add: operator_byte_def; fail | cases g; simp add: operator_byte_def)+

text \<open>The interpreter computes the value of an expression, whatever bytes follow it.\<close>

lemma encode_eval:
  assumes "exec (cur s) = EXECUTING"
  shows "height e \<le> n \<Longrightarrow>
    parse_term_arg (parsers_n n) (encode e @ rest) s = (Ok (denotes e, length (encode e)), s)"
proof (induction e arbitrary: n rest)
  case (Arith f a b)
  then obtain m where n: "n = Suc m" "height a \<le> m" "height b \<le> m" by (cases n) auto
  have "binary (parsers_n n) (arith_byte f # encode a @ encode b @ 0 # rest) (int2 (arith_value f)) s
      = (Ok (Integer (arith_value f (eval a) (eval b)), 2 + length (encode a) + length (encode b)), s)"
    by (rule binary_run [OF assms, where a = "denotes a" and b = "denotes b"])
      (simp_all add: n Let_def Arith.IH int2_def aml_run)
  from arith_dispatch [OF assms this] show ?case
    by (simp add: term_arg_operator [OF assms operator_bytes(1)] denotes_def)
next
  case (Logic f a b)
  then obtain m where n: "n = Suc m" "height a \<le> m" "height b \<le> m" by (cases n) auto
  show ?case
    by (simp add: term_arg_operator [OF assms operator_bytes(2)] denotes_def n Let_def Logic.IH
        logic_hit [OF assms as_integer_denotes as_integer_denotes])
next
  case (NotExpr a)
  then obtain m where n: "n = Suc m" "height a \<le> m" by (cases n) auto
  show ?case
    by (simp add: term_arg_operator [OF assms operator_bytes(3)] denotes_def n Let_def NotExpr.IH
        not_dispatch [OF assms as_integer_denotes])
next
  case (LnotExpr a)
  then obtain m where n: "n = Suc m" "height a \<le> m" by (cases n) auto
  show ?case
    by (simp add: term_arg_operator [OF assms operator_bytes(4)] denotes_def n Let_def LnotExpr.IH
        not_dispatch [OF assms as_integer_denotes])
qed (use data_obj_leaf [OF assms] in \<open>simp_all add: term_arg_data_obj [OF assms] word_le_nat_alt\<close>)

end
