(* ===== verification/Aml_Tables.thy ===== *)
theory Aml_Tables
  imports Aml_Expr
begin

text \<open>
  Tables of definitions: loading a table of \<open>Name\<close> terms defines exactly those names, with the values
  of their expressions.
\<close>

subsection \<open>Data objects\<close>

lemma data_ref_obj_run:
  assumes "exec (cur s) = EXECUTING" "height e \<le> m"
  shows "parse_data_ref_obj (parsers_n (Suc m)) (encode e @ rest) s = (Ok (denotes e, length (encode e)), s)"
proof -
  note ev = encode_eval [OF assms, of rest]
  have "parse_data_obj (parsers_n (Suc m)) (encode e @ rest) s = (Ok (denotes e, length (encode e)), s)
    \<or> parse_data_obj (parsers_n (Suc m)) (encode e @ rest) s = (Err AmlInvalidOpCode, s)"
    using data_obj_leaf [OF assms(1)] data_obj_miss [OF assms(1) operator_bytes(1)]
      data_obj_miss [OF assms(1) operator_bytes(2)] data_obj_miss [OF assms(1) operator_bytes(3)]
      data_obj_miss [OF assms(1) operator_bytes(4)]
    by (cases e) simp_all
  then show ?thesis using assms(1) ev
    by (auto simp: parse_data_ref_obj_def guarded_run selector_hit selector_miss selector_last Let_def)
qed

subsection \<open>Name segments\<close>

definition valid_seg :: "bytes \<Rightarrow> bool" where
  "valid_seg seg \<longleftrightarrow> length seg = 4 \<and> lead_name_char (hd seg) \<and> (\<forall>c \<in> set (tl seg). name_char c)
     \<and> (\<exists>c \<in> set seg. c \<noteq> 0x5F)"

definition seg_name :: "bytes \<Rightarrow> bytes" where
  "seg_name seg = rev (dropWhile (\<lambda>c. c = 0x5F) (rev seg))"

lemma strip_underscores_run: "\<exists>c \<in> set cs. c \<noteq> 0x5F \<Longrightarrow> strip_underscores cs = Ok (dropWhile (\<lambda>c. c = 0x5F) cs)"
  by (induction cs) auto

lemma parse_name_seg_run:
  assumes "valid_seg seg"
  shows "parse_name_seg (seg @ rest) = Ok (seg_name seg, 4)"
proof -
  from assms obtain a b c d where seg: "seg = [a, b, c, d]"
    by (auto simp: valid_seg_def length_Suc_conv eval_nat_numeral)
  have "strip_underscores [d, c, b, a] = Ok (dropWhile (\<lambda>c. c = 0x5F) [d, c, b, a])"
    using assms by (intro strip_underscores_run) (auto simp: valid_seg_def seg)
  then show ?thesis using assms
    by (simp add: parse_name_seg_def check_char_def byte_o_def valid_seg_def seg seg_name_def del: strip_underscores.simps)
qed

lemma name_char_range: "name_char c \<Longrightarrow> c < 0x80" "lead_name_char c \<Longrightarrow> 0x41 \<le> c \<and> c \<le> 0x5F \<and> c \<noteq> 0x5C \<and> c \<noteq> 0x5E"
  by (auto simp: name_char_def lead_name_char_def word_le_nat_alt word_less_nat_alt)

lemma lead_is_name_char: "lead_name_char c \<Longrightarrow> name_char c"
  by (simp add: name_char_def)

lemma seg_name_ascii:
  assumes "valid_seg seg" shows "utf8_valid (seg_name seg)"
proof (rule utf8_valid_ascii, rule ballI)
  fix b assume "b \<in> set (seg_name seg)"
  then have "b \<in> set seg" unfolding seg_name_def using set_dropWhileD by fastforce
  then show "b < 0x80" using assms name_char_range(1) lead_is_name_char
    by (cases seg) (auto simp: valid_seg_def)
qed

lemma name_string_run:
  assumes "valid_seg seg"
  shows "name_string (seg @ rest) = Ok (VString (seg_name seg), 4)"
proof -
  from assms obtain a d where seg: "seg = a # d" "lead_name_char a" by (cases seg) (auto simp: valid_seg_def)
  have "a \<noteq> 0x5C" "a \<noteq> 0x5E" "a \<noteq> 0x2E" "a \<noteq> 0x2F" "a \<noteq> 0"
    using name_char_range(2) [OF seg(2)] by (auto simp: word_le_nat_alt)
  then show ?thesis using parse_name_seg_run [OF assms, of rest] seg_name_ascii [OF assms] seg(1)
    by (simp add: name_string_def byte_o_def tail_o_def parse_dual_name_path_def parse_multi_name_path_def
        parse_null_name_def opcode_o_def from_utf8_def)
qed

lemma parse_name_string_run [aml_run]:
  "exec (cur s) = EXECUTING \<Longrightarrow> valid_seg seg \<Longrightarrow> parse_name_string (seg @ rest) s = (Ok (VString (seg_name seg), 4), s)"
  by (simp add: parse_name_string_def guarded_run name_string_run lift_def)

subsection \<open>Names in the root scope\<close>

lemma seg_name_hd:
  assumes "valid_seg seg" shows "\<exists>d. seg_name seg = hd seg # d"
proof -
  have seg: "seg = seg_name seg @ rev (takeWhile (\<lambda>c. c = 0x5F) (rev seg))"
    unfolding seg_name_def by (metis rev_append rev_rev_ident takeWhile_dropWhile_id)
  have "seg_name seg \<noteq> []" using assms by (auto simp: seg_name_def valid_seg_def dropWhile_eq_Nil_conv)
  then show ?thesis using seg by (metis hd_append2 list.collapse)
qed

lemma root_name:
  assumes "valid_seg seg"
  shows "get_namespace_string order [0x5C] (VString (seg_name seg)) = Ok (0x5C # seg_name seg)"
proof -
  from seg_name_hd [OF assms] obtain d where d: "seg_name seg = hd seg # d" ..
  have "hd seg \<noteq> 0x5C" "hd seg \<noteq> 0x5E" using assms name_char_range(2) by (auto simp: valid_seg_def)
  then show ?thesis unfolding d by (simp add: get_namespace_string_def get_as_string_def ends_with_def)
qed

subsection \<open>Tables\<close>

type_synonym name_def = "bytes \<times> aml_expr"

definition encode_def :: "name_def \<Rightarrow> bytes" where
  "encode_def d = 0x08 # fst d @ encode (snd d)"

definition def_name :: "name_def \<Rightarrow> rstring" where
  "def_name d = 0x5C # seg_name (fst d)"

definition define_in :: "aml_world \<Rightarrow> name_def \<Rightarrow> aml_world" where
  "define_in s d = s\<lparr>acpi_namespace := map_option (\<lambda>n. n(def_name d \<mapsto> denotes (snd d))) (acpi_namespace s),
     cur := (cur s)\<lparr>namespace_delta := namespace_delta (cur s) @ [def_name d]\<rparr>\<rparr>"

definition root_ready :: "aml_world \<Rightarrow> namespace \<Rightarrow> bool" where
  "root_ready s n \<longleftrightarrow> exec (cur s) = EXECUTING \<and> scope (cur s) = [0x5C] \<and> \<not> ns_locked s \<and> acpi_namespace s = Some n"

lemma name_op_run:
  assumes "root_ready s n" "valid_seg (fst d)" "height (snd d) \<le> m" "n (def_name d) = None"
  shows "parse_name_op (parsers_n (Suc m)) (encode_def d @ rest) s = (Ok (VNone, length (encode_def d)), define_in s d)"
proof -
  obtain seg e where d: "d = (seg, e)" by (cases d)
  have len: "length seg = 4" using assms(2) by (simp add: valid_seg_def d)
  have ex: "exec (cur s) = EXECUTING" using assms(1) by (simp add: root_ready_def)
  have "at (parse_data_ref_obj (parsers_n (Suc m))) (0x08 # seg @ encode e @ rest) 5 s
      = (Ok (denotes e, length (encode e)), s)"
    using at_prefix [of 5 "0x08 # seg"] data_ref_obj_run [OF ex] assms(3) by (simp add: d len)
  then show ?thesis using assms ex len
    by (simp add: parse_name_op_def encode_def_def d aml_run scoped_name_def root_name root_ready_def
        add_to_namespace_def lock_ns_def gets_def may_define_def upd_ctx_def update_def put_ns_def define_in_def
        def_name_def)
qed

lemma name_term_run:
  assumes "root_ready s n" "valid_seg (fst d)" "height (snd d) \<le> m" "n (def_name d) = None"
  shows "parse_term_obj (parsers_n (Suc m)) (encode_def d @ rest) s = (Ok (VNone, length (encode_def d)), define_in s d)"
proof -
  have ex: "exec (cur s) = EXECUTING" using assms(1) by (simp add: root_ready_def)
  have "parse_alias_op R (encode_def d @ rest) s = (Err AmlInvalidOpCode, s)"
    "parse_scope_op R (encode_def d @ rest) s = (Err AmlInvalidOpCode, s)" for R
    using ex by (simp_all add: parse_alias_op_def parse_scope_op_def encode_def_def aml_run)
  then have "parse_namespace_modifier (parsers_n (Suc m)) (encode_def d @ rest) s
      = (Ok (VNone, length (encode_def d)), define_in s d)"
    using name_op_run [OF assms] ex by (simp add: parse_namespace_modifier_def aml_run)
  then show ?thesis using ex by (simp add: parse_term_obj_def aml_run)
qed

definition encode_defs :: "name_def list \<Rightarrow> bytes" where
  "encode_defs ds = concat (map encode_def ds)"

definition good_defs :: "namespace \<Rightarrow> name_def list \<Rightarrow> bool" where
  "good_defs n ds \<longleftrightarrow> (\<forall>d \<in> set ds. valid_seg (fst d) \<and> n (def_name d) = None) \<and> distinct (map def_name ds)"

lemma encode_def_nonempty [simp]: "encode_def d \<noteq> []"
  by (simp add: encode_def_def)

lemma list_loop_defs:
  assumes "root_ready s n" "good_defs n ds" "\<forall>d \<in> set ds. height (snd d) \<le> m" "length ds < k"
  shows "list_loop k (parse_term_obj (parsers_n (Suc m))) (pre @ encode_defs ds) (length pre) s
    = (Ok (VNone, length (pre @ encode_defs ds)), foldl define_in s ds)"
  using assms
proof (induction ds arbitrary: s n k pre)
  case Nil
  then obtain j where "k = Suc j" by (cases k) auto
  then show ?case by (simp add: encode_defs_def ret_def)
next
  case (Cons d ds)
  then obtain j where k: "k = Suc j" by (cases k) auto
  let ?p = "parse_term_obj (parsers_n (Suc m))"
  let ?n = "n(def_name d \<mapsto> denotes (snd d))"
  have 1: "?p (encode_def d @ encode_defs ds) s = (Ok (VNone, length (encode_def d)), define_in s d)"
    using Cons.prems by (intro name_term_run [OF Cons.prems(1)]) (auto simp: good_defs_def)
  have 2: "root_ready (define_in s d) ?n" using Cons.prems(1) by (simp add: root_ready_def define_in_def)
  have 3: "good_defs ?n ds" using Cons.prems(2) by (auto simp: good_defs_def) (metis image_eqI)
  have "list_loop j ?p ((pre @ encode_def d) @ encode_defs ds) (length (pre @ encode_def d)) (define_in s d)
      = (Ok (VNone, length ((pre @ encode_def d) @ encode_defs ds)), foldl define_in (define_in s d) ds)"
    by (rule Cons.IH [OF 2 3]) (use Cons.prems k in auto)
  then show ?case using 1 2
    by (simp add: k encode_defs_def aml_run gets_def root_ready_def)
qed

lemma foldl_define_in:
  "acpi_namespace s = Some n \<Longrightarrow> foldl define_in s ds = s\<lparr>
     acpi_namespace := Some (n ++ map_of (rev (map (\<lambda>d. (def_name d, denotes (snd d))) ds))),
     cur := (cur s)\<lparr>namespace_delta := namespace_delta (cur s) @ map def_name ds\<rparr>\<rparr>"
  by (induction ds arbitrary: s n) (simp_all add: define_in_def map_add_upd_left fun_upd_def [symmetric])

text \<open>Loading a table of definitions from the root scope.\<close>

lemma names_table_run:
  assumes "acpi_namespace s = Some n" "\<not> ns_locked s" "good_defs n ds"
    and "\<forall>d \<in> set ds. height (snd d) \<le> m" "length ds \<le> m"
  shows "parse_aml_table (parsers_n (m + 2)) \<lparr> sdt_signature_bytes = sig, sdt_oem_id = oem, sdt_oem_table_id = tab,
      sdt_data = encode_defs ds \<rparr> s
    = (Ok (map def_name ds), s\<lparr>
        acpi_namespace := Some (n ++ map_of (rev (map (\<lambda>d. (def_name d, denotes (snd d))) ds))),
        next_ctx := next_ctx s + 1\<rparr>)"
proof -
  let ?c = "\<lparr> scope = [0x5C], local_vars = replicate 8 Uninitialized, arg_vars = replicate 8 Uninitialized,
      exec = EXECUTING, namespace_delta = [], ctx_id = next_ctx s, sync_level = 0 \<rparr>"
  let ?s = "s\<lparr>next_ctx := next_ctx s + 1, cur := ?c\<rparr>"
  have "list_loop (Suc m) (parse_term_obj (parsers_n (Suc m))) ([] @ encode_defs ds) (length ([] :: bytes)) ?s
    = (Ok (VNone, length ([] @ encode_defs ds)), foldl define_in ?s ds)"
    by (rule list_loop_defs [OF _ assms(3,4)]) (use assms(1,2,5) in \<open>auto simp: root_ready_def\<close>)
  then have "parse_term_list (parsers_n (Suc m)) (encode_defs ds) ?s
      = (Ok (VNone, length (encode_defs ds)), foldl define_in ?s ds)"
    by (simp add: parse_term_list_def guarded_run Let_def)
  then show ?thesis using assms(1)
    by (simp add: parse_aml_table_def parse_aml_with_scope_def aml_run new_ctx_def in_ctx_def Let_def
        foldl_define_in [of _ n])
qed

end
