(* ===== verification/Aml_Facts.thy ===== *)
theory Aml_Facts
  imports Aml_Tables
begin

text \<open>
  Lemmas on single parts of the AML interpreter: package lengths, the conversion between integers and
  buffers, the resolution of names, and the mutexes that contexts share.
\<close>

subsection \<open>Package lengths\<close>

lemma pkg_bytes_run:
  "length pre + length bs \<le> 3 \<Longrightarrow>
   pkg_bytes (x # pre @ bs @ rest) (length pre) (length bs) = Ok (16 * 256 ^ length pre * le_nat bs)"
proof (induction bs arbitrary: pre)
  case (Cons b bs)
  have "(256 :: nat) ^ length pre \<le> 256 ^ 2" using Cons.prems by (intro power_increasing) auto
  moreover have "unat b < 256" using unat_less_power [of b] by simp
  ultimately have "unat b * 16 * 256 ^ length pre \<le> 255 * 16 * 256 ^ 2" by (intro mult_mono) auto
  then have "unat b * 16 * 256 ^ length pre mod 2 ^ 32 = unat b * 16 * 256 ^ length pre" by (intro mod_less) simp
  moreover have "pkg_bytes (x # pre @ b # bs @ rest) (Suc (length pre)) (length bs) = Ok (16 * 256 ^ Suc (length pre) * le_nat bs)"
    using Cons.IH [of "pre @ [b]"] Cons.prems by simp
  ultimately show ?case by (simp add: byte_o_def nth_append algebra_simps)
qed simp

lemma unat_low_bits: "unat ((w :: byte) AND mask j) = unat w mod 2 ^ j"
  unfolding take_bit_eq_mask [symmetric] unsigned_take_bit_eq by (rule take_bit_eq_mod)

lemma unat_high_bits: "unat (drop_bit j (w :: byte)) = unat w div 2 ^ j"
  unfolding unat_drop_bit_eq by (rule drop_bit_eq_div)

lemma byte_masks: "(0x3F :: byte) = mask 6" "(0x0F :: byte) = mask 4" "(0x03 :: byte) = mask 2"
  by (simp_all add: mask_eq_exp_minus_1)

lemma pkg_lead_short:
  assumes "n < 64"
  shows "unat (drop_bit 6 (of_nat n :: byte)) = 0 \<and> unat ((of_nat n :: byte) AND 0x3F) = n"
  using assms by (simp only: byte_masks unat_low_bits unat_high_bits unat_of_nat) simp

lemma pkg_lead_long:
  assumes "1 \<le> k" "k \<le> 3" "m < 16"
  shows "unat (drop_bit 6 (of_nat (64 * k + m) :: byte)) = k
     \<and> drop_bit 4 (of_nat (64 * k + m) :: byte) AND 0x03 = 0 \<and> unat ((of_nat (64 * k + m) :: byte) AND 0x0F) = m"
proof -
  let ?w = "of_nat (64 * k + m) :: byte"
  have w: "unat ?w = 64 * k + m" using assms by (simp only: unat_of_nat) simp
  have d: "(64 * k + m) div 16 = 4 * k" "(64 * k + m) div 64 = k" using assms(3) by (intro div_nat_eqI; simp)+
  have "64 * k + m = m + 4 * k * 16" by simp
  then have e: "(64 * k + m) mod 16 = m" using assms(3) by (simp only: mod_mult_self1 mod_less)
  have "unat (drop_bit 4 ?w AND 0x03) = 0"
    using d by (simp only: byte_masks unat_low_bits unat_high_bits w) simp
  moreover have "unat (drop_bit 6 ?w) = k" using d by (simp only: unat_high_bits w) simp
  moreover have "unat (?w AND 0x0F) = m" using e by (simp only: byte_masks unat_low_bits w) simp
  ultimately show ?thesis by (simp only: unat_eq_0 [symmetric])
qed

subsection \<open>Integers and buffers\<close>

lemma push_bytes_pad: "length (push_bytes i) \<le> n \<Longrightarrow> push_bytes i @ replicate (n - length (push_bytes i)) 0 = le_bytes n i"
proof (induction i arbitrary: n rule: push_bytes.induct)
  case (1 i)
  show ?case
  proof (cases "i = 0")
    case True
    have "le_bytes n 0 = replicate n 0" by (induction n) auto
    then show ?thesis using True by (simp add: push_bytes.simps [of 0])
  next
    case False
    then have p: "push_bytes i = of_nat (i mod 256) # push_bytes (i div 256)" by (simp add: push_bytes.simps [of i])
    then obtain m where n: "n = Suc m" using "1.prems" by (cases n) auto
    have "(of_nat (i mod 256) :: byte) = of_nat i" by (simp add: word_unat_eq_iff unat_of_nat)
    then show ?thesis using 1 False by (simp add: p n)
  qed
qed

lemma push_bytes_length: "i < 256 ^ n \<Longrightarrow> length (push_bytes i) \<le> n"
proof (induction n arbitrary: i)
  case (Suc n)
  have "i div 256 < 256 ^ n" using Suc.prems by (simp add: less_mult_imp_div_less mult.commute)
  then show ?case using Suc.IH by (simp add: push_bytes.simps [of i])
qed (simp add: push_bytes.simps)

lemma integer_bytes_le: "integer_bytes i = le_bytes 8 (unat i)"
proof -
  have "length (push_bytes (unat i)) \<le> 8"
    using unat_less_power [of i] by (intro push_bytes_length) simp
  then show ?thesis using push_bytes_pad by (simp add: integer_bytes_def Let_def)
qed

lemma pop_bytes_le: "pop_bytes b = of_nat (le_nat b)"
  unfolding pop_bytes_def foldl_conv_foldr
  by (induction b) (simp_all add: push_bit_eq_mult ucast_of_unat algebra_simps)

lemma le_bytes_le_nat: "length b = n \<Longrightarrow> le_bytes n (le_nat b) = b"
proof (induction b arbitrary: n)
  case (Cons x b)
  have "unat (of_nat (unat x + 256 * le_nat b) :: byte) = unat x"
    using unat_less_power [of x] by (simp only: unat_of_nat) simp
  then have "(of_nat (unat x + 256 * le_nat b) :: byte) = x" by (simp only: word_unat_eq_iff)
  moreover have "(unat x + 256 * le_nat b) div 256 = le_nat b" using unat_less_power [of x] by simp
  ultimately show ?case using Cons by (simp only: le_nat.simps list.size) (auto simp del: of_nat_add)
qed simp

subsection \<open>Name resolution\<close>

fun dotted :: "bytes list \<Rightarrow> bytes" where
  "dotted [] = []"
| "dotted [x] = x"
| "dotted (x # y # r) = x @ 0x2E # dotted (y # r)"

definition path :: "bytes list \<Rightarrow> rstring" where
  "path segs = 0x5C # dotted segs"

definition plain :: "bytes \<Rightarrow> bool" where
  "plain seg \<longleftrightarrow> seg \<noteq> [] \<and> 0x2E \<notin> set seg \<and> 0x5C \<notin> set seg \<and> 0x5E \<notin> set seg"

lemma dotted_snoc: "xs \<noteq> [] \<Longrightarrow> dotted (xs @ [x]) = dotted xs @ 0x2E # x"
  by (induction xs rule: dotted.induct) auto

lemma climb_rev_plain: "0x2E \<notin> set x \<Longrightarrow> climb_rev (x @ y) = climb_rev y"
  by (induction x) auto

lemma climb_path:
  assumes "plain x"
  shows "climb (path (segs @ [x])) = (if segs = [] then None else Some (path segs))"
proof -
  have x: "0x2E \<notin> set (rev x)" using assms by (simp add: plain_def)
  show ?thesis
    using climb_rev_plain [OF x] by (simp add: climb_def path_def dotted_snoc)
qed

lemma path_end: "\<forall>s \<in> set segs. plain s \<Longrightarrow> ends_with (path segs) 0x5C \<longleftrightarrow> segs = []"
proof (cases segs rule: rev_cases)
  case (snoc xs x)
  assume "\<forall>s \<in> set segs. plain s"
  then have "plain x" by (simp add: snoc)
  then have x: "x \<noteq> []" "last x \<noteq> 0x5C" unfolding plain_def using last_in_set [of x] by metis+
  have "path segs = (if xs = [] then [0x5C] else path xs @ [0x2E]) @ x"
    by (simp add: snoc path_def dotted_snoc)
  then have "\<exists>y. path segs = y @ x" by blast
  then show ?thesis using x by (auto simp: ends_with_def snoc)
qed (simp add: ends_with_def path_def)

lemma strip_carets_path:
  assumes "\<forall>s \<in> set segs. plain s" "name \<noteq> []" "hd name \<noteq> 0x5E"
  shows "strip_carets (path segs) (replicate k 0x5E @ name) =
    (if k = 0 \<or> k < length segs then Ok (path (take (length segs - k) segs), name) else Err AmlValueError)"
  using assms(1)
proof (induction k arbitrary: segs)
  case 0
  then show ?case using assms(2,3) by (cases name) auto
next
  case (Suc k)
  show ?case
  proof (cases segs rule: rev_cases)
    case Nil
    then show ?thesis using path_end [OF Suc.prems] by simp
  next
    case (snoc xs x)
    then have "\<forall>s \<in> set xs. plain s" "plain x" using Suc.prems by auto
    then show ?thesis using path_end [OF Suc.prems] Suc.IH climb_path [of x xs]
      by (auto simp: snoc)
  qed
qed

lemma path_snoc: "\<forall>s \<in> set segs. plain s \<Longrightarrow>
   (if ends_with (path segs) 0x5C then path segs else path segs @ [0x2E]) @ name = path (segs @ [name])"
  using path_end [of segs] by (cases "segs = []") (simp_all add: path_def dotted_snoc)

subsection \<open>Mutexes\<close>

text \<open>
  Contexts that acquire and release one mutex in any order.  A trace is the list of the operations with
  their results; the specification of a lock says which traces are possible, from the number of the
  context that holds it.
\<close>

datatype mutex_op = Acquire nat | Release nat

fun actor :: "mutex_op \<Rightarrow> nat" where
  "actor (Acquire i) = i"
| "actor (Release i) = i"

fun do_op :: "rstring \<Rightarrow> mutex_op \<Rightarrow> aml_ctx list \<times> aml_world \<Rightarrow> bool outcome \<times> aml_ctx list \<times> aml_world" where
  "do_op m (Acquire i) (cs, s) =
    (case acquire_mutex (VString m) (s\<lparr>cur := cs ! i\<rparr>) of (r, s') \<Rightarrow> (r, cs[i := cur s'], s'))"
| "do_op m (Release i) (cs, s) =
    (case release_mutex (VString m) (s\<lparr>cur := cs ! i\<rparr>) of (r, s') \<Rightarrow> (omap (\<lambda>_. True) r, cs[i := cur s'], s'))"

fun trace :: "rstring \<Rightarrow> mutex_op list \<Rightarrow> aml_ctx list \<times> aml_world \<Rightarrow> (mutex_op \<times> bool outcome) list" where
  "trace m [] st = []"
| "trace m (op # ops) st = (case do_op m op st of (r, st') \<Rightarrow> (op, r) # trace m ops st')"

fun lock_step :: "nat option \<Rightarrow> mutex_op \<times> bool outcome \<Rightarrow> nat option option" where
  "lock_step holder (Acquire i, r) =
    (if r = Ok True \<and> holder = None then Some (Some i)
     else if r = Ok False \<and> holder \<noteq> None \<or> r = Err AmlValueError \<and> holder = None then Some holder
     else None)"
| "lock_step holder (Release i, r) =
    (if r = Ok True \<and> (holder = None \<or> holder = Some i) then Some None
     else if r = Err AmlValueError \<and> holder = Some i \<or> r = Err AmlHardFatal \<and> holder \<noteq> None \<and> holder \<noteq> Some i
     then Some holder
     else None)"

fun lock_spec :: "nat option \<Rightarrow> (mutex_op \<times> bool outcome) list \<Rightarrow> bool" where
  "lock_spec holder [] \<longleftrightarrow> True"
| "lock_spec holder (e # es) \<longleftrightarrow> (case lock_step holder e of None \<Rightarrow> False | Some h \<Rightarrow> lock_spec h es)"

definition mutex_state :: "rstring \<Rightarrow> aml_ctx list \<times> aml_world \<Rightarrow> nat option \<Rightarrow> bool" where
  "mutex_state m st holder \<longleftrightarrow> (case st of (cs, s) \<Rightarrow>
     distinct (map ctx_id cs) \<and> \<not> ns_locked s \<and> (\<forall>i. holder = Some i \<longrightarrow> i < length cs)
     \<and> (\<exists>n l. acpi_namespace s = Some n \<and> n m = Some (Mutex l (map_option (\<lambda>i. ctx_id (cs ! i)) holder))))"

lemma same_id: "distinct (map ctx_id cs) \<Longrightarrow> i < length cs \<Longrightarrow> j < length cs \<Longrightarrow> ctx_id (cs ! i) = ctx_id (cs ! j) \<longleftrightarrow> i = j"
  by (metis distinct_conv_nth length_map nth_map)

lemma map_ctx_id_update: "ctx_id c = ctx_id (cs ! i) \<Longrightarrow> map ctx_id (cs[i := c]) = map ctx_id cs"
  by (cases "i < length cs") (simp_all add: map_update list_update_same_conv list_update_beyond)

lemma nth_update_id: "ctx_id c = ctx_id (cs ! i) \<Longrightarrow> ctx_id (cs[i := c] ! j) = ctx_id (cs ! j)"
  by (cases "i < length cs"; cases "i = j") (auto simp: list_update_beyond)

lemmas mutex_run = find_object_def bnd_def lock_ns_def gets_def lift_def object_name_def ret_def fail_def put_ns_def
  update_def upd_ctx_def

lemma do_op_step:
  assumes "mutex_state m (cs, s) holder" "actor op < length cs" "do_op m op (cs, s) = (r, st')"
  shows "\<exists>h. lock_step holder (op, r) = Some h \<and> mutex_state m st' h \<and> length (fst st') = length cs"
proof -
  from assms(1) obtain n l where n: "acpi_namespace s = Some n" "n m = Some (Mutex l (map_option (\<lambda>i. ctx_id (cs ! i)) holder))"
    and d: "distinct (map ctx_id cs)" "\<not> ns_locked s" "\<And>i. holder = Some i \<Longrightarrow> i < length cs"
    by (auto simp: mutex_state_def)
  show ?thesis
  proof (cases op)
    case (Acquire i)
    show ?thesis using assms(2,3) n d
      by (cases holder) (auto simp: Acquire acquire_mutex_def mutex_run mutex_state_def map_ctx_id_update nth_update_id
          split: if_splits)
  next
    case (Release i)
    show ?thesis using assms(2,3) n d
      by (cases holder) (auto simp: Release release_mutex_def mutex_run mutex_state_def omap_def map_ctx_id_update
          nth_update_id same_id split: if_splits)
  qed
qed

lemma trace_lock_spec:
  "mutex_state m (cs, s) holder \<Longrightarrow> \<forall>op \<in> set ops. actor op < length cs \<Longrightarrow> lock_spec holder (trace m ops (cs, s))"
proof (induction ops arbitrary: cs s holder)
  case (Cons op ops)
  obtain r cs' s' where st: "do_op m op (cs, s) = (r, cs', s')" by (metis prod.exhaust)
  from do_op_step [OF Cons.prems(1) _ this] Cons.prems(2)
  obtain h where "lock_step holder (op, r) = Some h" "mutex_state m (cs', s') h" "length cs' = length cs" by auto
  then show ?case using Cons by (simp add: st)
qed simp

subsection \<open>Opcodes that no parser takes\<close>

lemma selector_error: "p d s = (Err e, s') \<Longrightarrow> e \<noteq> AmlInvalidOpCode \<Longrightarrow> selector (p # ps) d s = (Err e, s')"
  by (cases e) (simp_all add: selector.simps)

lemma at_least_run:
  "at_least n msg p data s = (if length data < n then (Err (AmlParseError msg), s) else p data s)"
  by (simp add: at_least_def fail_def)

lemma named_miss:
  assumes "exec (cur s) = EXECUTING"
  shows
    "c \<noteq> 0x5B \<Longrightarrow> 3 \<le> Suc (length d) \<Longrightarrow> parse_def_bank_field R (c # d) s = (Err AmlInvalidOpCode, s)"
    "c \<noteq> 0x8D \<Longrightarrow> 2 \<le> Suc (length d) \<Longrightarrow> parse_def_create_bit_field R (c # d) s = (Err AmlInvalidOpCode, s)"
    "c \<noteq> 0x8C \<Longrightarrow> 2 \<le> Suc (length d) \<Longrightarrow> parse_def_create_byte_field R (c # d) s = (Err AmlInvalidOpCode, s)"
    "c \<noteq> 0x8B \<Longrightarrow> 2 \<le> Suc (length d) \<Longrightarrow> parse_def_create_word_field R (c # d) s = (Err AmlInvalidOpCode, s)"
    "c \<noteq> 0x8A \<Longrightarrow> 2 \<le> Suc (length d) \<Longrightarrow> parse_def_create_dword_field R (c # d) s = (Err AmlInvalidOpCode, s)"
    "c \<noteq> 0x8F \<Longrightarrow> 2 \<le> Suc (length d) \<Longrightarrow> parse_def_create_qword_field R (c # d) s = (Err AmlInvalidOpCode, s)"
    "c \<noteq> 0x5B \<Longrightarrow> 2 \<le> Suc (length d) \<Longrightarrow> parse_def_create_field R (c # d) s = (Err AmlInvalidOpCode, s)"
    "c \<noteq> 0x5B \<Longrightarrow> 2 \<le> Suc (length d) \<Longrightarrow> parse_def_data_region R (c # d) s = (Err AmlInvalidOpCode, s)"
    "c \<noteq> 0x5B \<Longrightarrow> 2 \<le> Suc (length d) \<Longrightarrow> parse_def_event R (c # d) s = (Err AmlInvalidOpCode, s)"
    "c \<noteq> 0x5B \<Longrightarrow> 2 \<le> Suc (length d) \<Longrightarrow> parse_def_external R (c # d) s = (Err AmlInvalidOpCode, s)"
    "c \<noteq> 0x5B \<Longrightarrow> 2 \<le> Suc (length d) \<Longrightarrow> parse_def_device R (c # d) s = (Err AmlInvalidOpCode, s)"
    "c \<noteq> 0x5B \<Longrightarrow> 3 \<le> Suc (length d) \<Longrightarrow> parse_def_op_region R (c # d) s = (Err AmlInvalidOpCode, s)"
    "c \<noteq> 0x5B \<Longrightarrow> 3 \<le> Suc (length d) \<Longrightarrow> parse_def_field R (c # d) s = (Err AmlInvalidOpCode, s)"
    "c \<noteq> 0x5B \<Longrightarrow> 3 \<le> Suc (length d) \<Longrightarrow> parse_def_index_field R (c # d) s = (Err AmlInvalidOpCode, s)"
    "c \<noteq> 0x14 \<Longrightarrow> 1 \<le> Suc (length d) \<Longrightarrow> parse_def_method R (c # d) s = (Err AmlInvalidOpCode, s)"
    "c \<noteq> 0x5B \<Longrightarrow> 1 \<le> Suc (length d) \<Longrightarrow> parse_def_mutex R (c # d) s = (Err AmlInvalidOpCode, s)"
    "c \<noteq> 0x5B \<Longrightarrow> 5 \<le> Suc (length d) \<Longrightarrow> parse_def_power_res R (c # d) s = (Err AmlInvalidOpCode, s)"
    "c \<noteq> 0x5B \<Longrightarrow> 8 \<le> Suc (length d) \<Longrightarrow> parse_def_processor R (c # d) s = (Err AmlInvalidOpCode, s)"
    "c \<noteq> 0x5B \<Longrightarrow> 2 \<le> Suc (length d) \<Longrightarrow> parse_def_thermal_zone R (c # d) s = (Err AmlInvalidOpCode, s)"
  unfolding
    parse_def_bank_field_def parse_def_create_bit_field_def parse_def_create_byte_field_def
    parse_def_create_word_field_def parse_def_create_dword_field_def parse_def_create_qword_field_def
    parse_def_create_field_def parse_def_data_region_def parse_def_event_def parse_def_external_def
    parse_def_device_def parse_def_op_region_def parse_def_field_def parse_def_index_field_def
    parse_def_method_def parse_def_mutex_def parse_def_power_res_def parse_def_processor_def
    parse_def_thermal_zone_def
  using assms by (auto simp: at_least_run guarded_run opcode_run opcode_extended_run)

lemma named_obj_short:
  assumes "exec (cur s) = EXECUTING" "length d < 7" "c \<notin> {0x14, 0x5B, 0x8A, 0x8B, 0x8C, 0x8D, 0x8F}"
  shows "parse_named_obj R (c # d) s = (Err (AmlParseError (if length d < 2 then ''DefBankField - data truncated''
    else if length d < 4 then ''DefPowerRes - data truncated'' else ''DefProcessor - data truncated'')), s)"
proof -
  have trunc: "length d < 2 \<Longrightarrow> parse_def_bank_field R (c # d) s = (Err (AmlParseError ''DefBankField - data truncated''), s)"
    "length d < 4 \<Longrightarrow> parse_def_power_res R (c # d) s = (Err (AmlParseError ''DefPowerRes - data truncated''), s)"
    "parse_def_processor R (c # d) s = (Err (AmlParseError ''DefProcessor - data truncated''), s)"
    using assms(2) by (simp_all add: parse_def_bank_field_def parse_def_power_res_def parse_def_processor_def at_least_run)
  consider "length d < 2" | "2 \<le> length d" "length d < 4" | "4 \<le> length d" by linarith
  then show ?thesis using assms(1,3) unfolding parse_named_obj_def
    by cases (simp_all add: guarded_run selector_miss selector_error named_miss trunc)
qed

lemma type2_low_byte:
  assumes "exec (cur s) = EXECUTING" "c < 0x70" "c \<notin> {0x11, 0x12, 0x13, 0x28, 0x5B}"
  shows "parse_type2_opcode R (c # d) s = parse_method_invocation R (c # d) s"
proof -
  have "c \<noteq> k" if "0x70 \<le> k" for k using assms(2) that by auto
  then show ?thesis using assms(1,3) unfolding parse_type2_opcode_def
    by (simp add: guarded_run type2_miss selector_miss selector_last)
qed

end
