(* ===== verification/Aml_Props.thy ===== *)
theory Aml_Props
  imports Aml_Logic Aml_Facts
begin

text \<open>
  The properties of the AML interpreter.
\<close>

subsection \<open>A state for examples\<close>

definition demo_ctx :: aml_ctx where
  "demo_ctx = \<lparr> scope = [0x5C], local_vars = replicate 8 Uninitialized, arg_vars = replicate 8 Uninitialized,
     exec = EXECUTING, namespace_delta = [], ctx_id = 7, sync_level = 0 \<rparr>"

definition demo_world :: aml_world where
  "demo_world = \<lparr> acpi_namespace = Some Map.empty, ns_locked = False, next_ctx = 9, sdt_order = Some [],
     sdt_pointers = None, clock = (\<lambda>n. (of_nat n, 0)), ticks = 0, notified = [], cur = demo_ctx \<rparr>"

definition demo_sum :: aml_expr where
  "demo_sum = Arith AddOp (ByteConst 2) (NotExpr Zero)"

text \<open>ABCD = 2 + NOT 0, and FOO = 1.\<close>

definition demo_defs :: "name_def list" where
  "demo_defs = [([0x41, 0x42, 0x43, 0x44], demo_sum), ([0x46, 0x4F, 0x4F, 0x5F], One)]"

definition demo_table :: "bytes \<Rightarrow> sdt" where
  "demo_table data = \<lparr> sdt_signature_bytes = str ''SSDT'', sdt_oem_id = [], sdt_oem_table_id = [], sdt_data = data \<rparr>"

lemma demo_good: "good_defs Map.empty demo_defs"
  by (simp add: good_defs_def demo_defs_def valid_seg_def def_name_def seg_name_def lead_name_char_def name_char_def
      word_le_nat_alt)


subsection \<open>Expressions and tables\<close>



text \<open>
  C23.  Tables: loading a table of \<open>Name\<close> terms with well-formed, distinct and so far undefined names
  returns the list of their absolute names and defines each of them in the namespace with the value of
  its expression; apart from the number of the next context, nothing else changes.
\<close>

theorem names_table_defines:
  assumes "acpi_namespace s = Some n" "\<not> ns_locked s" "good_defs n ds"
    and "\<forall>d \<in> set ds. height (snd d) \<le> m" "length ds \<le> m" "sdt_data t = encode_defs ds"
  shows "parse_aml_table (parsers_n (m + 2)) t s
    = (Ok (map def_name ds), s\<lparr>
        acpi_namespace := Some (n ++ map_of (rev (map (\<lambda>d. (def_name d, denotes (snd d))) ds))),
        next_ctx := next_ctx s + 1\<rparr>)"
  using names_table_run [OF assms(1-5)] assms(6) by (cases t) simp

theorem names_table_defines_witness:
  "parse_aml_table (parsers_n 4) (demo_table (encode_defs demo_defs)) demo_world
    = (Ok [[0x5C, 0x41, 0x42, 0x43, 0x44], [0x5C, 0x46, 0x4F, 0x4F]], demo_world\<lparr>
        acpi_namespace := Some [[0x5C, 0x41, 0x42, 0x43, 0x44] \<mapsto> Integer 1, [0x5C, 0x46, 0x4F, 0x4F] \<mapsto> IntegerConstant 1],
        next_ctx := 10\<rparr>)"
  using names_table_defines [of demo_world Map.empty demo_defs 2 "demo_table (encode_defs demo_defs)"] demo_good
  by (simp add: demo_world_def demo_table_def demo_defs_def demo_sum_def denotes_def def_name_def seg_name_def)

subsection \<open>Running any table\<close>





subsection \<open>Parts of the interpreter\<close>



text \<open>
  C27.  Package lengths: a length below 64 in one byte, and a length in two to four bytes (the low four bits in
  the first byte, the rest little-endian in the others), are read back with the number of bytes they take.
\<close>

theorem pkg_length_roundtrip:
  assumes "k \<le> 3" "n < (if k = 0 then 64 else 2 ^ (4 + 8 * k))"
  shows "parse_pkg_length ((if k = 0 then [of_nat n] else of_nat (64 * k + n mod 16) # le_bytes k (n div 16)) @ rest)
    = Ok (n, k + 1)"
proof (cases "k = 0")
  case True
  with assms have "n < 64" by simp
  then show ?thesis using True pkg_lead_short by (simp add: parse_pkg_length_def byte_o_def Let_def)
next
  case False
  let ?lead = "of_nat (64 * k + n mod 16) :: byte"
  have k: "1 \<le> k" "k \<le> 3" using False assms(1) by auto
  have "n div 16 < 256 ^ k"
    using assms(2) False by (simp add: less_mult_imp_div_less power_add power_mult)
  then have "le_nat (le_bytes k (n div 16)) = n div 16" by (simp add: le_nat_le_bytes)
  then have "pkg_bytes (?lead # le_bytes k (n div 16) @ rest) 0 k = Ok (16 * (n div 16))"
    using pkg_bytes_run [of "[]" "le_bytes k (n div 16)" ?lead rest] k by simp
  then show ?thesis using False pkg_lead_long [OF k, of "n mod 16"]
    by (simp add: parse_pkg_length_def byte_o_def Let_def)
qed

theorem pkg_length_roundtrip_witness: "parse_pkg_length ([0x8C, 0x2B, 0x1A] @ [7]) = Ok (0x1A2BC, 3)"
proof -
  have "le_bytes 2 x = [of_nat x, of_nat (x div 256)]" for x by (simp add: numeral_2_eq_2)
  then have "le_bytes 2 (0x1A2BC div 16) = [0x2B, 0x1A]" by simp
  then show ?thesis using pkg_length_roundtrip [of 2 "0x1A2BC" "[7]"] by simp
qed

text \<open>
  An integer converted to a buffer has eight bytes and converts back to itself, and every buffer of
  eight bytes converts to an integer and back.
\<close>

lemma integer_buffer_roundtrip:
  "(\<exists>b. get_as_buffer order (Integer i) = Ok b \<and> length b = 8 \<and> get_as_integer order (Buffer b) = Ok i)
   \<and> (length c = 8 \<longrightarrow> (\<exists>j. get_as_integer order (Buffer c) = Ok j \<and> get_as_buffer order (Integer j) = Ok c))"
proof -
  have "(of_nat (le_nat (le_bytes 8 (unat i))) :: 64 word) = i"
    using unat_less_power [of i] by (simp add: le_nat_le_bytes)
  moreover have "le_bytes 8 (unat (of_nat (le_nat c) :: 64 word)) = c" if "length c = 8"
    using le_nat_bound [of c] le_bytes_le_nat [OF that] that by (simp add: unat_of_nat)
  ultimately show ?thesis by (simp add: integer_bytes_le pop_bytes_le)
qed

text \<open>
  C29.  Names: a name with \<open>k\<close> parent prefixes resolves from an absolute scope to the scope without its last
  \<open>k\<close> segments and then the name, as long as one segment is left; with as many prefixes as segments, which
  should lead to the root, and with more, the result is an error.
\<close>

theorem name_resolution:
  assumes "\<forall>seg \<in> set segs. plain seg" "plain name"
  shows "get_namespace_string order (path segs) (VString (replicate k 0x5E @ name)) =
    (if k = 0 \<or> k < length segs then Ok (path (take (length segs - k) segs @ [name])) else Err AmlValueError)"
proof -
  have name: "name \<noteq> []" "hd name \<noteq> 0x5E" "hd name \<noteq> 0x5C"
    using assms(2) unfolding plain_def by (metis hd_in_set)+
  have "\<forall>seg \<in> set (take (length segs - k) segs). plain seg" using assms(1) by (metis in_set_takeD)
  from path_snoc [OF this, of name] strip_carets_path [OF assms(1) name(1,2), of k] name
  show ?thesis
    by (cases k) (auto simp: get_namespace_string_def get_as_string_def path_def [of segs])
qed

theorem name_resolution_witness:
  "get_namespace_string None (path [str ''SB'', str ''PCI'']) (VString (0x5E # str ''X''))
    = Ok (path [str ''SB'', str ''X''])
   \<and> get_namespace_string None (path [str ''SB'']) (VString (0x5E # str ''X'')) = Err AmlValueError"
  using name_resolution [of "[str ''SB'', str ''PCI'']" "str ''X''" None 1] name_resolution [of "[str ''SB'']" "str ''X''" None 1]
  by (simp add: plain_def str_def of_char_def)

subsection \<open>Terms the interpreter cannot run\<close>

text \<open>
  C30.  A statement or an expression that starts within the last seven bytes of a term list is never run: the
  parsers of named objects come first, and those for banked fields, power resources and processors report
  truncated data, by length alone, before they look at the opcode.
\<close>

theorem late_terms_rejected:
  assumes "exec (cur s) = EXECUTING" "length (c # d) < 8"
    and "c \<notin> {0x06, 0x08, 0x10, 0x14, 0x5B, 0x8A, 0x8B, 0x8C, 0x8D, 0x8F}"
  shows "parse_term_obj R (c # d) s = (Err (AmlParseError (if length (c # d) < 3 then ''DefBankField - data truncated''
    else if length (c # d) < 5 then ''DefPowerRes - data truncated'' else ''DefProcessor - data truncated'')), s)"
proof -
  have "parse_namespace_modifier R (c # d) s = (Err AmlInvalidOpCode, s)"
    using assms by (simp add: parse_namespace_modifier_def parse_alias_op_def parse_scope_op_def parse_name_op_def aml_run)
  moreover have "parse_named_obj R (c # d) s = (Err (AmlParseError (if length (c # d) < 3 then ''DefBankField - data truncated''
    else if length (c # d) < 5 then ''DefPowerRes - data truncated'' else ''DefProcessor - data truncated'')), s)"
    using assms by (auto simp: named_obj_short)
  ultimately show ?thesis using assms(1) by (simp add: parse_term_obj_def aml_run selector_error)
qed

theorem late_terms_rejected_witness:
  "parse_term_obj (parsers_n 9) [0xA4, 0x01] demo_world = (Err (AmlParseError ''DefBankField - data truncated''), demo_world)"
  using late_terms_rejected [of demo_world "0xA4" "[0x01]" "parsers_n 9"] by (simp add: demo_world_def demo_ctx_def)

text \<open>
  C31.  The local variables of methods cannot be reached.  Their opcodes, 0x60 to 0x67, are refused as
  terms; the opcodes of the arguments, 0x68 to 0x6E, are taken for locals 8 to 14, and reading one of these
  panics in every context, since a context has eight.
\<close>

theorem local_variables_unreachable:
  assumes "exec (cur s) = EXECUTING" "length (local_vars (cur s)) = 8"
  shows "(0x60 \<le> c \<and> c \<le> 0x67 \<longrightarrow> parse_term_arg R (c # d) s = (Err AmlInvalidOpCode, s))
    \<and> (0x68 \<le> c \<and> c \<le> 0x6E \<longrightarrow> (\<exists>v. parse_term_arg R (c # d) s = (Ok (v, 1), s) \<and> get_value v s = (Panic, s)))"
proof (intro conjI impI)
  assume c: "0x60 \<le> c \<and> c \<le> 0x67"
  then have miss: "\<not> (0x68 \<le> c \<and> c \<le> 0x6E)" "c \<notin> {0x0A, 0x0B, 0x0C, 0x0D, 0x0E, 0x00, 0x01, 0x5B, 0xFF, 0x11, 0x12, 0x13, 0x28}"
    "\<not> lead_name_char c" "c \<noteq> 0x5C" "c \<noteq> 0x5E" "c \<noteq> 0x2E" "c \<noteq> 0x2F" "c \<noteq> 0" "c < 0x70"
    by (auto simp: word_le_nat_alt word_less_nat_alt lead_name_char_def)
  have "parse_data_obj R (c # d) s = (Err AmlInvalidOpCode, s)"
    using miss(2) assms(1) by (simp add: parse_data_obj_def parse_computational_data_def type2_miss aml_run)
  moreover have "parse_method_invocation R (c # d) s = (Err AmlInvalidOpCode, s)"
    using miss assms(1) by (simp add: parse_method_invocation_def aml_run parse_name_string_def name_string_def
        byte_o_def tail_o_def parse_dual_name_path_def parse_multi_name_path_def parse_null_name_def opcode_o_def
        parse_name_seg_def check_char_def)
  moreover from miss(9) have "parse_type2_opcode R (c # d) s = parse_method_invocation R (c # d) s"
    using assms(1) miss(2) by (intro type2_low_byte) auto
  ultimately show "parse_term_arg R (c # d) s = (Err AmlInvalidOpCode, s)"
    using assms(1) miss(1) by (simp add: parse_term_arg_def aml_run)
next
  assume c: "0x68 \<le> c \<and> c \<le> 0x6E"
  then have "8 \<le> unat (c - 0x60)" by (auto simp: word_le_nat_alt unat_sub)
  then show "\<exists>v. parse_term_arg R (c # d) s = (Ok (v, 1), s) \<and> get_value v s = (Panic, s)"
    using c assms by (intro exI [of _ "ObjectReference (LocalObj (c - 0x60))"])
      (simp add: parse_term_arg_def parse_local_obj_def aml_run get_value_def gets_def elem_def panics_def)
qed

theorem local_variables_unreachable_witness:
  "parse_term_arg (parsers_n 5) [0x60] demo_world = (Err AmlInvalidOpCode, demo_world)"
  using local_variables_unreachable [of demo_world "0x60" "parsers_n 5" "[]"] by (simp add: demo_world_def demo_ctx_def)

text \<open>
  C32.  Increment and decrement of a named object never return: they hold the lock of the namespace, which
  is not reentrant, while they read the object through a function that takes it.
\<close>

theorem increment_deadlocks:
  assumes "exec (cur s) = EXECUTING" "r_super_name R d s = (Ok (VString name, len), s)"
  shows "fst (parse_def_increment R (0x75 # d) s) = Hang \<and> fst (parse_def_decrement R (0x76 # d) s) = Hang"
  using assms by (simp add: parse_def_increment_def parse_def_decrement_def step_value_def aml_run holding_def
      get_value_def get_object_def lock_ns_def)

theorem increment_deadlocks_witness:
  "fst (parse_def_increment (parsers_n 1) (0x75 # [0x41, 0x42, 0x43, 0x44]) demo_world) = Hang"
proof -
  have "valid_seg [0x41, 0x42, 0x43, 0x44]"
    by (simp add: valid_seg_def lead_name_char_def name_char_def word_le_nat_alt)
  from parse_name_string_run [OF _ this, of demo_world "[]"]
  have "r_super_name (parsers_n 1) [0x41, 0x42, 0x43, 0x44] demo_world
      = (Ok (VString (seg_name [0x41, 0x42, 0x43, 0x44]), 4), demo_world)"
    by (simp add: Let_def parse_super_name_def parse_simple_name_def aml_run demo_world_def demo_ctx_def)
  then show ?thesis using increment_deadlocks [of demo_world] by (simp add: demo_world_def demo_ctx_def)
qed

end
