(* ===== verification/Contexts.thy ===== *)
theory Contexts
  imports Consts
begin

text \<open>
  Contexts and their scheduling: kernel/src/context/context.rs, list.rs, switch.rs, mod.rs, the ends of
  the calls in call.rs, and the system calls of kernel/src/syscall/process.rs, time.rs and call.rs that
  yield, sleep, return and exit.

  \<^item> The list of contexts is a BTreeMap, here the list of its entries in the order of the keys.
    A shared pointer to a context is its number: the only code that takes a context out of the list
    is never called.
  \<^item> A kernel state is the one of a single processor, whose number is \<open>this_cpu\<close>.  The locks of the
    contexts and the switch lock are free between operations; a context that the code locks twice is
    the panic of \<open>try_write\<close>.
  \<^item> The switch of the machine registers is the value an operation returns: after it, the code of
    another context runs.
  \<^item> The clock is advanced by the timer interrupt, which is an operation of its own.
\<close>

datatype kernel_error = ESRCH | EINVAL | Too_Many_Contexts

subsection \<open>Contexts\<close>

datatype status = Running | Runnable | Blocked | New | Exited

type_synonym time = "64 word \<times> 64 word"

text \<open>The fields that scheduling uses.  The kernel stack has an address when it is mapped, and a length.\<close>

record kcontext =
  cid :: usize
  cstatus :: status
  ret_link :: "usize option"
  cpu_id :: "usize option"
  wake :: "time option"
  kstack :: "(usize option \<times> usize) option"
  args :: "usize option"
  result :: "bytes option"
  func :: usize

definition context_new :: kcontext where
  "context_new = \<lparr> cid = 0, cstatus = Blocked, ret_link = None, cpu_id = None, wake = None, kstack = None,
     args = None, result = None, func = 0 \<rparr>"

definition block_context :: "kcontext \<Rightarrow> kcontext \<times> bool" where
  "block_context c = (if cstatus c = Runnable then (c\<lparr>cstatus := Blocked\<rparr>, True) else (c, False))"

definition unblock_context :: "kcontext \<Rightarrow> kcontext \<times> bool" where
  "unblock_context c = (if cstatus c = Blocked then (c\<lparr>cstatus := Runnable\<rparr>, True) else (c, False))"

record waitpid_key =
  pid :: "usize option"
  pgid :: "usize option"

datatype ordering = Less | Equal | Greater

definition cmp_nat :: "usize \<Rightarrow> usize \<Rightarrow> ordering" where
  "cmp_nat a b = (if a < b then Less else if a = b then Equal else Greater)"

definition waitpid_cmp :: "waitpid_key \<Rightarrow> waitpid_key \<Rightarrow> ordering" where
  "waitpid_cmp k k' =
    (case (pid k, pid k') of
       (Some a, Some b) \<Rightarrow> cmp_nat a b
     | _ \<Rightarrow>
       (case (pgid k, pgid k') of
          (Some a, Some b) \<Rightarrow> cmp_nat a b
        | _ \<Rightarrow>
          if pid k \<noteq> None then Greater
          else if pid k' \<noteq> None then Less
          else if pgid k \<noteq> None then Greater
          else if pgid k' \<noteq> None then Less
          else Equal))"

subsection \<open>The list of contexts\<close>

type_synonym entries = "(usize \<times> kcontext) list"

record kernel =
  entries :: entries
  next_id :: usize
  CONTEXT_ID :: usize
  this_cpu :: usize
  start_time :: time
  now :: time
  tss_stack :: usize
  pit_ticks :: usize

definition CONTEXT_MAX_CONTEXTS :: usize where
  "CONTEXT_MAX_CONTEXTS = 2 ^ 63 - 2"

definition get :: "kernel \<Rightarrow> usize \<Rightarrow> kcontext option" where
  "get s i = map_of (entries s) i"

definition current :: "kernel \<Rightarrow> kcontext option" where
  "current s = get s (CONTEXT_ID s)"

fun put_entry :: "usize \<Rightarrow> kcontext \<Rightarrow> entries \<Rightarrow> entries" where
  "put_entry i c [] = [(i, c)]"
| "put_entry i c ((j, d) # es) =
    (if i < j then (i, c) # (j, d) # es
     else if i = j then (i, c) # es
     else (j, d) # put_entry i c es)"

definition set_context :: "kernel \<Rightarrow> usize \<Rightarrow> kcontext \<Rightarrow> kernel" where
  "set_context s i c = s\<lparr>entries := put_entry i c (entries s)\<rparr>"

text \<open>The first number from \<open>i\<close> on that is not in use.\<close>

function free_id :: "entries \<Rightarrow> usize \<Rightarrow> usize" where
  "free_id es i = (if i \<in> fst ` set es then free_id es (Suc i) else i)"
  by pat_completeness auto
termination
proof (relation "measure (\<lambda>(es, i). Suc (Max (insert 0 (fst ` set es))) - i)")
  fix es :: entries and i assume i: "i \<in> fst ` set es"
  have "i \<le> Max (insert 0 (fst ` set es))" using i by (intro Max_ge) auto
  then show "((es, Suc i), es, i) \<in> measure (\<lambda>(es, i). Suc (Max (insert 0 (fst ` set es))) - i)" by simp
qed simp

declare free_id.simps [simp del]

definition insert_context :: "kernel \<Rightarrow> kcontext \<Rightarrow> kernel \<times> (kernel_error + usize)" where
  "insert_context s c =
    (let n = (if next_id s \<ge> CONTEXT_MAX_CONTEXTS then 1 else next_id s);
         i = free_id (entries s) n in
     if i \<ge> CONTEXT_MAX_CONTEXTS then (s\<lparr>next_id := i\<rparr>, Inl Too_Many_Contexts)
     else (set_context (s\<lparr>next_id := i + 1\<rparr>) i (c\<lparr>cid := i\<rparr>), Inr i))"

definition remove_context :: "kernel \<Rightarrow> usize \<Rightarrow> kernel \<times> kcontext option" where
  "remove_context s i = (s\<lparr>entries := filter (\<lambda>(j, _). j \<noteq> i) (entries s)\<rparr>, get s i)"

subsection \<open>Switching\<close>

definition time_reached :: "time \<Rightarrow> time \<Rightarrow> bool" where
  "time_reached t w \<longleftrightarrow> fst t > fst w \<or> fst t = fst w \<and> snd t \<ge> snd w"

definition update_context :: "kernel \<Rightarrow> kcontext \<Rightarrow> kcontext" where
  "update_context s c =
    (let c = (if cpu_id c = None then c\<lparr>cpu_id := Some (this_cpu s)\<rparr> else c) in
     case wake c of
       Some w \<Rightarrow>
         if cstatus c = Blocked \<and> time_reached (now s) w then fst (unblock_context (c\<lparr>wake := None\<rparr>)) else c
     | None \<Rightarrow> c)"

definition runnable :: "kernel \<Rightarrow> kcontext \<Rightarrow> bool" where
  "runnable s c \<longleftrightarrow> (cstatus c = Runnable \<or> cstatus c = New) \<and> cpu_id c = Some (this_cpu s)"

definition update_all :: "kernel \<Rightarrow> kernel" where
  "update_all s = s\<lparr>entries := map (\<lambda>(i, c). (i, update_context s c)) (entries s)\<rparr>"

definition first_context :: "(usize \<Rightarrow> kcontext \<Rightarrow> bool) \<Rightarrow> kernel \<Rightarrow> usize option" where
  "first_context P s = map_option fst (find (\<lambda>(i, c). P i c) (entries s))"

text \<open>The context to switch to: the next runnable one after the current one, or else the first one
  before it.\<close>

definition next_context :: "kernel \<Rightarrow> usize \<Rightarrow> usize option" where
  "next_context s from =
    (case first_context (\<lambda>i c. i > from \<and> runnable s c) s of
       Some i \<Rightarrow> Some i
     | None \<Rightarrow> first_context (\<lambda>i c. i < from \<and> runnable s c) s)"

definition set_tss :: "kernel \<Rightarrow> kcontext \<Rightarrow> kernel rust" where
  "set_tss s c =
    (case kstack c of
       None \<Rightarrow> Some s
     | Some (None, _) \<Rightarrow> panic
     | Some (Some a, len) \<Rightarrow> Some (s\<lparr>tss_stack := uadd a len\<rparr>))"

definition args_address :: "kcontext \<Rightarrow> usize" where
  "args_address c = (case args c of Some a \<Rightarrow> a | None \<Rightarrow> 0)"

text \<open>The register switches of arch/x86_64.rs: to the start of a function in the kernel or in user
  space, back to where a context stopped, or back with the state of the old context dropped.\<close>

datatype machine = Switch_Kernel usize usize usize | Switch_User usize usize usize | Switch_To usize |
  Switch_Discarding usize

definition switch_machine :: "kcontext \<Rightarrow> machine" where
  "switch_machine to =
    (if cstatus to = New then
       if func to > unat KERNEL_OFFSET then Switch_Kernel (cid to) (func to) (args_address to)
       else Switch_User (cid to) (func to) (args_address to)
     else Switch_To (cid to))"

definition stop_running :: "kcontext \<Rightarrow> kcontext" where
  "stop_running c = (if cstatus c = Running then c\<lparr>cstatus := Runnable\<rparr> else c)"

definition switch :: "kernel \<Rightarrow> (kernel \<times> machine option) rust" where
  "switch s = do {
     _ \<leftarrow> current s;
     let s = update_all (s\<lparr>pit_ticks := 0\<rparr>);
     from \<leftarrow> current s;
     case next_context s (cid from) of
       None \<Rightarrow> Some (s, None)
     | Some i \<Rightarrow> do {
         to \<leftarrow> get s i;
         let s = set_context s (CONTEXT_ID s) (stop_running from);
         let s = set_context s i (to\<lparr>cstatus := Running\<rparr>);
         s \<leftarrow> set_tss s to;
         Some (s\<lparr>CONTEXT_ID := cid to\<rparr>, Some (switch_machine to)) } }"

definition fuse_return :: "kernel \<Rightarrow> usize \<Rightarrow> usize \<Rightarrow> (kernel \<times> machine) rust" where
  "fuse_return s from_context to_context = do {
     from \<leftarrow> get s from_context;
     let s = set_context s from_context (fst (unblock_context from));
     to \<leftarrow> (if to_context = from_context then panic else get s to_context);
     let s = set_context s to_context (to\<lparr>cstatus := Running\<rparr>);
     s \<leftarrow> set_tss s to;
     Some (s\<lparr>CONTEXT_ID := cid to\<rparr>, Switch_Discarding (cid to)) }"

definition fuse_switch :: "kernel \<Rightarrow> usize \<Rightarrow> usize \<Rightarrow> (kernel \<times> machine) rust" where
  "fuse_switch s to_context f = do {
     to \<leftarrow> get s to_context;
     let s = (set_context s to_context (to\<lparr>cstatus := Running\<rparr>))\<lparr>pit_ticks := 0, CONTEXT_ID := cid to\<rparr>;
     s \<leftarrow> set_tss s to;
     from_context \<leftarrow> ret_link to;
     from \<leftarrow> (if from_context = to_context then panic else get s from_context);
     let s = set_context s from_context (fst (block_context from));
     Some (s, Switch_User (cid to) f (args_address to)) }"

subsection \<open>Calls\<close>

text \<open>
  The end of a call, when the memory of the new context \<open>c\<close> is set up and the arguments are encoded in
  it.  A fused call switches to the new context at once and takes the result when control is back; a
  cast call leaves it to the scheduler.
\<close>

definition fuse_inner :: "kernel \<Rightarrow> kcontext \<Rightarrow> usize \<Rightarrow> (kernel \<times> (kernel_error + usize \<times> machine)) rust" where
  "fuse_inner s c f = do {
     cur \<leftarrow> current s;
     let c = c\<lparr>func := f, ret_link := Some (CONTEXT_ID s), cpu_id := cpu_id cur\<rparr>;
     case insert_context s c of
       (s, Inl e) \<Rightarrow> Some (s, Inl e)
     | (s, Inr i) \<Rightarrow> do {
         (s, m) \<leftarrow> fuse_switch s i f;
         Some (s, Inr (i, m)) } }"

definition fuse_result :: "kernel \<Rightarrow> usize \<Rightarrow> (kernel \<times> bytes) rust" where
  "fuse_result s inserted = do {
     c \<leftarrow> get s inserted;
     r \<leftarrow> result c;
     Some (set_context s inserted (c\<lparr>result := None\<rparr>), r) }"

definition cast_inner :: "kernel \<Rightarrow> kcontext \<Rightarrow> usize \<Rightarrow> kernel \<times> (kernel_error + usize)" where
  "cast_inner s c f = insert_context s (c\<lparr>func := f, cstatus := New\<rparr>)"

text \<open>The first context of a processor, with the kernel stack that was allocated for it.\<close>

definition context_init :: "kernel \<Rightarrow> (usize \<times> usize) option \<Rightarrow> kernel rust" where
  "context_init s stack = do {
     (a, len) \<leftarrow> stack;
     let c = context_new\<lparr>cstatus := Running, cpu_id := Some (this_cpu s), kstack := Some (Some a, len)\<rparr>;
     case insert_context (s\<lparr>tss_stack := uadd a len\<rparr>) c of
       (_, Inl _) \<Rightarrow> panic
     | (s, Inr i) \<Rightarrow> Some (s\<lparr>CONTEXT_ID := i\<rparr>) }"

subsection \<open>System calls\<close>

definition getpid :: "kernel \<Rightarrow> kernel_error + usize" where
  "getpid s = (case current s of Some c \<Rightarrow> Inr (cid c) | None \<Rightarrow> Inl ESRCH)"

datatype exit_result = Stopped | Switched machine

text \<open>The processor stops when its first context exits; any other one that was not called must find a
  context to switch to.\<close>

definition exit :: "kernel \<Rightarrow> (kernel \<times> exit_result) rust" where
  "exit s = do {
     c \<leftarrow> current s;
     let s = set_context s (CONTEXT_ID s) (c\<lparr>cstatus := Exited, ret_link := None\<rparr>);
     case ret_link c of
       Some parent \<Rightarrow> do { (s, m) \<leftarrow> fuse_return s (CONTEXT_ID s) parent; Some (s, Switched m) }
     | None \<Rightarrow>
         if cid c = 1 then Some (s, Stopped)
         else do {
           (s, m) \<leftarrow> switch s;
           m \<leftarrow> m;
           Some (s, Switched m) } }"

definition sys_return :: "kernel \<Rightarrow> bytes \<Rightarrow> (kernel \<times> exit_result) rust" where
  "sys_return s values = do {
     c \<leftarrow> current s;
     exit (set_context s (CONTEXT_ID s) (c\<lparr>result := Some values\<rparr>)) }"

definition sigreturn :: "kernel \<Rightarrow> (kernel \<times> (kernel_error + machine)) rust" where
  "sigreturn s =
    (case current s of
       None \<Rightarrow> Some (s, Inl ESRCH)
     | Some c \<Rightarrow> do {
         (s, m) \<leftarrow> switch (set_context s (CONTEXT_ID s) (fst (block_context c)));
         m \<leftarrow> m;
         Some (s, Inr m) })"

definition sched_yield :: "kernel \<Rightarrow> (kernel \<times> machine option) rust" where
  "sched_yield s = switch s"

definition monotonic :: "kernel \<Rightarrow> time" where
  "monotonic s = now s"

definition time_sum :: "time \<Rightarrow> 64 word \<Rightarrow> 64 word \<Rightarrow> time" where
  "time_sum t sec nsec =
    (let sum = snd t + nsec in (fst t + sec + sum div 1000000000, sum mod 1000000000))"

definition realtime :: "kernel \<Rightarrow> time" where
  "realtime s = time_sum (start_time s) (fst (monotonic s)) (snd (monotonic s))"

definition clock_gettime :: "kernel \<Rightarrow> usize \<Rightarrow> kernel_error + 64 word \<times> 32 word" where
  "clock_gettime s clock =
    (if clock = 1 then Inr (fst (realtime s), ucast (snd (realtime s)))
     else if clock = 4 then Inr (fst (monotonic s), ucast (snd (monotonic s)))
     else Inl EINVAL)"

text \<open>The seconds and nanoseconds are signed, and extended to 64 bits.  The remaining time that the
  call reports is zero.\<close>

definition nanosleep :: "kernel \<Rightarrow> 64 word \<Rightarrow> 32 word \<Rightarrow> (kernel \<times> (kernel_error + machine option)) rust" where
  "nanosleep s tv_sec tv_nsec =
    (case current s of
       None \<Rightarrow> Some (s, Inl ESRCH)
     | Some c \<Rightarrow> do {
         let c = c\<lparr>wake := Some (time_sum (monotonic s) tv_sec (scast tv_nsec))\<rparr>;
         (s, m) \<leftarrow> switch (set_context s (CONTEXT_ID s) (fst (block_context c)));
         Some (s, Inr m) })"

subsection \<open>The timer interrupt and the idle loop\<close>

definition PIT_RATE :: "64 word" where
  "PIT_RATE = 2250286"

definition pit :: "kernel \<Rightarrow> (kernel \<times> machine option) rust" where
  "pit s =
    (let sum = snd (now s) + PIT_RATE;
         s = s\<lparr>now := (fst (now s) + sum div 1000000000, sum mod 1000000000)\<rparr>;
         ticks = pit_ticks s;
         s = s\<lparr>pit_ticks := uadd ticks 1\<rparr> in
     if ticks \<ge> 10 then switch s else Some (s, None))"

end
