(* ===== verification/Contexts_Inv.thy ===== *)
theory Contexts_Inv
  imports Contexts
begin

text \<open>
  The invariant of the kernel's contexts.

  \<^item> \<open>ids_ok\<close>: the list is sorted, every context is stored under its own number, within the bounds,
    belongs to this processor and has a mapped kernel stack if it has one.
  \<^item> \<open>callers_ok\<close>: a context that waits for the return of a fused call has one callee, is not
    current, and has the status Running, which keeps the scheduler from choosing it.
  \<^item> \<open>kernel_ok\<close>: both, and the current context exists and is running.
\<close>

definition ids :: "kernel \<Rightarrow> usize list" where
  "ids s = map fst (entries s)"

definition mapped :: "kcontext \<Rightarrow> bool" where
  "mapped c \<longleftrightarrow> (case kstack c of Some (None, _) \<Rightarrow> False | _ \<Rightarrow> True)"

definition context_ok :: "kernel \<Rightarrow> usize \<Rightarrow> kcontext \<Rightarrow> bool" where
  "context_ok s i c \<longleftrightarrow> cid c = i \<and> 1 \<le> i \<and> i < CONTEXT_MAX_CONTEXTS \<and> mapped c \<and>
     (cpu_id c = None \<or> cpu_id c = Some (this_cpu s))"

definition ids_ok :: "kernel \<Rightarrow> bool" where
  "ids_ok s \<longleftrightarrow> sorted_wrt (<) (ids s) \<and> 1 \<le> next_id s \<and> (\<forall>i c. get s i = Some c \<longrightarrow> context_ok s i c)"

definition calls :: "kernel \<Rightarrow> usize \<Rightarrow> usize \<Rightarrow> bool" where
  "calls s p i \<longleftrightarrow> (\<exists>c. get s i = Some c \<and> ret_link c = Some p)"

definition running :: "kernel \<Rightarrow> usize \<Rightarrow> bool" where
  "running s p \<longleftrightarrow> (\<exists>c. get s p = Some c \<and> cstatus c = Running)"

definition callers_ok :: "kernel \<Rightarrow> bool" where
  "callers_ok s \<longleftrightarrow> (\<forall>p i. calls s p i \<longrightarrow> p \<noteq> CONTEXT_ID s \<and> running s p \<and> (\<forall>j. calls s p j \<longrightarrow> j = i))"

definition kernel_ok :: "kernel \<Rightarrow> bool" where
  "kernel_ok s \<longleftrightarrow> ids_ok s \<and> callers_ok s \<and> running s (CONTEXT_ID s)"

text \<open>A context as \<open>spawn\<close> makes it.\<close>

definition spawned :: "kcontext \<Rightarrow> bool" where
  "spawned c \<longleftrightarrow> cstatus c = Blocked \<and> ret_link c = None \<and> cpu_id c = None \<and> result c = None \<and>
     (\<exists>a len. kstack c = Some (Some a, len))"

subsection \<open>The list\<close>

lemma map_of_put_entry: "map_of (put_entry i c es) j = (if j = i then Some c else map_of es j)"
  by (induction i c es rule: put_entry.induct) auto

lemma get_set_context [simp]: "get (set_context s i c) j = (if j = i then Some c else get s j)"
  by (simp add: get_def set_context_def map_of_put_entry)

lemma set_put_entry: "fst ` set (put_entry i c es) = insert i (fst ` set es)"
  by (induction i c es rule: put_entry.induct) auto

lemma sorted_put_entry:
  "sorted_wrt (<) (map fst es) \<Longrightarrow> sorted_wrt (<) (map fst (put_entry i c es))"
proof (induction i c es rule: put_entry.induct)
  case (2 i c j d es)
  have below: "\<forall>k \<in> fst ` set es. j < k" using 2(2) by auto
  show ?case
  proof (cases "j < i")
    case True
    have "\<forall>k \<in> fst ` set (put_entry i c es). j < k" using below True by (simp add: set_put_entry)
    then have "\<forall>x\<in>set (put_entry i c es). j < fst x" by simp
    with 2 True show ?thesis by simp
  qed (use 2(2) below in auto)
qed simp

lemma put_entry_ids:
  assumes "sorted_wrt (<) (map fst es)" "i \<in> fst ` set es"
  shows "map fst (put_entry i c es) = map fst es"
  using assms by (induction i c es rule: put_entry.induct) fastforce+

lemma set_context_fields [simp]:
  "next_id (set_context s i c) = next_id s" "CONTEXT_ID (set_context s i c) = CONTEXT_ID s"
  "this_cpu (set_context s i c) = this_cpu s" "now (set_context s i c) = now s"
  "start_time (set_context s i c) = start_time s" "pit_ticks (set_context s i c) = pit_ticks s"
  "tss_stack (set_context s i c) = tss_stack s"
  by (simp_all add: set_context_def)

lemma sorted_set_context [simp]: "sorted_wrt (<) (ids s) \<Longrightarrow> sorted_wrt (<) (ids (set_context s i c))"
  by (simp add: ids_def set_context_def sorted_put_entry)

lemma get_ids: "get s i \<noteq> None \<longleftrightarrow> i \<in> set (ids s)"
  by (simp add: get_def ids_def map_of_eq_None_iff)

lemma get_in_ids: "get s i = Some c \<Longrightarrow> i \<in> set (ids s)"
  using get_ids [of s i] by simp

lemma ids_set_context [simp]:
  "sorted_wrt (<) (ids s) \<Longrightarrow> i \<in> set (ids s) \<Longrightarrow> ids (set_context s i c) = ids s"
  by (simp add: ids_def set_context_def put_entry_ids)

lemma get_update_fields [simp]:
  "get (s\<lparr>next_id := n\<rparr>) i = get s i" "get (s\<lparr>CONTEXT_ID := n\<rparr>) i = get s i" "get (s\<lparr>now := t\<rparr>) i = get s i"
  "get (s\<lparr>pit_ticks := n\<rparr>) i = get s i" "get (s\<lparr>tss_stack := n\<rparr>) i = get s i"
  by (simp_all add: get_def)

lemma ids_update_fields [simp]:
  "ids (s\<lparr>next_id := n\<rparr>) = ids s" "ids (s\<lparr>CONTEXT_ID := n\<rparr>) = ids s" "ids (s\<lparr>now := t\<rparr>) = ids s"
  "ids (s\<lparr>pit_ticks := n\<rparr>) = ids s" "ids (s\<lparr>tss_stack := n\<rparr>) = ids s"
  by (simp_all add: ids_def)

subsection \<open>New numbers\<close>

lemma free_id_not_used: "free_id es i \<notin> fst ` set es"
  by (induction es i rule: free_id.induct) (subst free_id.simps, simp)

lemma free_id_ge: "i \<le> free_id es i"
proof (induction es i rule: free_id.induct)
  case (1 es i)
  then show ?case by (subst free_id.simps) (cases "i \<in> fst ` set es", simp_all)
qed

lemma free_id_least: "i \<le> j \<Longrightarrow> j < free_id es i \<Longrightarrow> j \<in> fst ` set es"
proof (induction es i rule: free_id.induct)
  case (1 es i)
  show ?case
  proof (cases "i \<in> fst ` set es")
    case True
    then have "free_id es i = free_id es (Suc i)" by (subst free_id.simps) simp
    with 1(1) [OF True] 1(2,3) True show ?thesis by (cases "j = i") simp_all
  next
    case False
    then have "free_id es i = i" by (subst free_id.simps) simp
    with 1(2,3) show ?thesis by simp
  qed
qed

lemma insert_context_Inr:
  assumes "insert_context s c = (s', Inr i)" "1 \<le> next_id s"
  shows "get s i = None" "1 \<le> i" "i < CONTEXT_MAX_CONTEXTS"
    "s' = set_context (s\<lparr>next_id := i + 1\<rparr>) i (c\<lparr>cid := i\<rparr>)"
proof -
  define n where "n = (if next_id s \<ge> CONTEXT_MAX_CONTEXTS then 1 else next_id s)"
  have i: "i = free_id (entries s) n" "i < CONTEXT_MAX_CONTEXTS"
    and s': "s' = set_context (s\<lparr>next_id := i + 1\<rparr>) i (c\<lparr>cid := i\<rparr>)"
    using assms(1) by (auto simp: insert_context_def Let_def n_def split: if_splits)
  have "i \<notin> set (ids s)" using free_id_not_used [of "entries s" n] by (simp add: i(1) ids_def)
  then show "get s i = None" using get_ids [of s i] by auto
  have "1 \<le> n" using assms(2) by (simp add: n_def)
  then show "1 \<le> i" using free_id_ge [of n "entries s"] by (simp add: i(1))
  show "i < CONTEXT_MAX_CONTEXTS" by (rule i(2))
  show "s' = set_context (s\<lparr>next_id := i + 1\<rparr>) i (c\<lparr>cid := i\<rparr>)" by (rule s')
qed

lemma insert_context_Inl:
  assumes "insert_context s c = (s', Inl e)"
  shows "\<exists>n. s' = s\<lparr>next_id := n\<rparr> \<and> CONTEXT_MAX_CONTEXTS \<le> n"
  using assms by (auto simp: insert_context_def Let_def split: if_splits)

subsection \<open>Updates\<close>

lemma update_fields [simp]:
  "cid (update_context s c) = cid c" "ret_link (update_context s c) = ret_link c" "kstack (update_context s c) = kstack c"
  "args (update_context s c) = args c" "func (update_context s c) = func c" "result (update_context s c) = result c"
  "cpu_id (update_context s c) = (if cpu_id c = None then Some (this_cpu s) else cpu_id c)"
  by (simp_all add: update_context_def unblock_context_def Let_def split: option.splits)

lemma update_status:
  "cstatus (update_context s c) = cstatus c \<or> cstatus c = Blocked \<and> cstatus (update_context s c) = Runnable"
  by (simp add: update_context_def unblock_context_def Let_def split: option.splits)

lemma update_not_blocked [simp]: "cstatus c \<noteq> Blocked \<Longrightarrow> cstatus (update_context s c) = cstatus c"
  using update_status [of s c] by auto

lemma map_of_map_entries: "map_of (map (\<lambda>(i, c). (i, f c)) es) i = map_option f (map_of es i)"
  by (induction es) auto

lemma get_update_all [simp]: "get (update_all s) i = map_option (update_context s) (get s i)"
  by (simp add: get_def update_all_def map_of_map_entries)

lemma update_all_fields [simp]:
  "ids (update_all s) = ids s" "next_id (update_all s) = next_id s" "CONTEXT_ID (update_all s) = CONTEXT_ID s"
  "this_cpu (update_all s) = this_cpu s" "now (update_all s) = now s" "pit_ticks (update_all s) = pit_ticks s"
  "tss_stack (update_all s) = tss_stack s"
  by (simp_all add: update_all_def ids_def case_prod_beta)

lemma runnable_update_all [simp]: "runnable (update_all s) = runnable s"
  by (rule ext) (simp add: runnable_def)

lemma runnable_pit_ticks [simp]: "runnable (s\<lparr>pit_ticks := n\<rparr>) = runnable s"
  by (rule ext) (simp add: runnable_def)

lemma update_pit_ticks [simp]: "update_context (s\<lparr>pit_ticks := n\<rparr>) = update_context s"
  by (rule ext) (simp add: update_context_def Let_def split: option.split)

subsection \<open>The choice of the next context\<close>

lemma first_context_Some:
  assumes sorted: "sorted_wrt (<) (ids s)" and first: "first_context P s = Some i"
  shows "(\<exists>c. get s i = Some c \<and> P i c) \<and> (\<forall>j d. get s j = Some d \<and> P j d \<longrightarrow> i \<le> j)"
proof -
  obtain c where "find (\<lambda>(i, c). P i c) (entries s) = Some (i, c)"
    using first by (auto simp: first_context_def)
  then obtain k where k: "k < length (entries s)" "entries s ! k = (i, c)" "P i c"
    and before: "\<And>l. l < k \<Longrightarrow> \<not> (case entries s ! l of (i, c) \<Rightarrow> P i c)"
    by (auto simp: find_Some_iff)
  have dist: "distinct (map fst (entries s))"
    using sorted by (simp add: ids_def strict_sorted_iff)
  have "(i, c) \<in> set (entries s)" using k(1,2) by (metis nth_mem)
  then have "get s i = Some c" using dist by (simp add: get_def)
  moreover have "i \<le> j" if j: "get s j = Some d" "P j d" for j d
  proof -
    have "(j, d) \<in> set (entries s)" using j(1) by (simp add: get_def map_of_SomeD)
    then obtain l where l: "l < length (entries s)" "entries s ! l = (j, d)" by (auto simp: in_set_conv_nth)
    have "k \<le> l" using before [of l] j(2) l(2) by (cases "k \<le> l") simp_all
    then show ?thesis
      using sorted_wrt_nth_less [OF sorted, of k l] l k(1,2) by (cases "k = l") (simp_all add: ids_def)
  qed
  ultimately show ?thesis using k(3) by auto
qed

lemma first_context_None:
  assumes "first_context P s = None" "get s i = Some c"
  shows "\<not> P i c"
  using assms map_of_SomeD [of "entries s" i c]
  by (auto simp: first_context_def find_None_iff get_def)

text \<open>How far a number is from another one, upwards and around.\<close>

definition dist :: "usize \<Rightarrow> usize \<Rightarrow> nat" where
  "dist a b = (if a < b then b - a else CONTEXT_MAX_CONTEXTS + b - a)"

definition ready :: "kernel \<Rightarrow> usize set" where
  "ready s = {i. i \<noteq> CONTEXT_ID s \<and> (\<exists>c. get s i = Some c \<and> runnable s (update_context s c))}"

lemma next_context_Some:
  assumes ok: "ids_ok s" and cur: "get s (CONTEXT_ID s) \<noteq> None"
    and i: "next_context (update_all s) (CONTEXT_ID s) = Some i"
  shows "i \<in> ready s" "\<And>j. j \<in> ready s \<Longrightarrow> dist (CONTEXT_ID s) i \<le> dist (CONTEXT_ID s) j"
proof -
  let ?m = "CONTEXT_ID s" and ?t = "update_all s"
  have sorted: "sorted_wrt (<) (ids ?t)" using ok by (simp add: ids_ok_def)
  have le: "\<And>j c. get s j = Some c \<Longrightarrow> j < CONTEXT_MAX_CONTEXTS"
    using ok by (auto simp: ids_ok_def context_ok_def)
  have m: "?m < CONTEXT_MAX_CONTEXTS" using cur le by blast
  consider (up) "first_context (\<lambda>j c. j > ?m \<and> runnable s c) ?t = Some i"
    | (down) "first_context (\<lambda>j c. j > ?m \<and> runnable s c) ?t = None"
        "first_context (\<lambda>j c. j < ?m \<and> runnable s c) ?t = Some i"
    using i by (auto simp: next_context_def split: option.splits)
  then have "i \<in> ready s \<and> (\<forall>j. j \<in> ready s \<longrightarrow> dist ?m i \<le> dist ?m j)"
  proof cases
    case up
    note first = first_context_Some [OF sorted up]
    have "?m < i" "i \<in> ready s" using first by (auto simp: ready_def)
    moreover have "dist ?m i \<le> dist ?m j" if "j \<in> ready s" for j
    proof -
      have "i < CONTEXT_MAX_CONTEXTS" using first le by auto
      moreover have "?m < j \<Longrightarrow> i \<le> j" using first that by (auto simp: ready_def)
      ultimately show ?thesis using \<open>?m < i\<close> m by (auto simp: dist_def)
    qed
    ultimately show ?thesis by blast
  next
    case down
    note first = first_context_Some [OF sorted down(2)]
    have "i < ?m" "i \<in> ready s" using first by (auto simp: ready_def)
    moreover have "dist ?m i \<le> dist ?m j" if j: "j \<in> ready s" for j
    proof -
      obtain c where c: "get s j = Some c" "runnable s (update_context s c)" "j \<noteq> ?m"
        using j by (auto simp: ready_def)
      have "\<not> (j > ?m \<and> runnable s (update_context s c))"
        by (rule first_context_None [OF down(1)]) (simp add: c(1))
      then have "j < ?m" using c(2,3) by simp
      then have "i \<le> j" using first c(1,2) by auto
      then show ?thesis using \<open>i < ?m\<close> \<open>j < ?m\<close> by (simp add: dist_def)
    qed
    ultimately show ?thesis by blast
  qed
  then show "i \<in> ready s" "\<And>j. j \<in> ready s \<Longrightarrow> dist ?m i \<le> dist ?m j" by blast+
qed

lemma next_context_None:
  assumes "next_context (update_all s) (CONTEXT_ID s) = None"
  shows "ready s = {}"
proof -
  let ?m = "CONTEXT_ID s" and ?t = "update_all s"
  have none: "first_context (\<lambda>j c. j > ?m \<and> runnable s c) ?t = None"
      "first_context (\<lambda>j c. j < ?m \<and> runnable s c) ?t = None"
    using assms by (auto simp: next_context_def split: option.splits)
  have "j = ?m" if "get s j = Some c" "runnable s (update_context s c)" for j c
    using first_context_None [OF none(1), of j "update_context s c"] first_context_None [OF none(2), of j "update_context s c"] that
    by simp
  then show ?thesis by (auto simp: ready_def)
qed

lemma set_tss_mapped: "mapped c \<Longrightarrow> \<exists>a. set_tss s c = Some (s\<lparr>tss_stack := a\<rparr>)"
  by (auto simp: set_tss_def mapped_def split: option.splits intro: exI [of _ "tss_stack s"])

end
