(* ===== verification/Contexts_Step.thy ===== *)
theory Contexts_Step
  imports Contexts_Inv
begin

text \<open>
  Every operation on the contexts keeps the invariant of \<open>Contexts_Inv\<close>, and what a switch, a fused call
  and a return do to the contexts.  The steps of the kernel are an inductive relation; the invariant holds
  in every state that it reaches.
\<close>

subsection \<open>Rules for the invariant\<close>

lemma ids_ok_mono:
  assumes "ids_ok s" "sorted_wrt (<) (ids s')" "1 \<le> next_id s'" "this_cpu s' = this_cpu s"
    and "\<And>i c'. get s' i = Some c' \<Longrightarrow> \<exists>c. get s i = Some c \<and> cid c' = cid c \<and> kstack c' = kstack c \<and>
           (cpu_id c' = cpu_id c \<or> cpu_id c' = Some (this_cpu s))"
  shows "ids_ok s'"
  unfolding ids_ok_def
proof (intro conjI allI impI)
  fix i c' assume "get s' i = Some c'"
  then obtain c where "get s i = Some c" "cid c' = cid c" "kstack c' = kstack c"
      "cpu_id c' = cpu_id c \<or> cpu_id c' = Some (this_cpu s)"
    using assms(5) by blast
  moreover from this(1) have "context_ok s i c" using assms(1) by (simp add: ids_ok_def)
  ultimately show "context_ok s' i c'" using assms(4) by (auto simp: context_ok_def mapped_def)
qed (use assms in simp_all)

lemma callers_ok_mono:
  assumes "callers_ok s" "\<And>p i. calls s' p i \<Longrightarrow> calls s p i"
    and "\<And>p i. calls s' p i \<Longrightarrow> p \<noteq> CONTEXT_ID s \<Longrightarrow> running s p \<Longrightarrow> p \<noteq> CONTEXT_ID s' \<and> running s' p"
  shows "callers_ok s'"
  using assms unfolding callers_ok_def by blast

lemma ids_okD: "ids_ok s \<Longrightarrow> get s i = Some c \<Longrightarrow> context_ok s i c"
  by (simp add: ids_ok_def)

lemma cid_get: "ids_ok s \<Longrightarrow> get s i = Some c \<Longrightarrow> cid c = i"
  using ids_okD by (auto simp: context_ok_def)

lemma mapped_get: "ids_ok s \<Longrightarrow> get s i = Some c \<Longrightarrow> mapped c"
  using ids_okD by (auto simp: context_ok_def)

lemma kernel_okE:
  assumes "kernel_ok s"
  obtains c where "ids_ok s" "callers_ok s" "get s (CONTEXT_ID s) = Some c" "current s = Some c"
    "cstatus c = Running" "cid c = CONTEXT_ID s" "mapped c"
  using assms cid_get mapped_get by (auto simp: kernel_ok_def running_def current_def)

subsection \<open>Switching\<close>

text \<open>The state after a switch to \<open>i\<close>.\<close>

definition switched_to :: "kernel \<Rightarrow> usize \<Rightarrow> kernel \<Rightarrow> bool" where
  "switched_to s i s' \<longleftrightarrow> CONTEXT_ID s' = i \<and> ids s' = ids s \<and> next_id s' = next_id s \<and>
     this_cpu s' = this_cpu s \<and> now s' = now s \<and>
     (\<forall>j. get s' j = map_option (\<lambda>c. if j = i then (update_context s c)\<lparr>cstatus := Running\<rparr>
        else if j = CONTEXT_ID s then stop_running (update_context s c) else update_context s c) (get s j))"

lemma stop_running_fields [simp]:
  "cid (stop_running c) = cid c" "ret_link (stop_running c) = ret_link c" "kstack (stop_running c) = kstack c"
  "cpu_id (stop_running c) = cpu_id c"
  by (simp_all add: stop_running_def)

lemma next_context_ticks [simp]:
  "next_context (update_all (s\<lparr>pit_ticks := n\<rparr>)) m = next_context (update_all s) m"
proof -
  have "entries (update_all (s\<lparr>pit_ticks := n\<rparr>)) = entries (update_all s)" by (simp add: update_all_def)
  then have "first_context P (update_all (s\<lparr>pit_ticks := n\<rparr>)) = first_context P (update_all s)" for P
    by (simp add: first_context_def)
  then show ?thesis by (simp add: next_context_def split: option.split)
qed

lemma switch_none:
  assumes "current s \<noteq> None" "ids_ok s" "next_context (update_all s) (CONTEXT_ID s) = None"
  shows "switch s = Some (update_all (s\<lparr>pit_ticks := 0\<rparr>), None)"
proof -
  obtain d where d: "get s (CONTEXT_ID s) = Some d" using assms(1) by (auto simp: current_def)
  show ?thesis using d cid_get [OF assms(2) d] assms(3) by (simp add: switch_def current_def)
qed

lemma switch_some:
  assumes cur: "current s \<noteq> None" and ok: "ids_ok s" and i: "next_context (update_all s) (CONTEXT_ID s) = Some i"
    and c: "get s i = Some c"
  shows "\<exists>s'. switch s = Some (s', Some (switch_machine (update_context s c))) \<and> switched_to s i s'"
proof -
  obtain d where d: "get s (CONTEXT_ID s) = Some d" using cur by (auto simp: current_def)
  let ?t = "update_all (s\<lparr>pit_ticks := 0\<rparr>)"
  let ?u = "set_context (set_context ?t (CONTEXT_ID s) (stop_running (update_context s d))) i ((update_context s c)\<lparr>cstatus := Running\<rparr>)"
  have "mapped (update_context s c)" using mapped_get [OF ok c] by (simp add: mapped_def)
  then obtain a where a: "set_tss ?u (update_context s c) = Some (?u\<lparr>tss_stack := a\<rparr>)" using set_tss_mapped by blast
  have sw: "switch s = Some (?u\<lparr>tss_stack := a, CONTEXT_ID := i\<rparr>, Some (switch_machine (update_context s c)))"
    using d c i a cid_get [OF ok d] cid_get [OF ok c] by (simp add: switch_def current_def)
  have sorted: "sorted_wrt (<) (ids s)" using ok by (simp add: ids_ok_def)
  have "switched_to s i (?u\<lparr>tss_stack := a, CONTEXT_ID := i\<rparr>)"
    using sorted get_in_ids [OF d] get_in_ids [OF c] c d by (simp add: switched_to_def)
  with sw show ?thesis by blast
qed

lemma switch_cases:
  assumes cur: "current s \<noteq> None" and ok: "ids_ok s"
  obtains (idle) "ready s = {}" "switch s = Some (update_all (s\<lparr>pit_ticks := 0\<rparr>), None)"
    | (other) i c s' where "i \<in> ready s" "\<And>j. j \<in> ready s \<Longrightarrow> dist (CONTEXT_ID s) i \<le> dist (CONTEXT_ID s) j"
        "get s i = Some c" "switch s = Some (s', Some (switch_machine (update_context s c)))" "switched_to s i s'"
proof (cases "next_context (update_all s) (CONTEXT_ID s)")
  case None
  then show thesis using idle next_context_None [OF None] switch_none [OF assms None] by blast
next
  case (Some i)
  have m: "get s (CONTEXT_ID s) \<noteq> None" using cur by (simp add: current_def)
  note n = next_context_Some [OF ok m Some]
  obtain c where c: "get s i = Some c" using n(1) by (auto simp: ready_def)
  obtain s' where "switch s = Some (s', Some (switch_machine (update_context s c)))" "switched_to s i s'"
    using switch_some [OF cur ok Some c] by blast
  then show thesis using other [OF n(1) n(2) c] by blast
qed

lemma running_update_all: "running s p \<Longrightarrow> running (update_all (s\<lparr>pit_ticks := 0\<rparr>)) p"
  by (auto simp: running_def)

lemma idle_ok:
  assumes "ids_ok s" "callers_ok s"
  shows "ids_ok (update_all (s\<lparr>pit_ticks := 0\<rparr>))" "callers_ok (update_all (s\<lparr>pit_ticks := 0\<rparr>))"
proof -
  show "ids_ok (update_all (s\<lparr>pit_ticks := 0\<rparr>))"
    by (rule ids_ok_mono [OF assms(1)]) (use assms(1) in \<open>auto simp: ids_ok_def\<close>)
  show "callers_ok (update_all (s\<lparr>pit_ticks := 0\<rparr>))"
    by (rule callers_ok_mono [OF assms(2)]) (auto simp: calls_def running_update_all)
qed

lemma switched_calls: "switched_to s i s' \<Longrightarrow> calls s' p j \<longleftrightarrow> calls s p j"
  by (cases "get s j") (auto simp: switched_to_def calls_def)

lemma switched_ok:
  assumes "ids_ok s" "callers_ok s" "i \<in> ready s" "switched_to s i s'"
  shows "kernel_ok s'"
proof -
  obtain c where c: "get s i = Some c" "runnable s (update_context s c)" "i \<noteq> CONTEXT_ID s"
    using assms(3) by (auto simp: ready_def)
  note to = assms(4) [unfolded switched_to_def]
  have "ids_ok s'"
    by (rule ids_ok_mono [OF assms(1)]) (use assms(1) to in \<open>auto simp: ids_ok_def split: if_splits\<close>)
  moreover have "callers_ok s'"
  proof (rule callers_ok_mono [OF assms(2)])
    fix p j assume p: "calls s' p j" "p \<noteq> CONTEXT_ID s" "running s p"
    then obtain d where d: "get s p = Some d" "cstatus d = Running" by (auto simp: running_def)
    then have "p \<noteq> i" using c by (auto simp: runnable_def)
    then show "p \<noteq> CONTEXT_ID s' \<and> running s' p" using to d p(2) by (simp add: running_def)
  qed (simp add: switched_calls [OF assms(4)])
  moreover have "running s' (CONTEXT_ID s')" using to c(1) by (simp add: running_def)
  ultimately show ?thesis by (simp add: kernel_ok_def)
qed

lemma switch_ok:
  assumes "kernel_ok s"
  shows "\<exists>s' m. switch s = Some (s', m) \<and> kernel_ok s'"
proof -
  obtain c where k: "ids_ok s" "callers_ok s" "current s = Some c" "running s (CONTEXT_ID s)"
    using assms by (auto simp: kernel_ok_def running_def current_def)
  have cur: "current s \<noteq> None" using k(3) by simp
  show ?thesis
  proof (cases rule: switch_cases [OF cur k(1)])
    case 1
    then show ?thesis using idle_ok [OF k(1,2)] running_update_all [OF k(4)] by (simp add: kernel_ok_def)
  next
    case (2 i c s')
    then show ?thesis using switched_ok [OF k(1,2) 2(1,5)] by blast
  qed
qed

lemma switch_keeps: "kernel_ok s \<Longrightarrow> switch s = Some (s', m) \<Longrightarrow> kernel_ok s'"
  using switch_ok [of s] by auto

subsection \<open>New contexts\<close>

lemma insert_ids_ok:
  assumes ok: "ids_ok s" and ins: "insert_context s c = (s', Inr i)" and m: "mapped c"
    and cpu: "cpu_id c = None \<or> cpu_id c = Some (this_cpu s)"
  shows "ids_ok s'"
proof -
  have n: "1 \<le> next_id s" using ok by (simp add: ids_ok_def)
  note i = insert_context_Inr [OF ins n]
  show ?thesis
    using ok m cpu i(2,3)
    by (auto simp: ids_ok_def i(4) context_ok_def mapped_def split: if_splits)
qed

lemma insert_callers_ok:
  assumes ok: "callers_ok s" and n: "1 \<le> next_id s" and ins: "insert_context s c = (s', Inr i)"
    and link: "ret_link c = None" and cur: "get s (CONTEXT_ID s) \<noteq> None"
  shows "callers_ok s'"
proof (rule callers_ok_mono [OF ok])
  note i = insert_context_Inr [OF ins n]
  show "calls s' p j \<Longrightarrow> calls s p j" for p j
    using link by (auto simp: i(4) calls_def split: if_splits)
  show "p \<noteq> CONTEXT_ID s' \<and> running s' p" if "p \<noteq> CONTEXT_ID s" "running s p" for p
    using that i(1) by (auto simp: i(4) running_def)
qed

lemma spawned_facts:
  "spawned c \<Longrightarrow> mapped c \<and> ret_link c = None \<and> cpu_id c = None \<and> cstatus c = Blocked"
  by (auto simp: spawned_def mapped_def)

lemma next_id_ok: "kernel_ok s \<Longrightarrow> 1 \<le> n \<Longrightarrow> kernel_ok (s\<lparr>next_id := n\<rparr>)"
  by (simp add: kernel_ok_def ids_ok_def callers_ok_def context_ok_def calls_def running_def)

lemma insert_full_ok:
  assumes "kernel_ok s" "insert_context s c = (s', Inl e)"
  shows "kernel_ok s'"
proof -
  obtain n where n: "s' = s\<lparr>next_id := n\<rparr>" "CONTEXT_MAX_CONTEXTS \<le> n"
    using insert_context_Inl [OF assms(2)] by blast
  have "1 \<le> n" using n(2) by (simp add: CONTEXT_MAX_CONTEXTS_def)
  then show ?thesis using next_id_ok [OF assms(1)] n(1) by simp
qed

lemma cast_ok:
  assumes ok: "kernel_ok s" and c: "spawned c" and cast: "cast_inner s c f = (s', r)"
  shows "kernel_ok s'"
proof (cases r)
  case (Inl e)
  then show ?thesis using insert_full_ok [OF ok] cast by (simp add: cast_inner_def)
next
  case (Inr i)
  let ?c = "c\<lparr>func := f, cstatus := New\<rparr>"
  have ins: "insert_context s ?c = (s', Inr i)" using cast Inr by (simp add: cast_inner_def)
  have n: "1 \<le> next_id s" and ids: "ids_ok s" and callers: "callers_ok s" and run: "running s (CONTEXT_ID s)"
    using ok by (auto simp: kernel_ok_def ids_ok_def)
  have cur: "get s (CONTEXT_ID s) \<noteq> None" using run by (auto simp: running_def)
  note sp = spawned_facts [OF c]
  note i = insert_context_Inr [OF ins n]
  have "ids_ok s'" by (rule insert_ids_ok [OF ids ins]) (use sp in \<open>simp_all add: mapped_def\<close>)
  moreover have "callers_ok s'" by (rule insert_callers_ok [OF callers n ins _ cur]) (use sp in simp)
  moreover have "running s' (CONTEXT_ID s')" using run i(1) by (auto simp: i(4) running_def)
  ultimately show ?thesis by (simp add: kernel_ok_def)
qed

subsection \<open>Fused calls\<close>

text \<open>The state after a fused call made the context \<open>i\<close>.\<close>

definition callee :: "kernel \<Rightarrow> kcontext \<Rightarrow> usize \<Rightarrow> usize \<Rightarrow> kcontext" where
  "callee s c f i = c\<lparr>func := f, ret_link := Some (CONTEXT_ID s), cpu_id := cpu_id (the (current s)), cid := i,
     cstatus := Running\<rparr>"

definition fused :: "kernel \<Rightarrow> kcontext \<Rightarrow> usize \<Rightarrow> usize \<Rightarrow> kernel \<Rightarrow> bool" where
  "fused s c f i s' \<longleftrightarrow> CONTEXT_ID s' = i \<and> get s i = None \<and> this_cpu s' = this_cpu s \<and> now s' = now s \<and>
     ids_ok s' \<and> (\<forall>j. get s' j = (if j = i then Some (callee s c f i) else get s j))"

lemma running_again [simp]: "cstatus c = Running \<Longrightarrow> c\<lparr>cstatus := Running\<rparr> = c"
  by (cases c) simp

lemma fuse_full:
  assumes ok: "kernel_ok s" and ins: "snd (insert_context s (c\<lparr>func := f, ret_link := Some (CONTEXT_ID s),
      cpu_id := cpu_id (the (current s))\<rparr>)) = Inl e"
  shows "\<exists>s'. fuse_inner s c f = Some (s', Inl e) \<and> kernel_ok s'"
proof -
  obtain cur where cur: "current s = Some cur" using ok by (rule kernel_okE)
  let ?c = "c\<lparr>func := f, ret_link := Some (CONTEXT_ID s), cpu_id := cpu_id cur\<rparr>"
  obtain s' where s': "insert_context s ?c = (s', Inl e)"
    using ins cur by (cases "insert_context s ?c") simp
  then have "fuse_inner s c f = Some (s', Inl e)" using cur by (simp add: fuse_inner_def)
  then show ?thesis using insert_full_ok [OF ok s'] by blast
qed

lemma fuse_new:
  assumes ok: "kernel_ok s" and c: "spawned c" and ins: "snd (insert_context s (c\<lparr>func := f,
      ret_link := Some (CONTEXT_ID s), cpu_id := cpu_id (the (current s))\<rparr>)) = Inr i"
  shows "\<exists>s'. fuse_inner s c f = Some (s', Inr (i, Switch_User i f (args_address c))) \<and> fused s c f i s'"
proof -
  obtain cur where k: "ids_ok s" "get s (CONTEXT_ID s) = Some cur" "current s = Some cur" "cstatus cur = Running"
    using ok by (rule kernel_okE)
  let ?c = "c\<lparr>func := f, ret_link := Some (CONTEXT_ID s), cpu_id := cpu_id cur\<rparr>"
  obtain t where t: "insert_context s ?c = (t, Inr i)"
    using ins k(3) by (cases "insert_context s ?c") simp
  have n: "1 \<le> next_id s" using k(1) by (simp add: ids_ok_def)
  note i = insert_context_Inr [OF t n]
  have "context_ok s (CONTEXT_ID s) cur" by (rule ids_okD [OF k(1,2)])
  then have ids: "ids_ok t"
    by (intro insert_ids_ok [OF k(1) t]) (use spawned_facts [OF c] in \<open>auto simp: mapped_def context_ok_def\<close>)
  have ne: "CONTEXT_ID s \<noteq> i" using i(1) k(2) by auto
  let ?u = "(set_context t i (callee s c f i))\<lparr>pit_ticks := 0, CONTEXT_ID := i\<rparr>"
  have callee: "(?c\<lparr>cid := i, cstatus := Running\<rparr>) = callee s c f i" using k(3) by (simp add: callee_def)
  have "mapped (?c\<lparr>cid := i\<rparr>)" using spawned_facts [OF c] by (simp add: mapped_def)
  then obtain a where a: "set_tss ?u (?c\<lparr>cid := i\<rparr>) = Some (?u\<lparr>tss_stack := a\<rparr>)" using set_tss_mapped by blast
  let ?s = "set_context (?u\<lparr>tss_stack := a\<rparr>) (CONTEXT_ID s) cur"
  have "get t i = Some (?c\<lparr>cid := i\<rparr>)" by (simp add: i(4))
  then have "fuse_switch t i f = Some (?s, Switch_User i f (args_address c))"
    using a ne k(2,4) callee by (simp add: fuse_switch_def i(4) block_context_def args_address_def)
  then have "fuse_inner s c f = Some (?s, Inr (i, Switch_User i f (args_address c)))"
    using t k(3) by (simp add: fuse_inner_def)
  moreover have "ids_ok ?s"
    by (rule ids_ok_mono [OF ids]) (use ids k(2) ne in \<open>auto simp: ids_ok_def i(4) callee_def k(3) split: if_splits\<close>)
  then have "fused s c f i ?s" using i(1) k(2) ne by (simp add: fused_def i(4))
  ultimately show ?thesis by blast
qed

lemma fused_ok:
  assumes ok: "kernel_ok s" and f: "fused s c f i s'"
  shows "kernel_ok s'"
proof -
  have callers: "callers_ok s" and run: "running s (CONTEXT_ID s)" using ok by (auto simp: kernel_ok_def)
  note get = f [unfolded fused_def]
  have calls: "calls s' p j \<longleftrightarrow> (if j = i then p = CONTEXT_ID s else calls s p j)" for p j
    using get by (auto simp: calls_def callee_def)
  have run': "running s p \<Longrightarrow> p \<noteq> i \<and> running s' p" for p
    using get by (auto simp: running_def)
  have "callers_ok s'"
    unfolding callers_ok_def
  proof (intro allI impI)
    fix p j assume pj: "calls s' p j"
    have "p = CONTEXT_ID s \<and> j = i \<or> p \<noteq> CONTEXT_ID s \<and> j \<noteq> i \<and> calls s p j \<and> running s p"
      using pj callers by (auto simp: calls callers_ok_def split: if_splits)
    moreover have "calls s' p j' \<Longrightarrow> j' = j" for j'
      using calculation callers unfolding calls callers_ok_def by metis
    ultimately show "p \<noteq> CONTEXT_ID s' \<and> running s' p \<and> (\<forall>j'. calls s' p j' \<longrightarrow> j' = j)"
      using run run' get by auto
  qed
  moreover have "running s' (CONTEXT_ID s')" using get by (simp add: running_def callee_def)
  ultimately show ?thesis using get by (simp add: kernel_ok_def)
qed

lemma fuse_ok:
  assumes "kernel_ok s" "spawned c"
  shows "\<exists>s' r. fuse_inner s c f = Some (s', r) \<and> kernel_ok s'"
proof (cases "snd (insert_context s (c\<lparr>func := f, ret_link := Some (CONTEXT_ID s),
    cpu_id := cpu_id (the (current s))\<rparr>))")
  case (Inl e)
  then show ?thesis using fuse_full [OF assms(1)] by blast
next
  case (Inr i)
  then show ?thesis using fuse_new [OF assms Inr] fused_ok [OF assms(1)] by blast
qed

subsection \<open>Returning\<close>

text \<open>The state after the current context \<open>c\<close> returned to its caller \<open>p\<close>.\<close>

definition returned_to :: "kernel \<Rightarrow> usize \<Rightarrow> kernel \<Rightarrow> bool" where
  "returned_to s p s' \<longleftrightarrow> CONTEXT_ID s' = p \<and> ids s' = ids s \<and> next_id s' = next_id s \<and> this_cpu s' = this_cpu s \<and>
     (\<forall>j. get s' j = (if j = CONTEXT_ID s
        then map_option (\<lambda>c. c\<lparr>cstatus := Exited, ret_link := None\<rparr>) (get s j) else get s j))"

lemma exit_to_caller:
  assumes ok: "kernel_ok s" and cur: "current s = Some c" and link: "ret_link c = Some p"
  shows "\<exists>s'. exit s = Some (s', Switched (Switch_Discarding p)) \<and> returned_to s p s'"
proof -
  have c: "get s (CONTEXT_ID s) = Some c" using cur by (simp add: current_def)
  have "calls s p (CONTEXT_ID s)" using c link by (simp add: calls_def)
  then have p: "p \<noteq> CONTEXT_ID s" "running s p" using ok by (auto simp: kernel_ok_def callers_ok_def)
  obtain d where d: "get s p = Some d" "cstatus d = Running" using p(2) by (auto simp: running_def)
  have ids: "ids_ok s" and sorted: "sorted_wrt (<) (ids s)" using ok by (auto simp: kernel_ok_def ids_ok_def)
  let ?e = "c\<lparr>cstatus := Exited, ret_link := None\<rparr>"
  let ?t = "set_context (set_context (set_context s (CONTEXT_ID s) ?e) (CONTEXT_ID s) ?e) p d"
  obtain a where a: "set_tss ?t d = Some (?t\<lparr>tss_stack := a\<rparr>)"
    using set_tss_mapped [OF mapped_get [OF ids d(1)]] by blast
  have "exit s = Some (?t\<lparr>tss_stack := a, CONTEXT_ID := p\<rparr>, Switched (Switch_Discarding p))"
    using cur link p(1) d a cid_get [OF ids d(1)] by (simp add: exit_def fuse_return_def unblock_context_def)
  moreover have "returned_to s p (?t\<lparr>tss_stack := a, CONTEXT_ID := p\<rparr>)"
    using c d(1) p(1) sorted get_in_ids [OF c] get_in_ids [OF d(1)] by (simp add: returned_to_def)
  ultimately show ?thesis by blast
qed

lemma returned_ok:
  assumes ok: "kernel_ok s" and p: "calls s p (CONTEXT_ID s)" and r: "returned_to s p s'"
  shows "kernel_ok s'"
proof -
  have ids: "ids_ok s" and callers: "callers_ok s" using ok by (auto simp: kernel_ok_def)
  note ret = r [unfolded returned_to_def]
  have "ids_ok s'" by (rule ids_ok_mono [OF ids]) (use ids ret in \<open>auto simp: ids_ok_def split: if_splits\<close>)
  moreover have calls: "calls s' q j \<Longrightarrow> calls s q j \<and> j \<noteq> CONTEXT_ID s" for q j
    using ret by (auto simp: calls_def split: if_splits)
  have "callers_ok s'"
  proof (rule callers_ok_mono [OF callers])
    fix q j assume q: "calls s' q j" "q \<noteq> CONTEXT_ID s" "running s q"
    have "q \<noteq> p" using calls [OF q(1)] p callers unfolding callers_ok_def by blast
    then show "q \<noteq> CONTEXT_ID s' \<and> running s' q" using q(2,3) ret by (simp add: running_def)
  qed (use calls in blast)
  moreover have "running s' p"
    using p callers ret unfolding callers_ok_def running_def by (metis (full_types))
  ultimately show ?thesis using ret by (simp add: kernel_ok_def)
qed

lemma exit_ok:
  assumes ok: "kernel_ok s" and ex: "exit s = Some (s', Switched m)"
  shows "kernel_ok s'"
proof -
  obtain c where k: "ids_ok s" "callers_ok s" "get s (CONTEXT_ID s) = Some c" "current s = Some c"
    using ok by (rule kernel_okE)
  show ?thesis
  proof (cases "ret_link c")
    case (Some p)
    obtain t where "exit s = Some (t, Switched (Switch_Discarding p))" "returned_to s p t"
      using exit_to_caller [OF ok k(4) Some] by blast
    then show ?thesis using returned_ok [OF ok] k(3) Some ex by (auto simp: calls_def)
  next
    case None
    let ?t = "set_context s (CONTEXT_ID s) (c\<lparr>cstatus := Exited, ret_link := None\<rparr>)"
    have "ids_ok ?t" by (rule ids_ok_mono [OF k(1)]) (use k(1,3) in \<open>auto simp: ids_ok_def split: if_splits\<close>)
    moreover have "callers_ok ?t"
      by (rule callers_ok_mono [OF k(2)]) (auto simp: calls_def running_def split: if_splits)
    moreover have "\<exists>m'. switch ?t = Some (s', Some m')"
      using ex k(4) None by (auto simp: exit_def Let_def bind_eq_Some_conv split: if_splits)
    moreover have "current ?t \<noteq> None" by (simp add: current_def)
    ultimately show ?thesis using switch_cases [of ?t] switched_ok [of ?t] by (metis option.inject prod.inject option.distinct(1))
  qed
qed

lemma set_same_ok:
  assumes ok: "kernel_ok s" and c: "get s i = Some c"
    and same: "cid c' = cid c" "kstack c' = kstack c" "cpu_id c' = cpu_id c" "ret_link c' = ret_link c"
      "cstatus c = Running \<Longrightarrow> cstatus c' = Running"
  shows "kernel_ok (set_context s i c')"
proof -
  have ids: "ids_ok s" and callers: "callers_ok s" and run: "running s (CONTEXT_ID s)"
    using ok by (auto simp: kernel_ok_def)
  have run': "running s p \<Longrightarrow> running (set_context s i c') p" for p using c same(5) by (auto simp: running_def)
  have "ids_ok (set_context s i c')"
    by (rule ids_ok_mono [OF ids]) (use ids c same in \<open>auto simp: ids_ok_def split: if_splits\<close>)
  moreover have "callers_ok (set_context s i c')"
    by (rule callers_ok_mono [OF callers]) (use c same run' in \<open>auto simp: calls_def split: if_splits\<close>)
  ultimately show ?thesis using run run' by (simp add: kernel_ok_def)
qed

lemma sys_return_to_caller:
  assumes ok: "kernel_ok s" and cur: "current s = Some c" and link: "ret_link c = Some p"
  shows "\<exists>s'. sys_return s v = Some (s', Switched (Switch_Discarding p)) \<and> 
    returned_to (set_context s (CONTEXT_ID s) (c\<lparr>result := Some v\<rparr>)) p s'"
proof -
  let ?t = "set_context s (CONTEXT_ID s) (c\<lparr>result := Some v\<rparr>)"
  have c: "get s (CONTEXT_ID s) = Some c" using cur by (simp add: current_def)
  have "current ?t = Some (c\<lparr>result := Some v\<rparr>)" by (simp add: current_def)
  moreover have "kernel_ok ?t" by (rule set_same_ok [OF ok c]) simp_all
  ultimately show ?thesis using exit_to_caller [of ?t _ p] cur link by (simp add: sys_return_def)
qed

subsection \<open>The steps of the kernel\<close>

text \<open>What the code of the current context, an interrupt or a device may do next.  The last rule is a
  device that unblocks a context.\<close>

inductive kstep :: "kernel \<Rightarrow> kernel \<Rightarrow> bool" where
  Yield: "switch s = Some (s', m) \<Longrightarrow> kstep s s'"
| Timer: "pit s = Some (s', m) \<Longrightarrow> kstep s s'"
| Sleep: "nanosleep s sec nsec = Some (s', r) \<Longrightarrow> kstep s s'"
| Cast: "spawned c \<Longrightarrow> cast_inner s c f = (s', r) \<Longrightarrow> kstep s s'"
| Fuse: "spawned c \<Longrightarrow> fuse_inner s c f = Some (s', r) \<Longrightarrow> kstep s s'"
| Take: "fuse_result s i = Some (s', v) \<Longrightarrow> kstep s s'"
| Return: "sys_return s v = Some (s', Switched m) \<Longrightarrow> kstep s s'"
| Exit: "exit s = Some (s', Switched m) \<Longrightarrow> kstep s s'"
| Sigreturn: "sigreturn s = Some (s', r) \<Longrightarrow> kstep s s'"
| Unblock: "get s i = Some c \<Longrightarrow> kstep s (set_context s i (fst (unblock_context c)))"

definition boot :: "usize \<Rightarrow> time \<Rightarrow> kernel" where
  "boot cpu t = \<lparr> entries = [], next_id = 1, CONTEXT_ID = 0, this_cpu = cpu, start_time = t, now = (0, 0),
     tss_stack = 0, pit_ticks = 0 \<rparr>"

inductive reachable :: "kernel \<Rightarrow> bool" where
  Init: "context_init (boot cpu t) stack = Some s \<Longrightarrow> reachable s"
| Step: "reachable s \<Longrightarrow> kstep s s' \<Longrightarrow> reachable s'"

lemma init_ok:
  assumes "context_init (boot cpu t) stack = Some s"
  shows "kernel_ok s"
proof -
  obtain a len where "stack = Some (a, len)" using assms by (auto simp: context_init_def bind_eq_Some_conv)
  then show ?thesis using assms
    by (auto simp: context_init_def boot_def insert_context_def free_id.simps set_context_def CONTEXT_MAX_CONTEXTS_def
        kernel_ok_def ids_ok_def callers_ok_def calls_def running_def context_ok_def mapped_def context_new_def
        ids_def get_def split: if_splits)
qed

lemma now_ok: "kernel_ok s \<Longrightarrow> kernel_ok (s\<lparr>now := t, pit_ticks := n\<rparr>)"
  by (simp add: kernel_ok_def ids_ok_def callers_ok_def context_ok_def calls_def running_def)

lemma kstep_ok: "kstep s s' \<Longrightarrow> kernel_ok s \<Longrightarrow> kernel_ok s'"
proof (induction rule: kstep.induct)
  case (Yield s s' m)
  then show ?case using switch_keeps [of s s' m] by simp
next
  case (Timer s s' m)
  then obtain t n where "switch (s\<lparr>now := t, pit_ticks := n\<rparr>) = Some (s', m) \<or> s' = s\<lparr>now := t, pit_ticks := n\<rparr>"
    unfolding pit_def Let_def by (metis option.inject prod.inject)
  then show ?case using switch_ok [OF now_ok [OF Timer(2), where t = t and n = n]] now_ok [OF Timer(2), where t = t and n = n] by auto
next
  case (Sleep s sec nsec s' r)
  from Sleep(2) obtain c where c: "get s (CONTEXT_ID s) = Some c" "current s = Some c" "cstatus c = Running"
    by (rule kernel_okE)
  have "kernel_ok (set_context s (CONTEXT_ID s) (c\<lparr>wake := w\<rparr>))" for w
    by (rule set_same_ok [OF Sleep(2) c(1)]) simp_all
  moreover obtain w m where "switch (set_context s (CONTEXT_ID s) (c\<lparr>wake := w\<rparr>)) = Some (s', m)"
    using Sleep(1) c by (auto simp: nanosleep_def Let_def block_context_def bind_eq_Some_conv)
  ultimately show ?case by (rule switch_keeps)
next
  case (Cast c s f s' r)
  then show ?case using cast_ok [of s c f s' r] by simp
next
  case (Fuse c s f s' r)
  then show ?case using fuse_ok [OF Fuse(3,1), of f] by auto
next
  case (Take s i s' v)
  then obtain c where "get s i = Some c" "s' = set_context s i (c\<lparr>result := None\<rparr>)"
    by (auto simp: fuse_result_def bind_eq_Some_conv)
  then show ?case using set_same_ok [OF Take(2)] by simp
next
  case (Return s v s' m)
  from Return(2) obtain c where c: "get s (CONTEXT_ID s) = Some c" "current s = Some c" by (rule kernel_okE)
  have "kernel_ok (set_context s (CONTEXT_ID s) (c\<lparr>result := Some v\<rparr>))"
    by (rule set_same_ok [OF Return(2) c(1)]) simp_all
  then show ?case using Return(1) c exit_ok by (simp add: sys_return_def)
next
  case (Exit s s' m)
  then show ?case using exit_ok [of s s' m] by simp
next
  case (Sigreturn s s' r)
  from Sigreturn(2) obtain c where c: "get s (CONTEXT_ID s) = Some c" "current s = Some c" "cstatus c = Running"
    by (rule kernel_okE)
  have "kernel_ok (set_context s (CONTEXT_ID s) c)" by (rule set_same_ok [OF Sigreturn(2) c(1)]) simp_all
  moreover obtain m where "switch (set_context s (CONTEXT_ID s) c) = Some (s', m)"
    using Sigreturn(1) c by (auto simp: sigreturn_def Let_def block_context_def bind_eq_Some_conv)
  ultimately show ?case by (rule switch_keeps)
next
  case (Unblock s i c)
  have "kernel_ok (set_context s i (fst (unblock_context c)))"
    by (rule set_same_ok [OF Unblock(2,1)]) (auto simp: unblock_context_def)
  then show ?case .
qed

lemma reachable_ok: "reachable s \<Longrightarrow> kernel_ok s"
proof (induction rule: reachable.induct)
  case (Init cpu t stack s)
  then show ?case by (rule init_ok)
next
  case (Step s s')
  then show ?case by (intro kstep_ok [of s s'])
qed

inductive_cases kstep_cases: "kstep s s'"

end
