(* ===== verification/Contexts_Props.thy ===== *)
theory Contexts_Props
  imports Contexts_Step
begin

text \<open>
  The properties of the scheduler and of fused calls: the invariant of every state the kernel reaches,
  round robin and the absence of starvation, the return of a fused call to its caller, and what a sleep
  does.
\<close>

subsection \<open>Starvation\<close>

lemma dist_self: "dist a a = CONTEXT_MAX_CONTEXTS"
  by (simp add: dist_def)

lemma dist_less: "a < CONTEXT_MAX_CONTEXTS \<Longrightarrow> b < CONTEXT_MAX_CONTEXTS \<Longrightarrow> a \<noteq> b \<Longrightarrow> dist a b < CONTEXT_MAX_CONTEXTS"
  by (auto simp: dist_def)

lemma dist_between:
  assumes "a < CONTEXT_MAX_CONTEXTS" "i < CONTEXT_MAX_CONTEXTS" "j < CONTEXT_MAX_CONTEXTS" "p < CONTEXT_MAX_CONTEXTS"
    and "a \<noteq> p" "i \<noteq> p" "a \<noteq> i" "dist a i \<le> dist a p" "dist i j \<le> dist i p"
  shows "dist a j \<le> dist a p"
  using assms by (auto simp: dist_def split: if_splits)

text \<open>The contexts that are met on the way from \<open>a\<close> to \<open>p\<close>.\<close>

definition between :: "usize set \<Rightarrow> usize \<Rightarrow> usize \<Rightarrow> usize set" where
  "between I a p = {j \<in> I. dist a j \<le> dist a p}"

lemma between_shrinks:
  assumes I: "finite I" "\<And>j. j \<in> I \<Longrightarrow> j < CONTEXT_MAX_CONTEXTS" and in_I: "a \<in> I" "i \<in> I" "p \<in> I"
    and ne: "a \<noteq> p" "i \<noteq> p" "a \<noteq> i" and le: "dist a i \<le> dist a p"
  shows "card (between I i p) < card (between I a p)"
proof (rule psubset_card_mono)
  show "finite (between I a p)" using I(1) by (simp add: between_def)
  have "between I i p \<subseteq> between I a p"
    using dist_between [OF I(2) I(2) I(2) I(2), OF in_I(1) in_I(2) _ in_I(3) ne le] by (auto simp: between_def)
  moreover have "i \<in> between I a p" using in_I le by (simp add: between_def)
  moreover have "i \<notin> between I i p"
    using dist_less [OF I(2) I(2), OF in_I(2,3) ne(2)] by (simp add: between_def dist_self)
  ultimately show "between I i p \<subset> between I a p" by blast
qed

lemma cyclic_reach:
  assumes I: "finite I" "\<And>j. j \<in> I \<Longrightarrow> j < CONTEXT_MAX_CONTEXTS" "p \<in> I"
    and cur: "\<And>n. n \<le> N \<Longrightarrow> cur n \<in> I"
    and step: "\<And>n. n < N \<Longrightarrow> cur n \<noteq> p \<Longrightarrow> cur (Suc n) \<noteq> cur n \<and> dist (cur n) (cur (Suc n)) \<le> dist (cur n) p"
  shows "n + card (between I (cur n) p) \<le> N \<Longrightarrow> \<exists>m. n \<le> m \<and> m \<le> n + card (between I (cur n) p) \<and> cur m = p"
proof (induction "card (between I (cur n) p)" arbitrary: n rule: less_induct)
  case less
  show ?case
  proof (cases "cur n = p")
    case False
    have pos: "0 < card (between I (cur n) p)" using I(1,3) by (auto simp: between_def card_gt_0_iff)
    then have n: "n < N" using less(2) by simp
    note st = step [OF n False]
    show ?thesis
    proof (cases "cur (Suc n) = p")
      case True
      then show ?thesis using pos by (intro exI [of _ "Suc n"]) simp
    next
      case ne: False
      have "card (between I (cur (Suc n)) p) < card (between I (cur n) p)"
        by (rule between_shrinks [OF I(1,2)]) (use cur [of n] cur [of "Suc n"] n I(3) False ne st in auto)
      moreover from this have "Suc n + card (between I (cur (Suc n)) p) \<le> N" using less(2) by simp
      ultimately obtain m where "Suc n \<le> m" "m \<le> Suc n + card (between I (cur (Suc n)) p)" "cur m = p"
        using less(1) by blast
      then show ?thesis using \<open>card (between I (cur (Suc n)) p) < card (between I (cur n) p)\<close>
        by (intro exI [of _ m]) simp
    qed
  qed auto
qed

text \<open>The time between two switches: a switch and any steps after which the chosen context is current
  and no context was created.\<close>

definition turn :: "kernel \<Rightarrow> kernel \<Rightarrow> bool" where
  "turn s s' \<longleftrightarrow> (\<exists>u m. switch s = Some (u, m) \<and> kstep\<^sup>*\<^sup>* u s' \<and> ids s' = ids u \<and> CONTEXT_ID s' = CONTEXT_ID u)"

lemma reachable_steps: "kstep\<^sup>*\<^sup>* s s' \<Longrightarrow> reachable s \<Longrightarrow> reachable s'"
  by (induction rule: rtranclp.induct) (auto intro: reachable.Step)

lemma turn_reachable: "turn s s' \<Longrightarrow> reachable s \<Longrightarrow> reachable s'"
  using reachable_steps reachable.Step kstep.Yield unfolding turn_def by blast

lemma turn_ready:
  assumes "turn s s'" "reachable s" "p \<in> ready s"
  shows "CONTEXT_ID s' \<noteq> CONTEXT_ID s \<and> dist (CONTEXT_ID s) (CONTEXT_ID s') \<le> dist (CONTEXT_ID s) p"
    "ids s' = ids s"
proof -
  obtain c where k: "ids_ok s" "current s = Some c" using reachable_ok [OF assms(2)] by (rule kernel_okE)
  have cur: "current s \<noteq> None" using k(2) by simp
  obtain u m where u: "switch s = Some (u, m)" "ids s' = ids u" "CONTEXT_ID s' = CONTEXT_ID u"
    using assms(1) by (auto simp: turn_def)
  have "CONTEXT_ID u \<in> ready s \<and> dist (CONTEXT_ID s) (CONTEXT_ID u) \<le> dist (CONTEXT_ID s) p \<and> ids u = ids s"
  proof (cases rule: switch_cases [OF cur k(1)])
    case 1
    then show ?thesis using assms(3) by simp
  next
    case (2 i c s')
    then show ?thesis using u(1) assms(3) by (simp add: switched_to_def)
  qed
  then show "CONTEXT_ID s' \<noteq> CONTEXT_ID s \<and> dist (CONTEXT_ID s) (CONTEXT_ID s') \<le> dist (CONTEXT_ID s) p"
    "ids s' = ids s"
    using u(2,3) by (auto simp: ready_def)
qed

lemma turn_ids:
  assumes "turn s s'" "reachable s"
  shows "ids s' = ids s"
proof -
  obtain c where k: "ids_ok s" "current s = Some c" using reachable_ok [OF assms(2)] by (rule kernel_okE)
  have cur: "current s \<noteq> None" using k(2) by simp
  obtain u m where u: "switch s = Some (u, m)" "ids s' = ids u" using assms(1) by (auto simp: turn_def)
  then show ?thesis by (cases rule: switch_cases [OF cur k(1)]) (auto simp: switched_to_def)
qed

lemma current_in_ids: "reachable s \<Longrightarrow> CONTEXT_ID s \<in> set (ids s)"
  using reachable_ok get_in_ids by (auto simp: kernel_ok_def running_def)

lemma ids_bound: "reachable s \<Longrightarrow> i \<in> set (ids s) \<Longrightarrow> i < CONTEXT_MAX_CONTEXTS"
  using reachable_ok [of s] get_ids [of s i] by (auto simp: kernel_ok_def ids_ok_def context_ok_def)

lemma ids_distinct: "reachable s \<Longrightarrow> distinct (ids s)"
  using reachable_ok [of s] by (simp add: kernel_ok_def ids_ok_def strict_sorted_iff)

lemma starvation_free:
  assumes start: "reachable (t 0)" and turns: "\<forall>n < N. turn (t n) (t (Suc n))"
    and ready: "\<forall>n < N. CONTEXT_ID (t n) \<noteq> p \<longrightarrow> p \<in> ready (t n)" and N: "N = length (ids (t 0))"
  shows "\<exists>n < N. CONTEXT_ID (t n) = p"
proof (cases "CONTEXT_ID (t 0) = p")
  case True
  have "0 < N" using current_in_ids [OF start] N by (auto simp: length_pos_if_in_set)
  then show ?thesis using True by blast
next
  case False
  let ?I = "set (ids (t 0))" and ?cur = "\<lambda>n. CONTEXT_ID (t n)"
  have run: "n \<le> N \<Longrightarrow> reachable (t n) \<and> ids (t n) = ids (t 0)" for n
  proof (induction n)
    case (Suc n)
    then have "turn (t n) (t (Suc n))" "reachable (t n)" "ids (t n) = ids (t 0)" using turns by simp_all
    then show ?case using turn_reachable [of "t n"] turn_ids [of "t n"] by simp
  qed (simp add: start)
  have "0 < N" using current_in_ids [OF start] N by (auto simp: length_pos_if_in_set)
  then have "p \<in> ready (t 0)" using ready False by blast
  then have pI: "p \<in> ?I" using get_in_ids by (auto simp: ready_def)
  let ?B = "between ?I (?cur 0) p"
  have "?cur 0 \<notin> ?B"
    using dist_less [OF ids_bound ids_bound, OF start current_in_ids [OF start] start pI False]
    by (simp add: between_def dist_self)
  then have "?B \<subset> ?I" using current_in_ids [OF start] by (auto simp: between_def)
  then have less: "card ?B < N" using psubset_card_mono [of ?I ?B] distinct_card [OF ids_distinct [OF start]] N by simp
  have "\<exists>m. 0 \<le> m \<and> m \<le> 0 + card ?B \<and> ?cur m = p"
  proof (rule cyclic_reach [where N = N])
    show "\<And>n. n \<le> N \<Longrightarrow> ?cur n \<in> ?I" using run current_in_ids by metis
    show "\<And>n. n < N \<Longrightarrow> ?cur n \<noteq> p \<Longrightarrow> ?cur (Suc n) \<noteq> ?cur n \<and> dist (?cur n) (?cur (Suc n)) \<le> dist (?cur n) p"
      using turns ready run turn_ready(1) less_imp_le by metis
  qed (use pI ids_bound [OF start] less in auto)
  then obtain m where "m \<le> card ?B" "?cur m = p" by auto
  then show ?thesis using less by (intro exI [of _ m]) simp
qed

lemma caller_waits:
  assumes "kernel_ok s" "calls s p i"
  shows "p \<noteq> CONTEXT_ID s \<and> p \<notin> ready s"
proof -
  have "p \<noteq> CONTEXT_ID s" "running s p" using assms by (auto simp: kernel_ok_def callers_ok_def)
  then show ?thesis by (auto simp: running_def ready_def runnable_def)
qed

subsection \<open>A kernel with three contexts\<close>

definition worker :: kcontext where
  "worker = context_new\<lparr>kstack := Some (Some 0x200000, 0x10000), args := Some 0x4000000000\<rparr>"

definition demo0 :: kernel where
  "demo0 = the (context_init (boot 0 (0, 0)) (Some (0x100000, 0x10000)))"

definition demo1 :: kernel where
  "demo1 = fst (cast_inner demo0 worker 0x1000)"

definition demo :: kernel where
  "demo = fst (cast_inner demo1 worker 0x2000)"

lemma spawned_worker: "spawned worker"
  by (simp add: spawned_def worker_def context_new_def)

lemma demo0_eval: "demo0 = \<lparr> entries = [(1, context_new\<lparr>cid := 1, cstatus := Running, cpu_id := Some 0,
      kstack := Some (Some 0x100000, 0x10000)\<rparr>)], next_id = 2, CONTEXT_ID = 1, this_cpu = 0, start_time = (0, 0),
    now = (0, 0), tss_stack = 0x110000, pit_ticks = 0 \<rparr>"
  by (simp add: demo0_def context_init_def boot_def insert_context_def CONTEXT_MAX_CONTEXTS_def free_id.simps
      set_context_def context_new_def)

lemma demo0_init: "context_init (boot 0 (0, 0)) (Some (0x100000, 0x10000)) = Some demo0"
  unfolding demo0_def
  by (simp add: context_init_def boot_def insert_context_def CONTEXT_MAX_CONTEXTS_def free_id.simps
      set_context_def context_new_def)

lemma demo1_eval: "demo1 = demo0\<lparr> entries := entries demo0 @ [(2, worker\<lparr>cid := 2, cstatus := New, func := 0x1000\<rparr>)],
    next_id := 3 \<rparr>"
  by (simp add: demo1_def demo0_eval cast_inner_def insert_context_def CONTEXT_MAX_CONTEXTS_def free_id.simps
      set_context_def)

lemma demo_eval: "demo = demo0\<lparr> entries := entries demo0 @ [(2, worker\<lparr>cid := 2, cstatus := New, func := 0x1000\<rparr>),
    (3, worker\<lparr>cid := 3, cstatus := New, func := 0x2000\<rparr>)], next_id := 4 \<rparr>"
  by (simp add: demo_def demo1_eval demo0_eval cast_inner_def insert_context_def CONTEXT_MAX_CONTEXTS_def free_id.simps
      set_context_def)

lemma demo_reachable: "reachable demo0" "reachable demo1" "reachable demo"
proof -
  show r0: "reachable demo0" by (rule reachable.Init [OF demo0_init])
  have "kstep demo0 demo1" unfolding demo1_def by (rule kstep.Cast [OF spawned_worker prod.collapse [symmetric]])
  then show r1: "reachable demo1" by (rule reachable.Step [OF r0])
  have "kstep demo1 demo" unfolding demo_def by (rule kstep.Cast [OF spawned_worker prod.collapse [symmetric]])
  then show "reachable demo" by (rule reachable.Step [OF r1])
qed

lemmas demo_run = demo_eval demo0_eval switch_def current_def get_def update_all_def update_context_def worker_def
  context_new_def next_context_def first_context_def runnable_def set_context_def set_tss_def switch_machine_def
  args_address_def stop_running_def offsets

lemma demo_switch: "\<exists>s'. switch demo = Some (s', Some (Switch_User 2 0x1000 0x4000000000)) \<and> CONTEXT_ID s' = 2"
  by (simp add: demo_run)

definition after_switch :: "kernel \<Rightarrow> kernel" where
  "after_switch s = fst (the (switch s))"

lemma after_switch:
  assumes "reachable s"
  shows "turn s (after_switch s)" "reachable (after_switch s)"
proof -
  obtain s' m where "switch s = Some (s', m)" using switch_ok [OF reachable_ok [OF assms]] by blast
  then show "turn s (after_switch s)" by (auto simp: turn_def after_switch_def)
  then show "reachable (after_switch s)" using assms by (rule turn_reachable)
qed

lemma demo_turns:
  "3 \<in> ready demo" "3 \<in> ready (after_switch demo)" "CONTEXT_ID (after_switch (after_switch demo)) = 3"
  "length (ids demo) = 3"
  by (simp_all add: demo_run ready_def after_switch_def ids_def)

lemma demo_fuse: "\<exists>s1. fuse_inner demo0 worker 0x3000 = Some (s1, Inr (2, Switch_User 2 0x3000 0x4000000000)) \<and>
    CONTEXT_ID s1 = 2 \<and> calls s1 1 2"
  by (simp add: demo_run fuse_inner_def insert_context_def CONTEXT_MAX_CONTEXTS_def free_id.simps fuse_switch_def
      block_context_def calls_def)

subsection \<open>The properties\<close>



text \<open>C34: a switch is round robin.  When no other context is ready it changes nothing but the clocked
  wake-ups; otherwise it makes current the ready context that comes next in the order of the numbers,
  counted up from the current one and around.  That context runs, the old one becomes runnable if it was
  running, and the others are only woken.\<close>

theorem switch_round_robin:
  assumes "reachable s"
  shows "(ready s = {} \<and> switch s = Some (update_all (s\<lparr>pit_ticks := 0\<rparr>), None)) \<or>
    (\<exists>i c s'. i \<in> ready s \<and> (\<forall>j. j \<in> ready s \<longrightarrow> dist (CONTEXT_ID s) i \<le> dist (CONTEXT_ID s) j) \<and>
       get s i = Some c \<and> switch s = Some (s', Some (switch_machine (update_context s c))) \<and> CONTEXT_ID s' = i \<and>
       (\<forall>j. get s' j = map_option (\<lambda>c. if j = i then (update_context s c)\<lparr>cstatus := Running\<rparr>
          else if j = CONTEXT_ID s then stop_running (update_context s c) else update_context s c) (get s j)))"
proof -
  obtain d where k: "ids_ok s" "current s = Some d" using reachable_ok [OF assms] by (rule kernel_okE)
  have cur: "current s \<noteq> None" using k(2) by simp
  show ?thesis
  proof (cases rule: switch_cases [OF cur k(1)])
    case 1
    then show ?thesis by blast
  next
    case (2 i c s')
    then show ?thesis unfolding switched_to_def by blast
  qed
qed

theorem switch_round_robin_witness:
  "(\<exists>s'. switch demo = Some (s', Some (Switch_User 2 0x1000 0x4000000000)) \<and> CONTEXT_ID s' = 2) \<and>
   (\<exists>i c s'. i \<in> ready demo \<and> get demo i = Some c \<and>
      switch demo = Some (s', Some (switch_machine (update_context demo c))) \<and> CONTEXT_ID s' = i)"
  using switch_round_robin [OF demo_reachable(3)] demo_switch by auto

text \<open>C35: no context starves.  If a context is ready whenever it is not current, and no context is
  created, then it is current after fewer switches than there are contexts.\<close>

theorem no_starvation:
  assumes "reachable (t 0)" and "\<forall>n < N. turn (t n) (t (Suc n))"
    and "\<forall>n < N. CONTEXT_ID (t n) \<noteq> p \<longrightarrow> p \<in> ready (t n)" and "N = length (ids (t 0))"
  shows "\<exists>n < N. CONTEXT_ID (t n) = p"
  using assms by (rule starvation_free)

theorem no_starvation_witness:
  "\<exists>n < 3. CONTEXT_ID ((after_switch ^^ n) demo) = 3"
proof (rule no_starvation [of "\<lambda>n. (after_switch ^^ n) demo"])
  have r: "reachable ((after_switch ^^ n) demo)" for n
    by (induction n) (simp_all add: demo_reachable after_switch)
  show "\<forall>n < 3. turn ((after_switch ^^ n) demo) ((after_switch ^^ Suc n) demo)" using after_switch(1) [OF r] by simp
  show "\<forall>n < 3. CONTEXT_ID ((after_switch ^^ n) demo) \<noteq> 3 \<longrightarrow> 3 \<in> ready ((after_switch ^^ n) demo)"
    using demo_turns(1-3) by (simp add: numeral_3_eq_3 less_Suc_eq)
qed (simp_all add: demo_reachable demo_turns)

text \<open>C36: a fused call returns to its caller.  The caller is not ready while the call lasts; when the
  callee returns, at whatever time after the call, the kernel switches back to the caller, which takes
  the value the callee returned, and no context other than the callee is changed.\<close>

theorem fused_call_returns:
  assumes "reachable s" and "spawned c" and "fuse_inner s c f = Some (s1, Inr (i, m))"
    and "kstep\<^sup>*\<^sup>* s1 u" and "CONTEXT_ID u = i" and "calls u (CONTEXT_ID s) i"
  shows "m = Switch_User i f (args_address c) \<and> get s i = None \<and> calls s1 (CONTEXT_ID s) i \<and>
    CONTEXT_ID s \<notin> ready u \<and>
    (\<exists>s2 s3. sys_return u v = Some (s2, Switched (Switch_Discarding (CONTEXT_ID s))) \<and>
       CONTEXT_ID s2 = CONTEXT_ID s \<and> fuse_result s2 i = Some (s3, v) \<and>
       (\<forall>j. j \<noteq> i \<longrightarrow> get s3 j = get u j))"
proof -
  have ok: "kernel_ok s" by (rule reachable_ok [OF assms(1)])
  let ?p = "CONTEXT_ID s"
  have "reachable s1" by (rule reachable.Step [OF assms(1) kstep.Fuse [OF assms(2,3)]])
  then have u: "kernel_ok u" using reachable_steps [OF assms(4)] reachable_ok by blast
  have ins: "m = Switch_User i f (args_address c) \<and> fused s c f i s1"
  proof (cases "snd (insert_context s (c\<lparr>func := f, ret_link := Some ?p, cpu_id := cpu_id (the (current s))\<rparr>))")
    case (Inl e)
    then show ?thesis using fuse_full [OF ok Inl] assms(3) by auto
  next
    case (Inr k)
    then show ?thesis using fuse_new [OF ok assms(2) Inr] assms(3) by auto
  qed
  obtain d where d: "get u i = Some d" "ret_link d = Some ?p" using assms(6) by (auto simp: calls_def)
  have cur: "current u = Some d" using d(1) assms(5) by (simp add: current_def)
  have p: "?p \<noteq> i" "?p \<notin> ready u"
    using caller_waits [OF u assms(6)] assms(5) by simp_all
  obtain s2 where s2: "sys_return u v = Some (s2, Switched (Switch_Discarding ?p))"
    "returned_to (set_context u i (d\<lparr>result := Some v\<rparr>)) ?p s2"
    using sys_return_to_caller [OF u cur d(2)] assms(5) by blast
  let ?e = "d\<lparr>result := Some v, cstatus := Exited, ret_link := None\<rparr>"
  have "get s2 i = Some ?e" using s2(2) assms(5) by (simp add: returned_to_def)
  then have "fuse_result s2 i = Some (set_context s2 i (?e\<lparr>result := None\<rparr>), v)" by (simp add: fuse_result_def)
  moreover have "\<forall>j. j \<noteq> i \<longrightarrow> get (set_context s2 i (?e\<lparr>result := None\<rparr>)) j = get u j"
    using s2(2) assms(5) by (simp add: returned_to_def)
  moreover have "CONTEXT_ID s2 = ?p" using s2(2) by (simp add: returned_to_def)
  ultimately show ?thesis using ins p(2) s2(1) by (auto simp: fused_def calls_def callee_def)
qed

theorem fused_call_returns_witness:
  "\<exists>s1 s2 s3. fuse_inner demo0 worker 0x3000 = Some (s1, Inr (2, Switch_User 2 0x3000 0x4000000000)) \<and>
    sys_return s1 [42] = Some (s2, Switched (Switch_Discarding 1)) \<and> CONTEXT_ID s2 = 1 \<and>
    fuse_result s2 2 = Some (s3, [42]) \<and> get s3 1 = get s1 1"
proof -
  obtain s1 where s1: "fuse_inner demo0 worker 0x3000 = Some (s1, Inr (2, Switch_User 2 0x3000 0x4000000000))"
    "CONTEXT_ID s1 = 2" "calls s1 1 2" using demo_fuse by blast
  have d: "CONTEXT_ID demo0 = 1" by (simp add: demo0_eval)
  have "\<exists>s2 s3. sys_return s1 [42] = Some (s2, Switched (Switch_Discarding 1)) \<and> CONTEXT_ID s2 = 1 \<and>
      fuse_result s2 2 = Some (s3, [42]) \<and> (\<forall>j. j \<noteq> 2 \<longrightarrow> get s3 j = get s1 j)"
    using fused_call_returns [OF demo_reachable(1) spawned_worker s1(1) rtranclp.rtrancl_refl s1(2), of "[42]"] s1(3)
    unfolding d by blast
  then show ?thesis using s1(1) by fastforce
qed

text \<open>C37: a sleep does not block.  The context that calls nanosleep is running, which \<open>block_context\<close> leaves as
  it is, so whatever time it asks for, it stays running when no other context is ready, and after a
  switch it is ready to be chosen again at once.\<close>

theorem nanosleep_does_not_block:
  assumes "reachable s"
  shows "\<exists>s' m c. nanosleep s sec nsec = Some (s', Inr m) \<and> get s' (CONTEXT_ID s) = Some c \<and>
    (if m = None then CONTEXT_ID s' = CONTEXT_ID s \<and> cstatus c = Running
     else cstatus c = Runnable \<and> CONTEXT_ID s \<in> ready s')"
proof -
  have ok: "kernel_ok s" by (rule reachable_ok [OF assms])
  then obtain d where d: "get s (CONTEXT_ID s) = Some d" "current s = Some d" "cstatus d = Running"
    by (rule kernel_okE)
  let ?m = "CONTEXT_ID s"
  let ?d = "d\<lparr>wake := Some (time_sum (monotonic s) sec (scast nsec))\<rparr>"
  let ?t = "set_context s ?m ?d"
  have t: "kernel_ok ?t" by (rule set_same_ok [OF ok d(1)]) simp_all
  have sleep: "nanosleep s sec nsec = (case switch ?t of None \<Rightarrow> None | Some (s', m) \<Rightarrow> Some (s', Inr m))"
    using d by (simp add: nanosleep_def Let_def block_context_def split: option.splits)
  have ids: "ids_ok ?t" using t by (simp add: kernel_ok_def)
  have cur: "current ?t \<noteq> None" by (simp add: current_def)
  have "context_ok s ?m d" using ok d(1) by (intro ids_okD) (simp_all add: kernel_ok_def)
  then have cpu: "cpu_id d = None \<or> cpu_id d = Some (this_cpu s)" by (simp add: context_ok_def)
  show ?thesis
  proof (cases rule: switch_cases [OF cur ids])
    case 1
    then show ?thesis using sleep d(3) by simp
  next
    case (2 i c s')
    have i: "i \<noteq> ?m" using 2(1) by (simp add: ready_def)
    then have "get s' ?m = Some (stop_running (update_context ?t ?d))" using 2(5) by (simp add: switched_to_def)
    moreover have "cstatus (stop_running (update_context ?t ?d)) = Runnable" using d(3) by (simp add: stop_running_def)
    moreover have "?m \<in> ready s'"
      using calculation cpu 2(5) i by (auto simp: ready_def runnable_def switched_to_def)
    ultimately show ?thesis using 2(4) sleep by simp
  qed
qed

theorem nanosleep_does_not_block_witness:
  "\<exists>s' m c. nanosleep demo 3600 0 = Some (s', Inr m) \<and> get s' (CONTEXT_ID demo) = Some c \<and>
    (if m = None then CONTEXT_ID s' = CONTEXT_ID demo \<and> cstatus c = Running
     else cstatus c = Runnable \<and> CONTEXT_ID demo \<in> ready s')"
  by (rule nanosleep_does_not_block [OF demo_reachable(3)])

end
