(* ===== verification/User_Memory.thy ===== *)
theory User_Memory
  imports Paging
begin

text \<open>
  The memory of user contexts above the page tables: the validation of user pointers
  (kernel/src/syscall/validate.rs), grants and context memory (kernel/src/context/memory.rs) and the
  driver system calls (kernel/src/syscall/driver.rs).

  \<^item> The state is the one of the mapper, with the frame allocator in it; operations that need kernel
    pages also take the free blocks of the virtual page allocator.
  \<^item> The grants are those of the current context; None stands for no current context.
  \<^item> Flushing the translation cache has no effect on the tables and is left out.  Shared ownership of
    frames and kernel mappings is not modelled: dropping one is an operation of its own, and stands for
    the drop of the last owner.
\<close>

datatype errno = ESRCH_NO | EFAULT_NO | EINVAL_NO | ENOMEM_NO | Invalid_Address

subsection \<open>Ranges of pages\<close>

definition page_range :: "nat \<Rightarrow> nat \<Rightarrow> nat list" where
  "page_range s e = [s..<Suc e]"

text \<open>The pages of the \<open>sz\<close> bytes from an address on.\<close>

definition pages_of :: "usize \<Rightarrow> usize \<Rightarrow> nat list" where
  "pages_of address sz =
    page_range (page_containing_address address) (page_containing_address (usub (uadd address sz) 1))"

fun map_pages :: "'a alloc_fn \<Rightarrow> 'a vm \<Rightarrow> (nat \<times> nat) list \<Rightarrow> entry_flags \<Rightarrow> 'a vm rust" where
  "map_pages al m [] fl = Some m"
| "map_pages al m ((page, frame) # pfs) fl = do { m \<leftarrow> map_to al m page frame fl; map_pages al m pfs fl }"

fun unmap_pages :: "'a dealloc_fn \<Rightarrow> 'a vm \<Rightarrow> nat list \<Rightarrow> 'a vm rust" where
  "unmap_pages de m [] = Some m"
| "unmap_pages de m (page # ps) = do { (m, _) \<leftarrow> unmap_return de m page False; unmap_pages de m ps }"

fun remap_pages :: "'a vm \<Rightarrow> nat list \<Rightarrow> entry_flags \<Rightarrow> 'a vm rust" where
  "remap_pages m [] fl = Some m"
| "remap_pages m (page # ps) fl = do { m \<leftarrow> remap m page fl; remap_pages m ps fl }"

subsection \<open>Validation of user memory\<close>

definition validate :: "'a vm \<Rightarrow> usize \<Rightarrow> usize \<Rightarrow> entry_flags \<Rightarrow> errno + unit" where
  "validate m address sz fl =
    (if sz < 1 then Inl Invalid_Address
     else let end_offset = sz - 1 in
       if address + end_offset \<ge> 2 ^ 64 then Inl Invalid_Address
       else let end_address = address + end_offset in
         if list_all (\<lambda>page. case translate_page_flags m page of
               Some page_flags \<Rightarrow> flags_contains page_flags fl
             | None \<Rightarrow> False)
             (page_range (page_containing_address address) (page_containing_address end_address))
         then Inr () else Inl Invalid_Address)"

text \<open>The slice of \<open>len\<close> items of \<open>item\<close> bytes each at a user address: its address and its length.  The empty
  slice has no bytes, and 0 stands for its address.\<close>

definition validate_slice :: "'a vm \<Rightarrow> usize \<Rightarrow> usize \<Rightarrow> usize \<Rightarrow> errno + usize \<times> usize" where
  "validate_slice m item ptr len =
    (if len = 0 then Inr (0, 0)
     else case validate m ptr (umul len item) (PRESENT OR USER_ACCESSIBLE) of
       Inl e \<Rightarrow> Inl e
     | Inr _ \<Rightarrow> Inr (ptr, len))"

definition validate_slice_mut :: "'a vm \<Rightarrow> usize \<Rightarrow> usize \<Rightarrow> usize \<Rightarrow> errno + usize \<times> usize" where
  "validate_slice_mut m item ptr len =
    (if len = 0 then Inr (0, 0)
     else case validate m ptr (umul len item) (PRESENT OR WRITABLE OR USER_ACCESSIBLE) of
       Inl e \<Rightarrow> Inl e
     | Inr _ \<Rightarrow> Inr (ptr, len))"

subsection \<open>Grants\<close>

record grant =
  g_start :: usize
  g_size :: usize
  g_flags :: entry_flags
  g_mapped :: bool

definition grant_physmap :: "'a alloc_fn \<Rightarrow> 'a vm \<Rightarrow> usize \<Rightarrow> usize \<Rightarrow> usize \<Rightarrow> entry_flags \<Rightarrow> ('a vm \<times> grant) rust" where
  "grant_physmap al m from to sz fl = do {
     m \<leftarrow> map_pages al m
       (map (\<lambda>page. (page, containing_address (uadd (usub (page_start_address page) to) from))) (pages_of to sz)) fl;
     Some (m, \<lparr> g_start = to, g_size = sz, g_flags = fl, g_mapped = True \<rparr>) }"

fun translate_pages :: "'a vm \<Rightarrow> nat list \<Rightarrow> nat list rust" where
  "translate_pages m [] = Some []"
| "translate_pages m (page # ps) = do {
     frame \<leftarrow> translate_page m page;
     frames \<leftarrow> translate_pages m ps;
     Some (frame # frames) }"

fun map_popping :: "'a alloc_fn \<Rightarrow> 'a vm \<Rightarrow> nat list \<Rightarrow> nat list \<Rightarrow> entry_flags \<Rightarrow> 'a vm rust" where
  "map_popping al m [] frames fl = Some m"
| "map_popping al m (page # ps) [] fl = panic"
| "map_popping al m (page # ps) (frame # frames) fl = do {
     m \<leftarrow> map_to al m page frame fl;
     map_popping al m ps frames fl }"

definition grant_map_inactive :: "'a alloc_fn \<Rightarrow> 'a dealloc_fn \<Rightarrow> 'a vm \<Rightarrow> usize \<Rightarrow> usize \<Rightarrow> usize \<Rightarrow>
    entry_flags \<Rightarrow> nat \<Rightarrow> nat \<Rightarrow> ('a vm \<times> grant) rust" where
  "grant_map_inactive al de m from to sz fl new_table tmp = do {
     frames \<leftarrow> translate_pages m (pages_of from sz);
     m \<leftarrow> with_table al de m new_table tmp (\<lambda>m. map_popping al m (pages_of to sz) frames fl);
     Some (m, \<lparr> g_start = to, g_size = sz, g_flags = fl, g_mapped = True \<rparr>) }"

text \<open>Unmapping takes the grant; what is left of it is dropped, which is allowed since it is not mapped.\<close>

definition grant_unmap :: "'a dealloc_fn \<Rightarrow> 'a vm \<Rightarrow> grant \<Rightarrow> 'a vm rust" where
  "grant_unmap de m g =
    (if \<not> g_mapped g then panic else unmap_pages de m (pages_of (g_start g) (g_size g)))"

definition grant_unmap_inactive :: "'a alloc_fn \<Rightarrow> 'a dealloc_fn \<Rightarrow> 'a vm \<Rightarrow> grant \<Rightarrow> nat \<Rightarrow> nat \<Rightarrow> 'a vm rust" where
  "grant_unmap_inactive al de m g new_table tmp =
    (if \<not> g_mapped g then panic
     else with_table al de m new_table tmp (\<lambda>m. unmap_pages de m (pages_of (g_start g) (g_size g))))"

subsection \<open>Driver system calls\<close>

definition iopl :: "usize \<Rightarrow> 64 word \<Rightarrow> 64 word \<times> (errno + usize)" where
  "iopl level rflags =
    (if level > 3 then (rflags, Inl EINVAL_NO)
     else ((rflags AND NOT (push_bit 12 3)) OR push_bit 12 (of_nat level AND 3), Inr 0))"

definition physalloc :: "'a alloc_fn \<Rightarrow> 'a vm \<Rightarrow> usize \<Rightarrow> ('a vm \<times> (errno + usize)) rust" where
  "physalloc al m sz = do {
     (a, f) \<leftarrow> al (vm_alloc m) (uadd sz 4095 div 4096);
     let m = m\<lparr>vm_alloc := a\<rparr>;
     case f of None \<Rightarrow> Some (m, Inl ENOMEM_NO) | Some f \<Rightarrow> Some (m, Inr (frame_start_address f)) }"

definition physfree :: "'a dealloc_fn \<Rightarrow> 'a vm \<Rightarrow> usize \<Rightarrow> usize \<Rightarrow> ('a vm \<times> (errno + usize)) rust" where
  "physfree de m physical_address sz = do {
     a \<leftarrow> de (vm_alloc m) (containing_address physical_address) (uadd sz 4095 div 4096);
     Some (m\<lparr>vm_alloc := a\<rparr>, Inr 0) }"

definition MAP_WRITE :: nat where "MAP_WRITE = 1"
definition MAP_WRITE_COMBINE :: nat where "MAP_WRITE_COMBINE = 2"

definition physmap_flags :: "nat \<Rightarrow> entry_flags" where
  "physmap_flags flags =
    (let fl = PRESENT OR NO_EXECUTE OR USER_ACCESSIBLE;
         fl = (if flags AND MAP_WRITE = MAP_WRITE then fl OR WRITABLE else fl) in
     if flags AND MAP_WRITE_COMBINE = MAP_WRITE_COMBINE then fl OR HUGE_PAGE else fl)"

text \<open>The loop over the grants: the index at which the new grant goes, and its address.\<close>

fun find_gap :: "usize \<Rightarrow> grant list \<Rightarrow> usize \<Rightarrow> nat \<times> usize" where
  "find_gap full_size [] to_address = (0, to_address)"
| "find_gap full_size (g # gs) to_address =
    (if uadd to_address full_size < g_start g then (0, to_address)
     else let pages = uadd (g_size g) 4095 div 4096;
              (i, t) = find_gap full_size gs (uadd (g_start g) (umul pages 4096))
          in (Suc i, t))"

definition insert_at :: "nat \<Rightarrow> 'a \<Rightarrow> 'a list \<Rightarrow> 'a list" where
  "insert_at i x xs = take i xs @ x # drop i xs"

definition physmap_size :: "usize \<Rightarrow> usize \<Rightarrow> usize" where
  "physmap_size offset sz = umul (uadd (uadd offset sz) 4095 div 4096) 4096"

definition physmap :: "'a alloc_fn \<Rightarrow> grant list option \<Rightarrow> 'a vm \<Rightarrow> usize \<Rightarrow> usize \<Rightarrow> nat \<Rightarrow>
    (grant list option \<times> 'a vm \<times> (errno + usize)) rust" where
  "physmap al cur m physical_address sz flags =
    (if sz = 0 then Some (cur, m, Inr 0)
     else case cur of
       None \<Rightarrow> Some (cur, m, Inl ESRCH_NO)
     | Some grants \<Rightarrow> do {
         let from_address = physical_address div 4096 * 4096;
         let offset = physical_address - from_address;
         let full_size = physmap_size offset sz;
         let (i, to_address) = find_gap full_size grants (unat USER_GRANT_OFFSET);
         (m, g) \<leftarrow> grant_physmap al m from_address to_address full_size (physmap_flags flags);
         Some (Some (insert_at i g grants), m, Inr (uadd to_address offset)) })"

definition physunmap :: "'a dealloc_fn \<Rightarrow> grant list option \<Rightarrow> 'a vm \<Rightarrow> usize \<Rightarrow>
    (grant list option \<times> 'a vm \<times> (errno + usize)) rust" where
  "physunmap de cur m virtual_address =
    (if virtual_address = 0 then Some (cur, m, Inr 0)
     else case cur of
       None \<Rightarrow> Some (cur, m, Inl ESRCH_NO)
     | Some grants \<Rightarrow>
         (case position (\<lambda>g. virtual_address \<ge> g_start g \<and> virtual_address < uadd (g_start g) (g_size g)) grants of
            None \<Rightarrow> Some (cur, m, Inl EFAULT_NO)
          | Some i \<Rightarrow> do {
              m \<leftarrow> grant_unmap de m (grants ! i);
              Some (Some (take i grants @ drop (Suc i) grants), m, Inr 0) }))"

definition virttophys :: "'a vm \<Rightarrow> usize \<Rightarrow> errno + usize" where
  "virttophys m virtual_address =
    (case translate m virtual_address of Some a \<Rightarrow> Inr a | None \<Rightarrow> Inl EFAULT_NO)"

subsection \<open>Kernel mappings\<close>

record valloc_mapping =
  vmap_start :: nat
  vmap_count :: usize
  vmap_flags :: entry_flags

definition frames_iter :: "nat \<Rightarrow> usize \<Rightarrow> nat list" where
  "frames_iter start count =
    frame_range start (containing_address (usub (uadd (frame_start_address start) (umul count PAGE_SIZE)) 1))"

definition valloc_pages_iter :: "nat \<Rightarrow> usize \<Rightarrow> nat list" where
  "valloc_pages_iter start count =
    page_range start (page_containing_address (usub (uadd (page_start_address start) (umul count PAGE_SIZE)) 1))"

definition allocate_unmapped_pages :: "block list \<Rightarrow> usize \<Rightarrow> (block list \<times> nat option) rust" where
  "allocate_unmapped_pages free count = allocate_pages free count"

definition valloc_mapping_new :: "'a alloc_fn \<Rightarrow> 'a vm \<Rightarrow> block list \<Rightarrow> entry_flags \<Rightarrow> nat \<Rightarrow> usize \<Rightarrow>
    ('a vm \<times> block list \<times> valloc_mapping option) rust" where
  "valloc_mapping_new al m free fl frame count = do {
     (free, page) \<leftarrow> allocate_unmapped_pages free count;
     case page of
       None \<Rightarrow> Some (m, free, None)
     | Some page \<Rightarrow> do {
         m \<leftarrow> map_pages al m (zip (valloc_pages_iter page count) (frames_iter frame count)) fl;
         Some (m, free, Some \<lparr> vmap_start = page, vmap_count = count, vmap_flags = fl \<rparr>) } }"

definition valloc_mapping_drop :: "'a dealloc_fn \<Rightarrow> 'a vm \<Rightarrow> block list \<Rightarrow> valloc_mapping \<Rightarrow>
    ('a vm \<times> block list) rust" where
  "valloc_mapping_drop de m free v = do {
     m \<leftarrow> unmap_pages de m (valloc_pages_iter (vmap_start v) (vmap_count v));
     free \<leftarrow> deallocate_pages free (vmap_start v) (vmap_count v);
     Some (m, free) }"

subsection \<open>Context memory\<close>

record context_memory =
  valloc_mapping :: "valloc_mapping option"
  context_address :: usize
  context_mapped :: bool
  frames_start :: nat
  frames_count :: usize
  cm_flags :: entry_flags

definition frames_new :: "'a alloc_fn \<Rightarrow> 'a vm \<Rightarrow> usize \<Rightarrow> ('a vm \<times> nat option) rust" where
  "frames_new al m count = do {
     (a, f) \<leftarrow> al (vm_alloc m) count;
     Some (m\<lparr>vm_alloc := a\<rparr>, f) }"

definition frames_drop :: "'a dealloc_fn \<Rightarrow> 'a vm \<Rightarrow> nat \<Rightarrow> usize \<Rightarrow> 'a vm rust" where
  "frames_drop de m start count = do {
     a \<leftarrow> de (vm_alloc m) start count;
     Some (m\<lparr>vm_alloc := a\<rparr>) }"

definition context_memory_new :: "'a alloc_fn \<Rightarrow> 'a vm \<Rightarrow> usize \<Rightarrow> usize \<Rightarrow> entry_flags \<Rightarrow>
    ('a vm \<times> context_memory option) rust" where
  "context_memory_new al m count address fl =
    (if count = 0 then panic
     else do {
       (m, f) \<leftarrow> frames_new al m count;
       Some (m, map_option (\<lambda>f. \<lparr> valloc_mapping = None, context_address = address, context_mapped = False,
                                frames_start = f, frames_count = count, cm_flags = fl \<rparr>) f) })"

definition kernel_address :: "context_memory \<Rightarrow> usize option" where
  "kernel_address c = map_option (\<lambda>v. page_start_address (vmap_start v)) (valloc_mapping c)"

definition len_bytes :: "context_memory \<Rightarrow> usize" where
  "len_bytes c = umul (frames_count c) PAGE_SIZE"

definition map_to_kernel :: "'a alloc_fn \<Rightarrow> 'a vm \<Rightarrow> block list \<Rightarrow> context_memory \<Rightarrow> entry_flags \<Rightarrow>
    ('a vm \<times> block list \<times> context_memory \<times> usize option) rust" where
  "map_to_kernel al m free c fl =
    (case valloc_mapping c of
       Some v \<Rightarrow> Some (m, free, c, Some (page_start_address (vmap_start v)))
     | None \<Rightarrow> do {
         (m, free, v) \<leftarrow> valloc_mapping_new al m free fl (frames_start c) (frames_count c);
         case v of
           None \<Rightarrow> Some (m, free, c, None)
         | Some v \<Rightarrow> Some (m, free, c\<lparr>valloc_mapping := Some v\<rparr>, Some (page_start_address (vmap_start v))) })"

definition context_memory_new_kernel :: "'a alloc_fn \<Rightarrow> 'a dealloc_fn \<Rightarrow> 'a vm \<Rightarrow> block list \<Rightarrow> usize \<Rightarrow> entry_flags \<Rightarrow>
    ('a vm \<times> block list \<times> (context_memory \<times> usize) option) rust" where
  "context_memory_new_kernel al de m free count fl = do {
     (m, c) \<leftarrow> context_memory_new al m count 0 fl;
     case c of
       None \<Rightarrow> Some (m, free, None)
     | Some c \<Rightarrow> do {
         (m, free, c, a) \<leftarrow> map_to_kernel al m free c fl;
         case a of
           None \<Rightarrow> do { m \<leftarrow> frames_drop de m (frames_start c) (frames_count c); Some (m, free, None) }
         | Some a \<Rightarrow> Some (m, free, Some (c\<lparr>context_address := a\<rparr>, a)) } }"

definition drop_kernel_mapping :: "'a dealloc_fn \<Rightarrow> 'a vm \<Rightarrow> block list \<Rightarrow> context_memory \<Rightarrow>
    ('a vm \<times> block list \<times> context_memory) rust" where
  "drop_kernel_mapping de m free c =
    (case valloc_mapping c of
       None \<Rightarrow> Some (m, free, c)
     | Some v \<Rightarrow> do {
         (m, free) \<leftarrow> valloc_mapping_drop de m free v;
         Some (m, free, c\<lparr>valloc_mapping := None\<rparr>) })"

definition context_pages :: "context_memory \<Rightarrow> nat list" where
  "context_pages c = pages_of (context_address c) (umul (frames_count c) PAGE_SIZE)"

definition map_context :: "'a alloc_fn \<Rightarrow> 'a vm \<Rightarrow> context_memory \<Rightarrow> ('a vm \<times> context_memory) rust" where
  "map_context al m c =
    (if context_mapped c then Some (m, c)
     else do {
       m \<leftarrow> map_pages al m (zip (context_pages c) (frames_iter (frames_start c) (frames_count c))) (cm_flags c);
       Some (m, c\<lparr>context_mapped := True\<rparr>) })"

definition unmap_context :: "'a dealloc_fn \<Rightarrow> 'a vm \<Rightarrow> context_memory \<Rightarrow> ('a vm \<times> context_memory) rust" where
  "unmap_context de m c =
    (if \<not> context_mapped c then Some (m, c)
     else do {
       m \<leftarrow> unmap_pages de m (context_pages c);
       Some (m, c\<lparr>context_mapped := False\<rparr>) })"

definition remap_context :: "'a vm \<Rightarrow> context_memory \<Rightarrow> ('a vm \<times> context_memory) rust" where
  "remap_context m c =
    (if context_mapped c then Some (m, c)
     else do {
       m \<leftarrow> remap_pages m (context_pages c) (cm_flags c);
       Some (m, c\<lparr>context_mapped := True\<rparr>) })"

definition ref_clone :: "context_memory \<Rightarrow> usize option \<Rightarrow> context_memory" where
  "ref_clone c new_address = c\<lparr>context_address := (case new_address of Some a \<Rightarrow> a | None \<Rightarrow> context_address c),
     context_mapped := False\<rparr>"

subsection \<open>Copies and resizing\<close>

definition context_memory_drop :: "'a dealloc_fn \<Rightarrow> 'a vm \<Rightarrow> block list \<Rightarrow> context_memory \<Rightarrow>
    ('a vm \<times> block list) rust" where
  "context_memory_drop de m free c = do {
     (m, free, c) \<leftarrow> drop_kernel_mapping de m free c;
     m \<leftarrow> frames_drop de m (frames_start c) (frames_count c);
     Some (m, free) }"

text \<open>The kernel mapping to copy from.  The alternative to the mapping of the memory is evaluated first, so a second
  one is made in any case, and dropped when it is not needed.\<close>

definition source_mapping :: "'a alloc_fn \<Rightarrow> 'a dealloc_fn \<Rightarrow> 'a vm \<Rightarrow> block list \<Rightarrow> context_memory \<Rightarrow>
    ('a vm \<times> block list \<times> valloc_mapping option) rust" where
  "source_mapping al de m free c = do {
     (m, free, v) \<leftarrow> valloc_mapping_new al m free NO_EXECUTE (frames_start c) (frames_count c);
     case v of
       None \<Rightarrow> Some (m, free, None)
     | Some v \<Rightarrow>
         (case valloc_mapping c of
            None \<Rightarrow> Some (m, free, Some v)
          | Some w \<Rightarrow> do { (m, free) \<leftarrow> valloc_mapping_drop de m free v; Some (m, free, Some w) }) }"

definition source_mapping_drop :: "'a dealloc_fn \<Rightarrow> 'a vm \<Rightarrow> block list \<Rightarrow> context_memory \<Rightarrow> valloc_mapping \<Rightarrow>
    ('a vm \<times> block list) rust" where
  "source_mapping_drop de m free c v =
    (if valloc_mapping c = None then valloc_mapping_drop de m free v else Some (m, free))"

definition clone_internal :: "'a alloc_fn \<Rightarrow> 'a dealloc_fn \<Rightarrow> 'a vm \<Rightarrow> block list \<Rightarrow> context_memory \<Rightarrow>
    usize option \<Rightarrow> usize option \<Rightarrow> ('a vm \<times> block list \<times> context_memory option) rust" where
  "clone_internal al de m free c new_address new_count = do {
     let count = (case new_count of Some n \<Rightarrow> n | None \<Rightarrow> frames_count c);
     (m, f) \<leftarrow> frames_new al m count;
     case f of
       None \<Rightarrow> Some (m, free, None)
     | Some f \<Rightarrow> do {
         (m, free, v) \<leftarrow> valloc_mapping_new al m free (WRITABLE OR NO_EXECUTE) f count;
         case v of
           None \<Rightarrow> do { m \<leftarrow> frames_drop de m f count; Some (m, free, None) }
         | Some v \<Rightarrow> Some (m, free, Some \<lparr> valloc_mapping = Some v,
             context_address = (case new_address of Some a \<Rightarrow> a | None \<Rightarrow> context_address c),
             context_mapped = False, frames_start = f, frames_count = count, cm_flags = cm_flags c \<rparr>) } }"

definition copy_clone :: "'a alloc_fn \<Rightarrow> 'a dealloc_fn \<Rightarrow> 'a vm \<Rightarrow> block list \<Rightarrow> context_memory \<Rightarrow>
    usize option \<Rightarrow> ('a vm \<times> block list \<times> context_memory option) rust" where
  "copy_clone al de m free c new_address = do {
     (m, free, v) \<leftarrow> source_mapping al de m free c;
     case v of
       None \<Rightarrow> Some (m, free, None)
     | Some v \<Rightarrow> do {
         (m, free, new) \<leftarrow> clone_internal al de m free c new_address None;
         (m, free) \<leftarrow> source_mapping_drop de m free c v;
         Some (m, free, new) } }"

text \<open>Resizing takes the memory: it is dropped at the end, also when the new one cannot be had.\<close>

definition context_memory_resize :: "'a alloc_fn \<Rightarrow> 'a dealloc_fn \<Rightarrow> 'a vm \<Rightarrow> block list \<Rightarrow> context_memory \<Rightarrow>
    usize \<Rightarrow> ('a vm \<times> block list \<times> context_memory option) rust" where
  "context_memory_resize al de m free c new_count = do {
     (m, free, v) \<leftarrow> source_mapping al de m free c;
     case v of
       None \<Rightarrow> do { (m, free) \<leftarrow> context_memory_drop de m free c; Some (m, free, None) }
     | Some v \<Rightarrow> do {
         (m, free, new) \<leftarrow> clone_internal al de m free c None (Some new_count);
         case new of
           None \<Rightarrow> do {
             (m, free) \<leftarrow> source_mapping_drop de m free c v;
             (m, free) \<leftarrow> context_memory_drop de m free c;
             Some (m, free, None) }
         | Some new \<Rightarrow> do {
             (m, c) \<leftarrow> unmap_context de m c;
             (m, new) \<leftarrow> map_context al m new;
             (m, free) \<leftarrow> source_mapping_drop de m free c v;
             (m, free) \<leftarrow> context_memory_drop de m free c;
             Some (m, free, Some new) } } }"

text \<open>The resized memory stands where the old one stood, with its protection.\<close>

lemma clone_internal_shape:
  assumes "clone_internal al de m free c addr count = Some (m', free', Some new)"
  shows "context_address new = (case addr of Some a \<Rightarrow> a | None \<Rightarrow> context_address c)" "cm_flags new = cm_flags c"
    "frames_count new = (case count of Some n \<Rightarrow> n | None \<Rightarrow> frames_count c)" "valloc_mapping new \<noteq> None"
proof -
  let ?n = "case count of Some n \<Rightarrow> n | None \<Rightarrow> frames_count c"
  obtain m0 r where r: "frames_new al m ?n = Some (m0, r)"
    using assms by (cases "frames_new al m ?n") (auto simp: clone_internal_def Let_def)
  then obtain f where f: "frames_new al m ?n = Some (m0, Some f)"
    using assms by (cases r) (auto simp: clone_internal_def Let_def)
  let ?v = "valloc_mapping_new al m0 free (WRITABLE OR NO_EXECUTE) f ?n"
  obtain m1 free1 q where q: "?v = Some (m1, free1, q)"
    using assms f by (cases ?v) (auto simp: clone_internal_def Let_def)
  then obtain v where "?v = Some (m1, free1, Some v)"
    using assms f by (cases q) (auto simp: clone_internal_def Let_def bind_eq_Some_conv)
  then have "new = \<lparr> valloc_mapping = Some v, context_address = (case addr of Some a \<Rightarrow> a | None \<Rightarrow> context_address c),
      context_mapped = False, frames_start = f, frames_count = ?n, cm_flags = cm_flags c \<rparr>"
    using assms f by (simp add: clone_internal_def Let_def)
  then show "context_address new = (case addr of Some a \<Rightarrow> a | None \<Rightarrow> context_address c)" "cm_flags new = cm_flags c"
    "frames_count new = ?n" "valloc_mapping new \<noteq> None" by simp_all
qed

lemma map_context_shape:
  assumes "map_context al m c = Some (m', c')"
  shows "c' = c\<lparr>context_mapped := True\<rparr>"
  using assms by (auto simp: map_context_def bind_eq_Some_conv split: if_splits)

lemma context_memory_resize_shape:
  assumes "context_memory_resize al de m free c n = Some (m', free', Some new)"
  shows "context_address new = context_address c" "cm_flags new = cm_flags c" "frames_count new = n"
    "context_mapped new" "valloc_mapping new \<noteq> None"
proof -
  obtain m0 free0 v where src: "source_mapping al de m free c = Some (m0, free0, v)"
    using assms unfolding context_memory_resize_def bind_eq_Some_conv by fast
  then obtain w where w: "v = Some w"
    using assms by (cases v) (simp_all add: context_memory_resize_def bind_eq_Some_conv split: prod.splits)
  then obtain m1 free1 r where r: "clone_internal al de m0 free0 c None (Some n) = Some (m1, free1, r)"
    using assms src by (cases "clone_internal al de m0 free0 c None (Some n)") (auto simp: context_memory_resize_def)
  then obtain new0 where new0: "clone_internal al de m0 free0 c None (Some n) = Some (m1, free1, Some new0)"
    using assms src w by (cases r) (simp_all add: context_memory_resize_def bind_eq_Some_conv split: prod.splits)
  then obtain m2 m3 where map: "map_context al m2 new0 = Some (m3, new)"
    using assms src w by (auto simp: context_memory_resize_def bind_eq_Some_conv)
  note new = map_context_shape [OF map] clone_internal_shape [OF new0]
  show "context_address new = context_address c" "cm_flags new = cm_flags c" "frames_count new = n"
    "context_mapped new" "valloc_mapping new \<noteq> None"
    using new(2-5) by (simp_all add: new(1))
qed

end
