(* ===== verification/User_Memory_Props.thy ===== *)
theory User_Memory_Props
  imports User_Memory Paging_Props
begin

text \<open>
  The properties of user memory, over the finite map that the page tables stand for: mapping and
  unmapping ranges of pages, what the validation of a user pointer guarantees, and the driver system
  calls that map physical memory into a context and take it out again.
\<close>

subsection \<open>Ranges of pages\<close>

definition user_page :: "nat \<Rightarrow> bool" where
  "user_page p \<longleftrightarrow> p < 2 ^ 36 \<and> p4_index p \<noteq> 511"

lemma user_page_low: "p < 2 ^ 35 \<Longrightarrow> user_page p"
proof -
  assume p: "p < 2 ^ 35"
  have "p div 2 ^ 27 < 2 ^ 8" using p by (simp add: div_less_iff_less_mult)
  then show "user_page p" using p by (simp add: user_page_def p4_index_def)
qed

lemma map_pages_spec:
  assumes "kvm_ok R m" "\<forall>(p, f) \<in> set pfs. user_page p \<and> f < 2 ^ 40" "flags_ok fl"
    and "map_pages kalloc m pfs fl = Some m'"
  shows "kvm_ok R m' \<and> same_on R m m' \<and> distinct (map fst pfs) \<and> (\<forall>p \<in> fst ` set pfs. mapping m p = None) \<and>
    mapping m' = mapping m ++ map_of (map (\<lambda>(p, f). (p, (f, fl OR PRESENT))) pfs)"
  using assms
proof (induction pfs arbitrary: m)
  case (Cons pf pfs)
  obtain p f where pf: "pf = (p, f)" by (cases pf)
  obtain m1 where m1: "map_to kalloc m p f fl = Some m1" "map_pages kalloc m1 pfs fl = Some m'"
    using Cons(5) pf by (auto simp: bind_eq_Some_conv)
  have p: "p mod 2 ^ 36 = p" "p4_index p \<noteq> 511" "f < 2 ^ 40" using Cons(3) pf by (auto simp: user_page_def)
  note s = kmap.map_to_spec [OF Cons(2) p(2,3) Cons(4) m1(1), unfolded p(1)]
  note s1 = conjunct1 [OF s] and s2 = conjunct1 [OF conjunct2 [OF s]]
    and s3 = conjunct1 [OF conjunct2 [OF conjunct2 [OF s]]] and s4 = conjunct2 [OF conjunct2 [OF conjunct2 [OF s]]]
  let ?new = "map_of (map (\<lambda>(p, f). (p, (f, fl OR PRESENT))) pfs)"
  have "\<forall>(p, f) \<in> set pfs. user_page p \<and> f < 2 ^ 40" using Cons(3) by simp
  note h = Cons.IH [OF s1 this Cons(4) m1(2)]
  note h2 = conjunct2 [OF h]
  note h3 = conjunct2 [OF h2]
  note h4 = conjunct2 [OF h3]
  note ih = conjunct1 [OF h] conjunct1 [OF h2] conjunct1 [OF h3] conjunct1 [OF h4] conjunct2 [OF h4]
  have new: "p \<notin> fst ` set pfs" using bspec [OF ih(4), of p] s4 by auto
  have "dom ?new = fst ` set pfs" unfolding dom_map_of_conv_image_fst by force
  then have "(mapping m)(p \<mapsto> (f, fl OR PRESENT)) ++ ?new = (mapping m ++ ?new)(p \<mapsto> (f, fl OR PRESENT))"
    using new by (intro map_add_upd_left) simp
  then have eq: "mapping m' = mapping m ++ map_of (map (\<lambda>(p, f). (p, (f, fl OR PRESENT))) (pf # pfs))"
    unfolding ih(5) s4 pf by simp
  have "mapping m q = None" if "q \<in> fst ` set pfs" for q
    using bspec [OF ih(4) that] new that by (auto simp: s4 split: if_splits)
  then have free: "\<forall>q \<in> fst ` set (pf # pfs). mapping m q = None" using s3 by (simp add: pf)
  have dist: "distinct (map fst (pf # pfs))" using ih(3) new pf by simp
  show ?case by (intro conjI ih(1) same_on_trans [OF s2 ih(2)] dist free eq)
qed simp

lemma unmap_pages_spec:
  assumes "kvm_ok R m" "\<forall>p \<in> set ps. user_page p \<and> mapping m p \<noteq> None" "distinct ps"
  shows "\<exists>m'. unmap_pages kdealloc m ps = Some m' \<and> kvm_ok R m' \<and> same_on R m m' \<and>
    mapping m' = (\<lambda>p. if p \<in> set ps then None else mapping m p)"
  using assms
proof (induction ps arbitrary: m)
  case (Cons p ps)
  have p: "p mod 2 ^ 36 = p" "p4_index p \<noteq> 511" using Cons(3) by (auto simp: user_page_def)
  obtain f fl where f: "mapping m p = Some (f, fl)" using Cons(3) by auto
  obtain m1 where m1: "unmap_return kdealloc m p False = Some (m1, f)" "kvm_ok R m1" "same_on R m m1"
      "mapping m1 = (mapping m)(p := None)"
    using kmap.unmap_inner_spec [OF Cons(2) p(2), of False, unfolded p(1)] f by (auto simp: unmap_return_def)
  have "\<forall>q \<in> set ps. user_page q \<and> mapping m1 q \<noteq> None" using Cons(3,4) m1(4) by auto
  then obtain m' where "unmap_pages kdealloc m1 ps = Some m'" "kvm_ok R m'" "same_on R m1 m'"
      "mapping m' = (\<lambda>q. if q \<in> set ps then None else mapping m1 q)"
    using Cons.IH [OF m1(2)] Cons(4) by auto
  then show ?case using m1 same_on_trans [of R m m1 m'] by auto
qed simp

subsection \<open>Flags of a page\<close>






lemma mapping_frame_bound: "mapping m p = Some (f, fl) \<Longrightarrow> f < 2 ^ 40"
  by (auto simp: mapping_def leaf_alt entry_view_def dest: pointed_frame_bound split: if_splits option.splits)

lemma translate_mapping:
  assumes "p4_index (b div 4096) \<noteq> 511" "mapping m (b div 4096 mod 2 ^ 36) = Some (f, fl)"
  shows "translate m b = Some (f * 4096 + b mod 4096)"
proof -
  have "f < 2 ^ 40" by (rule mapping_frame_bound [OF assms(2)])
  then show ?thesis
    using assms by (simp add: translate_def page_containing_address_def PAGE_SIZE_def translate_page_mapping frame_start_address_def)
qed

subsection \<open>Validation\<close>



subsection \<open>Grants\<close>

text \<open>The grants of a context between two addresses: in order, disjoint, page-aligned and mapped.\<close>

fun grants_ok :: "usize \<Rightarrow> usize \<Rightarrow> grant list \<Rightarrow> bool" where
  "grants_ok lo hi [] \<longleftrightarrow> lo \<le> hi"
| "grants_ok lo hi (g # gs) \<longleftrightarrow> lo \<le> g_start g \<and> 4096 dvd g_start g \<and> 4096 dvd g_size g \<and> 0 < g_size g \<and> g_mapped g \<and>
    grants_ok (g_start g + g_size g) hi gs"

lemma grants_ok_le: "grants_ok lo hi gs \<Longrightarrow> lo \<le> hi"
  by (induction gs arbitrary: lo) fastforce+

lemma grants_ok_mono: "grants_ok lo hi gs \<Longrightarrow> lo' \<le> lo \<Longrightarrow> hi \<le> hi' \<Longrightarrow> grants_ok lo' hi' gs"
  by (induction gs arbitrary: lo lo') auto

lemma pages_exact: "4096 dvd n \<Longrightarrow> n < 2 ^ 48 \<Longrightarrow> uadd n 4095 div 4096 = (n div 4096 :: nat)"
proof -
  assume n: "4096 dvd n" "n < 2 ^ 48"
  obtain k where k: "n = 4096 * k" using n(1) by blast
  have "(4096 * k + 4095) div 4096 = k" by simp
  then show "uadd n 4095 div 4096 = n div 4096" using n(2) k by simp
qed

lemma find_gap_spec:
  assumes "grants_ok lo hi gs" "4096 dvd lo" "hi + full \<le> 2 ^ 47" "4096 dvd full" "0 < full"
    and "find_gap full gs lo = (i, t)" "g_start g = t" "g_size g = full" "g_mapped g"
  shows "i \<le> length gs \<and> 4096 dvd t \<and> lo \<le> t \<and> t \<le> hi \<and> grants_ok lo (hi + full) (insert_at i g gs) \<and>
    (\<forall>g' \<in> set (take i gs). g_start g' + g_size g' \<le> t)"
  using assms
proof (induction gs arbitrary: lo i)
  case Nil
  then show ?case by (simp add: insert_at_def)
next
  case (Cons g' gs)
  let ?fin = "g_start g' + g_size g'"
  have g': "lo \<le> g_start g'" "4096 dvd g_start g'" "4096 dvd g_size g'" "0 < g_size g'" "g_mapped g'"
      "grants_ok ?fin hi gs"
    using Cons(2) by simp_all
  have le: "?fin \<le> hi" by (rule grants_ok_le [OF g'(6)])
  have small: "hi \<le> 2 ^ 47" "lo + full < 2 ^ 64" using Cons(4) g'(1) le by simp_all
  show ?case
  proof (cases "lo + full < g_start g'")
    case True
    then have it: "i = 0" "t = lo" using Cons(7) small by simp_all
    have "grants_ok ?fin (hi + full) gs" by (rule grants_ok_mono [OF g'(6)]) simp_all
    then show ?thesis using it True g' le Cons(3,5,6,8-10) by (simp add: insert_at_def)
  next
    case False
    have e: "uadd (g_start g') (umul (uadd (g_size g') 4095 div 4096) 4096) = ?fin"
      using pages_exact [OF g'(3)] g'(3) le small by simp
    obtain j where j: "i = Suc j" "find_gap full gs ?fin = (j, t)"
      using Cons(7) False small e by (auto simp: Let_def split: prod.splits)
    have "4096 dvd ?fin" using g'(2,3) by simp
    note ih = Cons.IH [OF g'(6) this Cons(4-6) j(2) Cons(8-10)]
    then show ?thesis using g' j(1) le by (auto simp: insert_at_def)
  qed
qed

lemma position_insert_at:
  assumes "i \<le> length xs" "P x" "\<forall>y \<in> set (take i xs). \<not> P y"
  shows "position P (insert_at i x xs) = Some i"
proof -
  have "position P (ys @ x # zs) = Some (length ys)" if "\<forall>y \<in> set ys. \<not> P y" for ys zs
    using that assms(2) by (induction ys) simp_all
  then show ?thesis using assms(1,3) by (simp add: insert_at_def min_absorb2)
qed

lemma remove_inserted:
  assumes "i \<le> length xs"
  shows "insert_at i x xs ! i = x" "take i (insert_at i x xs) @ drop (Suc i) (insert_at i x xs) = xs"
  using assms by (simp_all add: insert_at_def nth_append min_absorb2 Suc_diff_le)

lemma grant_lookup:
  assumes i: "i \<le> length gs" and before: "\<forall>g' \<in> set (take i gs). g_start g' + g_size g' \<le> g_start g"
    and g: "g_start g + g_size g \<le> 2 ^ 47" and a: "g_start g \<le> a" "a < g_start g + g_size g"
  shows "position (\<lambda>g. a \<ge> g_start g \<and> a < uadd (g_start g) (g_size g)) (insert_at i g gs) = Some i"
proof (rule position_insert_at [OF i])
  show "a \<ge> g_start g \<and> a < uadd (g_start g) (g_size g)" using a g by simp
  show "\<forall>g' \<in> set (take i gs). \<not> (a \<ge> g_start g' \<and> a < uadd (g_start g') (g_size g'))"
  proof
    fix g' assume "g' \<in> set (take i gs)"
    then have le: "g_start g' + g_size g' \<le> g_start g" using before by blast
    then have "uadd (g_start g') (g_size g') = g_start g' + g_size g'" using g by simp
    then show "\<not> (a \<ge> g_start g' \<and> a < uadd (g_start g') (g_size g'))" using le a(1) by simp
  qed
qed

lemma physmap_flags_ok: "flags_ok (physmap_flags flags)"
  unfolding flags_ok_def physmap_flags_def Let_def
  by (auto simp: bit_word64_eq bit_and_iff bit_or_iff mask_bits)

lemma pages_of_aligned:
  assumes "0 < n" "k + n \<le> 2 ^ 35"
  shows "pages_of (4096 * k) (4096 * n) = [k..<k + n]"
proof -
  have e: "uadd (4096 * k) (4096 * n) = 4096 * (k + n)" using assms(2) by simp
  have "usub (4096 * (k + n)) 1 = 4096 * (k + n) - 1" using assms by simp
  moreover have "(4096 * (k + n) - 1) div 4096 = k + n - 1"
  proof -
    have "4096 * (k + n) - 1 = 4095 + 4096 * (k + n - 1)" using assms(1) by simp
    then show ?thesis by simp
  qed
  ultimately show ?thesis
    using assms(1) by (simp add: pages_of_def page_containing_address_def PAGE_SIZE_def page_range_def e)
qed

lemma grant_frame:
  assumes "k \<le> p" "p < k + n" "k + n \<le> 2 ^ 35" "j + n \<le> 2 ^ 40"
  shows "containing_address (uadd (usub (page_start_address p) (4096 * k)) (4096 * j)) = j + (p - k)"
proof -
  have "page_start_address p = 4096 * p" using assms by (simp add: page_start_address_def PAGE_SIZE_def)
  moreover have "usub (4096 * p) (4096 * k) = 4096 * (p - k)" using assms by (simp add: diff_mult_distrib2)
  moreover have "uadd (4096 * (p - k)) (4096 * j) = 4096 * (j + (p - k))" using assms by (simp add: algebra_simps)
  ultimately show ?thesis by (simp add: containing_address_def PAGE_SIZE_def)
qed

lemma grant_physmap_spec:
  assumes ok: "kvm_ok R m" and n: "0 < n" "k + n \<le> 2 ^ 35" "j + n \<le> 2 ^ 40" and fl: "flags_ok fl"
    and run: "grant_physmap kalloc m (4096 * j) (4096 * k) (4096 * n) fl = Some (m', g)"
  shows "kvm_ok R m'" "same_on R m m'" "g = \<lparr> g_start = 4096 * k, g_size = 4096 * n, g_flags = fl, g_mapped = True \<rparr>"
    "\<And>p. k \<le> p \<Longrightarrow> p < k + n \<Longrightarrow> mapping m p = None"
    "mapping m' = (\<lambda>p. if k \<le> p \<and> p < k + n then Some (j + (p - k), fl OR PRESENT) else mapping m p)"
proof -
  let ?pfs = "map (\<lambda>p. (p, j + (p - k))) [k..<k + n]"
  have pfs: "map (\<lambda>page. (page, containing_address (uadd (usub (page_start_address page) (4096 * k)) (4096 * j))))
      (pages_of (4096 * k) (4096 * n)) = ?pfs"
    unfolding pages_of_aligned [OF n(1,2)]
  proof (rule map_cong [OF refl])
    fix p assume "p \<in> set [k..<k + n]"
    then have "k \<le> p" "p < k + n" by simp_all
    from grant_frame [OF this n(2,3)]
    show "(p, containing_address (uadd (usub (page_start_address p) (4096 * k)) (4096 * j))) = (p, j + (p - k))"
      by (rule arg_cong)
  qed
  have run': "map_pages kalloc m ?pfs fl = Some m'" and
    g: "g = \<lparr> g_start = 4096 * k, g_size = 4096 * n, g_flags = fl, g_mapped = True \<rparr>"
    using run unfolding grant_physmap_def pfs by (auto simp: bind_eq_Some_conv)
  have "user_page p \<and> j + (p - k) < 2 ^ 40" if "p \<in> set [k..<k + n]" for p
    using that n user_page_low [of p] by auto
  then have "\<forall>(p, f) \<in> set ?pfs. user_page p \<and> f < 2 ^ 40" unfolding set_map by blast
  note spec = map_pages_spec [OF ok this fl run']
  note h2 = conjunct2 [OF spec]
  note h3 = conjunct2 [OF h2]
  note h4 = conjunct2 [OF h3]
  show "kvm_ok R m'" "same_on R m m'" by (fact conjunct1 [OF spec] conjunct1 [OF h2])+
  show "g = \<lparr> g_start = 4096 * k, g_size = 4096 * n, g_flags = fl, g_mapped = True \<rparr>" by (fact g)
  show "mapping m p = None" if "k \<le> p" "p < k + n" for p
  proof (rule bspec [OF conjunct1 [OF h4]])
    have "fst ` set ?pfs = set [k..<k + n]" unfolding set_map image_image by simp
    then show "p \<in> fst ` set ?pfs" using that by simp
  qed
  have "map (\<lambda>(p, f). (p, (f, fl OR PRESENT))) ?pfs = map (\<lambda>p. (p, (j + (p - k), fl OR PRESENT))) [k..<k + n]"
    by (simp only: map_map o_def split)
  then have "map_of (map (\<lambda>(p, f). (p, (f, fl OR PRESENT))) ?pfs) =
      (Some \<circ> (\<lambda>p. (j + (p - k), fl OR PRESENT))) |` set [k..<k + n]"
    by (simp only: map_of_map_restrict)
  then show "mapping m' = (\<lambda>p. if k \<le> p \<and> p < k + n then Some (j + (p - k), fl OR PRESENT) else mapping m p)"
    unfolding conjunct2 [OF h4] by (auto simp: restrict_map_def map_add_def fun_eq_iff)
qed

lemma grant_unmap_spec:
  assumes ok: "kvm_ok R m" and n: "0 < n" "k + n \<le> 2 ^ 35"
    and g: "g_start g = 4096 * k" "g_size g = 4096 * n" "g_mapped g"
    and mapped: "\<And>p. k \<le> p \<Longrightarrow> p < k + n \<Longrightarrow> mapping m p \<noteq> None"
  shows "\<exists>m'. grant_unmap kdealloc m g = Some m' \<and> kvm_ok R m' \<and>
    mapping m' = (\<lambda>p. if k \<le> p \<and> p < k + n then None else mapping m p)"
proof -
  have "\<forall>p \<in> set [k..<k + n]. user_page p \<and> mapping m p \<noteq> None"
  proof
    fix p assume "p \<in> set [k..<k + n]"
    then have "k \<le> p" "p < k + n" "p < 2 ^ 35" using n(2) by simp_all
    then show "user_page p \<and> mapping m p \<noteq> None" using mapped user_page_low by blast
  qed
  from unmap_pages_spec [OF ok this distinct_upt] obtain m' where
    m': "unmap_pages kdealloc m [k..<k + n] = Some m'" "kvm_ok R m'"
      "mapping m' = (\<lambda>p. if p \<in> set [k..<k + n] then None else mapping m p)"
    by (elim exE conjE)
  have "grant_unmap kdealloc m g = Some m'" using g m'(1) pages_of_aligned [OF n] by (simp add: grant_unmap_def)
  then show ?thesis using m'(2) unfolding m'(3) [symmetric]
    by (intro exI [of _ m'] conjI) (simp_all add: m'(3))
qed

text \<open>The number of pages that \<open>n\<close> bytes at an offset take.\<close>

definition pages_for :: "usize \<Rightarrow> usize \<Rightarrow> nat" where
  "pages_for off n = (off + n + 4095) div 4096"

lemma physmap_size_exact: "off + n < 2 ^ 53 \<Longrightarrow> physmap_size off n = 4096 * pages_for off n"
proof -
  assume n: "off + n < 2 ^ 53"
  have "off + n + 4095 < 2 ^ 54" using n by simp
  then have "pages_for off n < 2 ^ 42" unfolding pages_for_def by (simp add: div_less_iff_less_mult)
  then show ?thesis using n by (simp add: physmap_size_def pages_for_def mult.commute)
qed

lemma physmap_run:
  assumes "0 < n" "phys + n \<le> 2 ^ 52" and run: "physmap al (Some gs) m phys n flags = Some (gs', m', r)"
  defines "full \<equiv> 4096 * pages_for (phys mod 4096) n"
  obtains i t g where "find_gap full gs (unat USER_GRANT_OFFSET) = (i, t)"
    "grant_physmap al m (4096 * (phys div 4096)) t full (physmap_flags flags) = Some (m', g)"
    "gs' = Some (insert_at i g gs)" "r = Inr (uadd t (phys mod 4096))"
proof -
  have "phys mod 4096 \<le> phys" by simp
  then have "phys mod 4096 + n < 2 ^ 53" using assms(2) by simp
  then have full: "physmap_size (phys mod 4096) n = full" unfolding full_def by (rule physmap_size_exact)
  have off: "phys - phys div 4096 * 4096 = phys mod 4096" by (rule minus_div_mult_eq_mod)
  obtain i t where it: "find_gap full gs (unat USER_GRANT_OFFSET) = (i, t)" by (cases "find_gap full gs (unat USER_GRANT_OFFSET)")
  show thesis
    using run assms(1) that [OF it] unfolding physmap_def Let_def off full
    by (auto simp: it mult.commute [of 4096] bind_eq_Some_conv)
qed

lemma physmap_translate:
  assumes n: "b < n" and map: "mapping m = (\<lambda>p. if k \<le> p \<and> p < k + pages_for (phys mod 4096) n
      then Some (phys div 4096 + (p - k), fl) else old p)" and k: "k + pages_for (phys mod 4096) n \<le> 2 ^ 35"
  shows "translate m (4096 * k + phys mod 4096 + b) = Some (phys + b)"
proof -
  let ?q = "(phys mod 4096 + b) div 4096" and ?a = "4096 * k + phys mod 4096 + b"
  have q: "?q < pages_for (phys mod 4096) n" unfolding pages_for_def using n by simp
  have div: "?a div 4096 = k + ?q" "?a mod 4096 = (phys mod 4096 + b) mod 4096"
    by (simp_all add: add.assoc)
  have low: "k + ?q < 2 ^ 35" using q k by simp
  then have mod: "(k + ?q) mod 2 ^ 36 = k + ?q" by simp
  have "p4_index (?a div 4096) \<noteq> 511"
    unfolding div by (rule conjunct2 [OF user_page_low [OF low, unfolded user_page_def]])
  moreover have "mapping m (?a div 4096 mod 2 ^ 36) = Some (phys div 4096 + ?q, fl)"
    unfolding div mod map using q by simp
  ultimately have "translate m ?a = Some ((phys div 4096 + ?q) * 4096 + ?a mod 4096)" by (rule translate_mapping)
  also have "(phys div 4096 + ?q) * 4096 + ?a mod 4096 = phys + b"
    unfolding div by (simp add: algebra_simps)
  finally show ?thesis .
qed

lemma frames_bound:
  assumes "phys + n \<le> 2 ^ 52"
  shows "phys div 4096 + pages_for (phys mod 4096) n \<le> 2 ^ 40"
proof -
  let ?n = "pages_for (phys mod 4096) n"
  have "4096 * (phys div 4096) + phys mod 4096 = phys" by simp
  then have "4096 * (phys div 4096) + (phys mod 4096 + n + 4095) < 4096 * (2 ^ 40 + 1)" using assms by simp
  moreover have "4096 * ?n \<le> phys mod 4096 + n + 4095" unfolding pages_for_def by simp
  ultimately have "4096 * (phys div 4096) + 4096 * ?n < 4096 * (2 ^ 40 + 1)"
    by (rule le_less_trans [OF add_left_mono, rotated])
  then have "4096 * (phys div 4096 + ?n) < 4096 * (2 ^ 40 + 1)" by (simp only: distrib_left)
  then show ?thesis by simp
qed

text \<open>What \<open>physmap\<close> does when it returns: it puts a grant of pages from \<open>k\<close> on into the list.\<close>

lemma physmap_spec:
  assumes "kvm_ok R m" "grants_ok (unat USER_GRANT_OFFSET) hi gs" "0 < n" "phys + n \<le> 2 ^ 52"
    and "hi + 4096 * pages_for (phys mod 4096) n \<le> 2 ^ 47"
    and "physmap kalloc (Some gs) m phys n flags = Some (gs', m', r)"
  obtains i k g where "gs' = Some (insert_at i g gs)" "r = Inr (4096 * k + phys mod 4096)" "i \<le> length gs"
    "unat USER_GRANT_OFFSET \<le> 4096 * k" "4096 * (k + pages_for (phys mod 4096) n) \<le> 2 ^ 47"
    "g_start g = 4096 * k" "g_size g = 4096 * pages_for (phys mod 4096) n" "g_mapped g"
    "grants_ok (unat USER_GRANT_OFFSET) (hi + 4096 * pages_for (phys mod 4096) n) (insert_at i g gs)"
    "\<forall>g' \<in> set (take i gs). g_start g' + g_size g' \<le> g_start g" "kvm_ok R m'"
    "\<And>p. k \<le> p \<Longrightarrow> p < k + pages_for (phys mod 4096) n \<Longrightarrow> mapping m p = None"
    "mapping m' = (\<lambda>p. if k \<le> p \<and> p < k + pages_for (phys mod 4096) n
       then Some (phys div 4096 + (p - k), physmap_flags flags OR PRESENT) else mapping m p)"
proof -
  let ?n = "pages_for (phys mod 4096) n"
  obtain i t g where run: "find_gap (4096 * ?n) gs (unat USER_GRANT_OFFSET) = (i, t)"
    "grant_physmap kalloc m (4096 * (phys div 4096)) t (4096 * ?n) (physmap_flags flags) = Some (m', g)"
    "gs' = Some (insert_at i g gs)" "r = Inr (uadd t (phys mod 4096))"
    by (rule physmap_run [OF assms(3,4,6)])
  have pos: "0 < ?n" unfolding pages_for_def using assms(3) by simp
  have lo: "4096 dvd unat USER_GRANT_OFFSET" unfolding user_offsets by simp
  have g0: "g_start g = t" "g_size g = 4096 * ?n" "g_mapped g"
    using run(2) by (auto simp: grant_physmap_def bind_eq_Some_conv)
  have "4096 dvd 4096 * ?n" "0 < 4096 * ?n" using pos by simp_all
  note gap = find_gap_spec [OF assms(2) lo assms(5) this run(1) g0]
  obtain k where k: "t = 4096 * k" using gap by blast
  have kn': "4096 * (k + ?n) \<le> 2 ^ 47" using gap assms(5) k by simp
  then have kn: "k + ?n \<le> 2 ^ 35" by simp
  note sp = grant_physmap_spec [OF assms(1) pos kn frames_bound [OF assms(4)] physmap_flags_ok run(2) [unfolded k]]
  have "uadd t (phys mod 4096) = 4096 * k + phys mod 4096" using kn pos k by (simp add: uadd_def)
  then show thesis
    using that [OF run(3) _ _ _ kn' _ _ g0(3) _ _ sp(1) sp(4) sp(5)] run(4) gap g0 k by simp
qed

subsection \<open>The properties\<close>



text \<open>C39: mapping physical memory into a context and taking it out again.  When \<open>physmap\<close> returns, it
  returns an address at which every byte of the physical range can be reached, no mapping that was there
  is changed, and the grants of the context stay disjoint and in order.  Unmapping the returned address
  then succeeds and gives back the grants and the mappings from before.\<close>

theorem physmap_roundtrip:
  assumes "kvm_ok R m" "grants_ok (unat USER_GRANT_OFFSET) hi gs" "0 < n" "phys + n \<le> 2 ^ 52"
    and "hi + 4096 * pages_for (phys mod 4096) n \<le> 2 ^ 47"
    and "physmap kalloc (Some gs) m phys n flags = Some (gs', m', r)"
  shows "\<exists>a grants. r = Inr a \<and> gs' = Some grants \<and> kvm_ok R m' \<and>
    grants_ok (unat USER_GRANT_OFFSET) (hi + 4096 * pages_for (phys mod 4096) n) grants \<and>
    (\<forall>b < n. translate m' (a + b) = Some (phys + b)) \<and>
    (\<forall>p. mapping m p \<noteq> None \<longrightarrow> mapping m' p = mapping m p) \<and>
    (\<exists>m''. physunmap kdealloc gs' m' a = Some (Some gs, m'', Inr 0) \<and> kvm_ok R m'' \<and> mapping m'' = mapping m)"
proof -
  let ?n = "pages_for (phys mod 4096) n"
  obtain i k g where run: "gs' = Some (insert_at i g gs)" "r = Inr (4096 * k + phys mod 4096)" "i \<le> length gs"
    and k: "unat USER_GRANT_OFFSET \<le> 4096 * k" "4096 * (k + ?n) \<le> 2 ^ 47"
    and g: "g_start g = 4096 * k" "g_size g = 4096 * ?n" "g_mapped g"
    and gs: "grants_ok (unat USER_GRANT_OFFSET) (hi + 4096 * ?n) (insert_at i g gs)"
      "\<forall>g' \<in> set (take i gs). g_start g' + g_size g' \<le> g_start g"
    and m': "kvm_ok R m'" "\<And>p. k \<le> p \<Longrightarrow> p < k + ?n \<Longrightarrow> mapping m p = None"
      "mapping m' = (\<lambda>p. if k \<le> p \<and> p < k + ?n
         then Some (phys div 4096 + (p - k), physmap_flags flags OR PRESENT) else mapping m p)"
    by (rule physmap_spec [OF assms]) blast
  let ?a = "4096 * k + phys mod 4096"
  have kn: "k + ?n \<le> 2 ^ 35" using k(2) by simp
  have pos: "0 < ?n" unfolding pages_for_def using assms(3) by simp
  have addr: "\<forall>b < n. translate m' (?a + b) = Some (phys + b)" using physmap_translate [OF _ m'(3) kn] by blast
  have keep: "\<forall>p. mapping m p \<noteq> None \<longrightarrow> mapping m' p = mapping m p" using m'(2,3) by auto
  have "phys mod 4096 < 4096 * ?n" using pos mod_less_divisor [of 4096 phys] by linarith
  then have inside: "g_start g \<le> ?a" "?a < g_start g + g_size g" unfolding g by simp_all
  have end_g: "g_start g + g_size g \<le> 2 ^ 47" unfolding g using k(2) by (simp only: distrib_left)
  note found = grant_lookup [OF run(3) gs(2) end_g inside]
  obtain m'' where m'': "grant_unmap kdealloc m' g = Some m''" "kvm_ok R m''"
      "mapping m'' = (\<lambda>p. if k \<le> p \<and> p < k + ?n then None else mapping m' p)"
    using grant_unmap_spec [OF m'(1) pos kn g] m'(3) by auto
  have restored: "mapping m'' = mapping m" unfolding m''(3) m'(3) using m'(2) by auto
  have ne: "?a \<noteq> 0" using k(1) unfolding user_offsets by simp
  have "physunmap kdealloc gs' m' ?a = Some (Some gs, m'', Inr 0)"
    unfolding physunmap_def run(1) if_not_P [OF ne] by (simp add: found remove_inserted [OF run(3)] m''(1))
  then show ?thesis using addr keep m'(1) gs(1) m''(2) restored run(1,2) by blast
qed

lemma demo_physmap:
  obtains gs m r where "physmap kalloc (Some []) demo_vm 0x9123 0x100 1 = Some (gs, m, r)"
proof -
  have page: "p4_index 0x10000000 \<noteq> 511" by (simp add: p4_index_def)
  have "vm_alloc demo_vm = demo_frames 260" by (simp add: demo_vm_def)
  then have "map_to kalloc demo_vm 0x10000000 9 (physmap_flags 1) \<noteq> None"
    using demo_vm_empty demo_supplies
    by (intro kmap.map_to_returns [OF demo_vm_ok page _ demo_no_huge [OF page]]) simp_all
  then obtain m where m: "map_to kalloc demo_vm 0x10000000 9 (physmap_flags 1) = Some m" by blast
  have "pages_of 0x10000000000 0x1000 = [0x10000000]" using pages_of_aligned [of 1 "0x10000000"] by simp
  moreover have "containing_address (uadd (usub (page_start_address 0x10000000) 0x10000000000) 0x9000) = 9"
    using grant_frame [of "0x10000000" "0x10000000" 1 9] by simp
  ultimately have "physmap kalloc (Some []) demo_vm 0x9123 0x100 1 =
      Some (Some [\<lparr> g_start = 0x10000000000, g_size = 0x1000, g_flags = physmap_flags 1, g_mapped = True \<rparr>], m,
        Inr 0x10000000123)"
    using m by (simp add: physmap_def physmap_size_def grant_physmap_def user_offsets insert_at_def)
  then show thesis by (rule that)
qed

theorem physmap_roundtrip_witness:
  "\<exists>gs m a m'. physmap kalloc (Some []) demo_vm 0x9123 0x100 1 = Some (gs, m, Inr a) \<and> translate m a = Some 0x9123 \<and>
     physunmap kdealloc gs m a = Some (Some [], m', Inr 0) \<and> mapping m' = (\<lambda>_. None)"
proof -
  obtain gs m r where run: "physmap kalloc (Some []) demo_vm 0x9123 0x100 1 = Some (gs, m, r)" by (rule demo_physmap)
  have ok: "grants_ok (unat USER_GRANT_OFFSET) (2 ^ 46) []" unfolding user_offsets by simp
  have hyps: "0 < (0x100 :: nat)" "0x9123 + 0x100 \<le> (2 ^ 52 :: nat)" "2 ^ 46 + 4096 * pages_for (0x9123 mod 4096) 0x100 \<le> 2 ^ 47"
    by (simp_all add: pages_for_def)
  obtain a m' where "r = Inr a" "\<forall>b < 0x100. translate m (a + b) = Some (0x9123 + b)"
      "physunmap kdealloc gs m a = Some (Some [], m', Inr 0)" "mapping m' = mapping demo_vm"
    using physmap_roundtrip [OF demo_vm_ok ok hyps run] by blast
  moreover from this(2) have "translate m a = Some 0x9123" by (auto dest: spec [of _ 0])
  ultimately show ?thesis
    using run demo_vm_empty by (intro exI [of _ gs] exI [of _ m] exI [of _ a] exI [of _ m']) simp
qed

end
