(* ===== verification/Context_Values.thy ===== *)
theory Context_Values
  imports Sos_Codec Frames Consts
begin

text \<open>
  Values in the memory of a context: the implementations of the trait SOS (sos-rs), the argument memory
  of a context to which calls and system calls append encoded values (ContextValues in
  kernel/src/context/memory.rs), the decoding of a call (kernel/src/syscall/call.rs) and the heap of a
  context (brk in kernel/src/syscall/process.rs).

  Memory is the list of bytes that the kernel mapping shows.  Whether the frames and pages for a resized
  memory can be allocated is the parameter \<open>grow\<close>, a predicate on the number of pages.
\<close>

subsection \<open>What can be encoded\<close>

datatype sos_source = Referenced "sos_value list" | Encoded bytes | Iter decode_iter

fun source_len :: "sos_source \<Rightarrow> usize" where
  "source_len (Referenced vs) = encoded_len vs"
| "source_len (Encoded bs) = length bs"
| "source_len (Iter it) = length (di_buff it) + 8"

fun source_encode :: "byteorder \<Rightarrow> sos_source \<Rightarrow> bytes \<Rightarrow> bytes rust" where
  "source_encode bo (Referenced vs) buf = map_option fst (encode_sos bo vs buf)"
| "source_encode bo (Encoded bs) buf = copy_from_slice buf bs"
| "source_encode bo (Iter it) buf = map_option fst (decode_iter_encode bo it buf)"

definition just_error :: "bytes \<Rightarrow> sos_source" where
  "just_error msg = Referenced [ErrorV msg]"

text \<open>The bytes of encoded values at a pointer: as many as the second word of the header says.\<close>

definition encoded_from_ptr :: "byteorder \<Rightarrow> bytes \<Rightarrow> bytes rust" where
  "encoded_from_ptr bo mem = do {
     w \<leftarrow> slice mem 4 8;
     slice mem 0 (unat (read_u32 bo w)) }"

definition encoded_from_values :: "byteorder \<Rightarrow> sos_value list \<Rightarrow> bytes \<Rightarrow> bytes rust" where
  "encoded_from_values bo vs fresh = map_option fst (encode_sos bo vs (take (encoded_len vs) fresh))"

subsection \<open>The argument memory of a context\<close>

record context_values =
  cv_memory :: "(usize \<times> bytes) option"
  cv_offset :: usize

definition cv_new_no_memory :: context_values where
  "cv_new_no_memory = \<lparr> cv_memory = None, cv_offset = 0 \<rparr>"

definition cv_set_memory :: "context_values \<Rightarrow> usize \<times> bytes \<Rightarrow> context_values" where
  "cv_set_memory cv m = cv\<lparr>cv_memory := Some m\<rparr>"

definition align_up :: "usize \<Rightarrow> usize" where
  "align_up v = uadd v (PAGE_SIZE - 1) div PAGE_SIZE * PAGE_SIZE"

text \<open>The contents of a resized memory.\<close>

definition resize_bytes :: "bytes \<Rightarrow> usize \<Rightarrow> bytes" where
  "resize_bytes src dst_len =
    (if dst_len > length src then src @ replicate (dst_len - length src) 0 else take dst_len src)"

definition resize_memory :: "(usize \<Rightarrow> bool) \<Rightarrow> usize \<times> bytes \<Rightarrow> usize \<Rightarrow> (usize \<times> bytes) option" where
  "resize_memory grow m new_count =
    (if grow new_count then Some (fst m, resize_bytes (snd m) (umul new_count PAGE_SIZE)) else None)"

definition append_encode :: "byteorder \<Rightarrow> (usize \<Rightarrow> bool) \<Rightarrow> context_values \<Rightarrow> sos_source \<Rightarrow>
    (context_values \<times> usize) rust" where
  "append_encode bo grow cv values = do {
     m \<leftarrow> cv_memory cv;
     let len = length (snd m);
     let need = source_len values;
     m \<leftarrow> (if usub len (cv_offset cv) < need
           then resize_memory grow m (align_up (uadd len need) div PAGE_SIZE)
           else Some m);
     let vaddr = uadd (fst m) (cv_offset cv);
     mem \<leftarrow> with_slice (snd m) (cv_offset cv) (uadd (cv_offset cv) need) (source_encode bo values);
     Some (\<lparr> cv_memory = Some (fst m, mem), cv_offset = uadd (cv_offset cv) need \<rparr>, vaddr) }"

subsection \<open>The target of a call\<close>

datatype call_error = Could_Not_Decode | Not_Enough_Arguments | Incorrect_Type

text \<open>The function a fused or cast call names, and the iterator over the remaining values, which is
  handed on as the arguments.\<close>

definition call_target :: "byteorder \<Rightarrow> bytes \<Rightarrow> (call_error + function_name \<times> decode_iter) rust" where
  "call_target bo args = do {
     it \<leftarrow> decode_sos bo args True;
     case it of
       None \<Rightarrow> Some (Inl Could_Not_Decode)
     | Some it \<Rightarrow> do {
         (v, it) \<leftarrow> next_value bo it;
         Some (case v of
           None \<Rightarrow> Inl Not_Enough_Arguments
         | Some (FunctionV f) \<Rightarrow> Inr (f, it)
         | Some _ \<Rightarrow> Inl Incorrect_Type) } }"

subsection \<open>The heap\<close>

datatype brk_error = NO_PROCESS | NO_MEMORY

text \<open>The heap is its address and its number of pages; None when it was taken out of the context.
  The outer None of \<open>cur\<close> stands for no current context.\<close>

definition brk :: "(usize \<Rightarrow> bool) \<Rightarrow> (usize \<times> usize) option option \<Rightarrow> usize \<Rightarrow>
    ((usize \<times> usize) option option \<times> (brk_error + usize)) rust" where
  "brk grow cur address =
    (case cur of
       None \<Rightarrow> Some (cur, Inl NO_PROCESS)
     | Some heap \<Rightarrow>
         if address = 0 then do {
           (start, count) \<leftarrow> heap;
           Some (cur, Inr (uadd start (umul count PAGE_SIZE))) }
         else if address \<ge> unat USER_HEAP_OFFSET then do {
           let new_count = align_up (usub address (unat USER_HEAP_OFFSET)) div PAGE_SIZE;
           (start, count) \<leftarrow> heap;
           if new_count = count then Some (Some None, Inr address)
           else if grow new_count then Some (Some (Some (start, new_count)), Inr address)
           else panic }
         else Some (cur, Inl NO_MEMORY))"

subsection \<open>Appending values\<close>

fun source_bytes :: "byteorder \<Rightarrow> sos_source \<Rightarrow> bytes" where
  "source_bytes bo (Referenced vs) = sos_bytes bo vs"
| "source_bytes bo (Encoded bs) = bs"
| "source_bytes bo (Iter it) = write_u32 bo (of_nat (di_count it)) @ write_u32 bo 0 @ di_buff it"

fun source_ok :: "sos_source \<Rightarrow> bool" where
  "source_ok (Referenced vs) = list_all encodable vs"
| "source_ok _ = True"

text \<open>The argument memory is well formed: the offset is within it, and it is a whole number of pages of
  an address space.\<close>

definition values_ok :: "context_values \<Rightarrow> bool" where
  "values_ok cv \<longleftrightarrow> (case cv_memory cv of
     None \<Rightarrow> False
   | Some (a, mem) \<Rightarrow> cv_offset cv \<le> length mem \<and> PAGE_SIZE dvd length mem \<and> a + length mem \<le> 2 ^ 60)"

lemma align_up_exact:
  assumes "v < 2 ^ 62"
  shows "align_up v = (v + 4095) div 4096 * 4096" "align_up v div PAGE_SIZE = (v + 4095) div 4096"
  using assms by (simp_all add: align_up_def PAGE_SIZE_def)

lemma round_up_ge: "(v :: nat) \<le> (v + 4095) div 4096 * 4096"
proof -
  have "(v + 4095) div 4096 * 4096 + (v + 4095) mod 4096 = v + 4095" by simp
  moreover have "(v + 4095) mod 4096 < 4096" by simp
  ultimately show ?thesis by linarith
qed

lemma round_up_le: "(v + 4095) div 4096 * 4096 \<le> v + (4095 :: nat)"
  by simp

context byte_order
begin

lemma iter_encode:
  assumes "length buf = length (di_buff it) + 8"
  shows "decode_iter_encode bo it buf = Some (source_bytes bo (Iter it), length (di_buff it) + 8)"
proof -
  obtain a b c where buf: "buf = a @ b @ c" "length a = 4" "length b = 4" "length c = length (di_buff it)"
  proof -
    have "buf = take 4 buf @ take 4 (drop 4 buf) @ drop 8 buf"
      by (metis append_take_drop_id drop_drop numeral_plus_numeral semiring_norm(2) semiring_norm(6))
    then show thesis using that [of "take 4 buf" "take 4 (drop 4 buf)" "drop 8 buf"] assms by simp
  qed
  show ?thesis
    using buf(2-4) unfolding buf(1)
    by (simp add: decode_iter_encode_def with_slice_def slice_def write_prefix_def copy_from_slice_def)
qed

lemma source_length: "source_ok src \<Longrightarrow> length (source_bytes bo src) = source_len src"
  using length_payload(2) by (cases src) simp_all

lemma source_encode_exact:
  assumes "source_ok src" "length buf = source_len src"
  shows "source_encode bo src buf = Some (source_bytes bo src)"
proof (cases src)
  case (Referenced vs)
  then show ?thesis using encode_refines(2) [of vs buf] assms by simp
next
  case (Encoded bs)
  then show ?thesis using assms by (simp add: copy_from_slice_def)
next
  case (Iter it)
  then show ?thesis using iter_encode [of buf it] assms by simp
qed

text \<open>The memory that the values go to: there is room for them after the offset, and the bytes before it
  are kept.\<close>

lemma make_room:
  assumes mem: "off \<le> length mem" "4096 dvd length mem" "a + length mem + need + 4096 \<le> 2 ^ 60" and grow: "\<forall>n. grow n"
  obtains m1 where "(if usub (length mem) off < need
      then resize_memory grow (a, mem) (align_up (uadd (length mem) need) div PAGE_SIZE) else Some (a, mem)) = Some (a, m1)"
    "off + need \<le> length m1" "take off m1 = take off mem" "length mem \<le> length m1" "4096 dvd length m1"
    "a + length m1 \<le> 2 ^ 60"
proof (cases "length mem - off < need")
  case True
  let ?n = "(length mem + need + 4095) div 4096"
  let ?m1 = "resize_bytes mem (?n * 4096)"
  have small: "length mem + need < 2 ^ 62" "usub (length mem) off = length mem - off" using mem by simp_all
  have count: "align_up (uadd (length mem) need) div PAGE_SIZE = ?n"
    using align_up_exact(2) [OF small(1)] small(1) by simp
  have ge: "length mem + need \<le> ?n * 4096" and le: "?n * 4096 \<le> length mem + need + 4095"
    using round_up_ge [of "length mem + need"] round_up_le [of "length mem + need"] by simp_all
  have "?n * 4096 < 2 ^ 64" using le mem(3) by simp
  then have "umul ?n PAGE_SIZE = ?n * 4096" by (simp add: PAGE_SIZE_def)
  then have "resize_memory grow (a, mem) ?n = Some (a, ?m1)" using grow by (simp add: resize_memory_def)
  moreover have "length mem < ?n * 4096" using ge True by linarith
  then have m1: "?m1 = mem @ replicate (?n * 4096 - length mem) 0" "length ?m1 = ?n * 4096"
    by (simp_all add: resize_bytes_def)
  moreover have "a + ?n * 4096 \<le> 2 ^ 60" using le mem(3) by simp
  ultimately show thesis using that [of ?m1] True small(2) count ge mem(1) by simp
next
  case False
  then show thesis using that [of mem] mem by simp
qed

lemma append_encode_spec:
  assumes ok: "values_ok cv" and m: "cv_memory cv = Some (a, mem)" and src: "source_ok src" and grow: "\<forall>n. grow n"
    and small: "a + length mem + source_len src + 4096 \<le> 2 ^ 60"
  shows "\<exists>cv' rest. append_encode bo grow cv src = Some (cv', a + cv_offset cv) \<and>
    cv_memory cv' = Some (a, take (cv_offset cv) mem @ source_bytes bo src @ rest) \<and>
    cv_offset cv' = cv_offset cv + source_len src \<and> values_ok cv'"
proof -
  let ?off = "cv_offset cv" and ?need = "source_len src"
  have mem: "?off \<le> length mem" "4096 dvd length mem" using ok m by (simp_all add: values_ok_def PAGE_SIZE_def)
  obtain m1 where m1: "(if usub (length mem) ?off < ?need
      then resize_memory grow (a, mem) (align_up (uadd (length mem) ?need) div PAGE_SIZE) else Some (a, mem)) = Some (a, m1)"
    "?off + ?need \<le> length m1" "take ?off m1 = take ?off mem" "length mem \<le> length m1" "4096 dvd length m1"
    "a + length m1 \<le> 2 ^ 60"
    by (rule make_room [OF mem small grow])
  let ?rest = "drop (?off + ?need) m1" and ?mem = "take ?off mem @ source_bytes bo src @ drop (?off + ?need) m1"
  have add: "uadd ?off ?need = ?off + ?need" "uadd a ?off = a + ?off" using small mem(1) by simp_all
  have "source_encode bo src (take ?need (drop ?off m1)) = Some (source_bytes bo src)"
    using source_encode_exact [OF src] m1(2) by simp
  then have "with_slice m1 ?off (?off + ?need) (source_encode bo src) = Some ?mem"
    using m1(2) by (simp add: with_slice_def slice_def m1(3))
  then have "append_encode bo grow cv src =
      Some (\<lparr> cv_memory = Some (a, ?mem), cv_offset = ?off + ?need \<rparr>, a + ?off)"
    unfolding append_encode_def Let_def m Option.bind.simps fst_conv snd_conv m1(1) add by simp
  moreover have len: "length ?mem = length m1" using source_length [OF src] mem(1) m1(2) by simp
  then have "values_ok \<lparr> cv_memory = Some (a, ?mem), cv_offset = ?off + ?need \<rparr>"
    using m1(2,5,6) by (simp add: values_ok_def PAGE_SIZE_def)
  ultimately show ?thesis by auto
qed

text \<open>What a reader decodes from the place of the appended values.\<close>

lemma decode_referenced:
  assumes "list_all storable vs" "vs \<noteq> []" "encoded_len vs < 2 ^ 32"
  shows "\<exists>it. decode_sos bo (sos_bytes bo vs @ rest) False = Some (Some it) \<and>
    collect_values bo it = Some (map (decoded bo False) vs)"
proof -
  have "collect_values bo \<lparr> di_count = length vs, di_buff = items bo vs, di_lazy = False \<rparr> =
      Some (map (decoded bo False) vs)"
    using decode_payload(3) [OF assms(1), where n = 0 and rest = "[]"] assms(3)
    by (simp add: collect_values_empty encoded_len.simps)
  then show ?thesis using decode_sos_bytes [OF storable_encodables [OF assms(1)] assms(2,3)] by blast
qed

lemma decode_forwarded: "decode_sos bo (source_bytes bo (Iter it) @ rest) lzy = Some None"
proof -
  have "read_u32 bo (write_u32 bo 0) = 0" by simp
  then show ?thesis by (simp add: decode_sos_def slice_def Let_def)
qed

end

lemma brk_same_size:
  assumes "address \<ge> unat USER_HEAP_OFFSET" "address \<noteq> 0"
    and "align_up (usub address (unat USER_HEAP_OFFSET)) div PAGE_SIZE = count"
  shows "brk grow (Some (Some (start, count))) address = Some (Some None, Inr address)"
    "brk grow (Some None) address = panic" "brk grow (Some None) 0 = panic"
  using assms by (simp_all add: brk_def)

end
