(* ===== verification/Elf.thy ===== *)
theory Elf
  imports Prelude
begin

text \<open>
  ELF executables, kernel/src/elf.rs: the checks of a header, the tables of sections, segments and symbols,
  the names of sections and symbols, and the search for the manifest section.

  The structures and constants of the format are those of the goblin crate.  They are the argument
  \<open>gb\<close>: the constants, and for each structure what an overlay of it at an offset of the data shows.
  An iterator over a table is the list of what it yields.
\<close>

subsection \<open>Structures of the format\<close>

record header =
  e_entry :: usize
  e_phoff :: usize
  e_shoff :: usize
  e_phentsize :: usize
  e_phnum :: usize
  e_shentsize :: usize
  e_shnum :: usize
  e_shstrndx :: usize

record program_header =
  p_type :: "32 word"
  p_flags :: "32 word"
  p_offset :: usize
  p_vaddr :: usize
  p_filesz :: usize
  p_memsz :: usize

record section_header =
  sh_name :: usize
  sh_type :: "32 word"
  sh_offset :: usize
  sh_size :: usize

record 's goblin =
  SIZEOF_EHDR :: usize
  SIZEOF_SYM :: usize
  ELFMAG :: bytes
  EI_CLASS :: usize
  ELFCLASS :: byte
  SHT_STRTAB :: "32 word"
  SHT_SYMTAB :: "32 word"
  PT_LOAD :: "32 word"
  PF_X :: "32 word"
  PF_W :: "32 word"
  PF_R :: "32 word"
  header_of :: "bytes \<Rightarrow> header"
  program_header_at :: "bytes \<Rightarrow> usize \<Rightarrow> program_header"
  section_header_at :: "bytes \<Rightarrow> usize \<Rightarrow> section_header"
  sym_at :: "bytes \<Rightarrow> usize \<Rightarrow> 's"

subsection \<open>Executables\<close>

record elf =
  elf_data :: bytes
  elf_strtab :: "bytes option"
  elf_shstrtab :: "bytes option"
  elf_header :: header

datatype elf_error = Not_Enough_Data | Invalid_Magic | Invalid_Architecture

definition sections :: "'s goblin \<Rightarrow> elf \<Rightarrow> section_header list" where
  "sections gb e =
    map (\<lambda>i. section_header_at gb (elf_data e) (uadd (e_shoff (elf_header e)) (umul i (e_shentsize (elf_header e)))))
      [0..<e_shnum (elf_header e)]"

definition segments :: "'s goblin \<Rightarrow> elf \<Rightarrow> program_header list" where
  "segments gb e =
    map (\<lambda>i. program_header_at gb (elf_data e) (uadd (e_phoff (elf_header e)) (umul i (e_phentsize (elf_header e)))))
      [0..<e_phnum (elf_header e)]"

definition section_data :: "bytes \<Rightarrow> section_header \<Rightarrow> bytes rust" where
  "section_data data h = slice data (sh_offset h) (uadd (sh_offset h) (sh_size h))"

text \<open>The data of a section that was searched for, if it was found.\<close>

definition found_data :: "bytes \<Rightarrow> section_header option \<Rightarrow> bytes option rust" where
  "found_data data h = (case h of None \<Rightarrow> Some None | Some h \<Rightarrow> map_option Some (section_data data h))"

definition nth_section :: "section_header list \<Rightarrow> nat \<Rightarrow> section_header option" where
  "nth_section hs n = (if n < length hs then Some (hs ! n) else None)"

definition elf_from :: "'s goblin \<Rightarrow> bytes \<Rightarrow> (elf_error + elf) rust" where
  "elf_from gb data =
    (if length data < SIZEOF_EHDR gb then Some (Inl Not_Enough_Data)
     else do {
       magic \<leftarrow> slice data 0 (length (ELFMAG gb));
       if magic \<noteq> ELFMAG gb then Some (Inl Invalid_Magic)
       else if \<not> (EI_CLASS gb < length data \<and> data ! EI_CLASS gb = ELFCLASS gb) then Some (Inl Invalid_Architecture)
       else do {
         let ef = \<lparr> elf_data = data, elf_strtab = None, elf_shstrtab = None, elf_header = header_of gb data \<rparr>;
         strtab \<leftarrow> found_data data (find (\<lambda>h. sh_type h = SHT_STRTAB gb) (sections gb ef));
         shstrtab \<leftarrow> found_data data (nth_section (sections gb ef) (e_shstrndx (elf_header ef)));
         Some (Inr (ef\<lparr>elf_strtab := strtab, elf_shstrtab := shstrtab\<rparr>)) } })"

subsection \<open>Names\<close>

text \<open>The loop that looks for the end of a name: the position behind the first zero byte, or the end of
  the table.\<close>

function string_end :: "bytes \<Rightarrow> usize \<Rightarrow> usize" where
  "string_end tab e =
    (if e < length tab then (if tab ! e = 0 then Suc e else string_end tab (Suc e)) else e)"
  by pat_completeness auto
termination
  by (relation "measure (\<lambda>(tab, e). length tab - e)") auto

declare string_end.simps [simp del]

definition lookup_name :: "bytes option \<Rightarrow> usize \<Rightarrow> bytes option rust" where
  "lookup_name tab i =
    (case tab of
       None \<Rightarrow> Some None
     | Some tab \<Rightarrow>
         if string_end tab i > i then map_option Some (slice tab i (string_end tab i - 1)) else Some None)"

definition lookup_section_name :: "elf \<Rightarrow> usize \<Rightarrow> bytes option rust" where
  "lookup_section_name e i = map_option (\<lambda>name. Option.bind name from_utf8) (lookup_name (elf_shstrtab e) i)"

definition lookup_symbol_name :: "elf \<Rightarrow> usize \<Rightarrow> bytes option rust" where
  "lookup_symbol_name e i = lookup_name (elf_strtab e) i"

text \<open>The bytes of \<open>.manifest\<close>.\<close>

definition manifest_name :: bytes where
  "manifest_name = [46, 109, 97, 110, 105, 102, 101, 115, 116]"

fun manifest_in :: "elf \<Rightarrow> section_header list \<Rightarrow> bytes option rust" where
  "manifest_in e [] = Some None"
| "manifest_in e (h # hs) = do {
     name \<leftarrow> lookup_section_name e (sh_name h);
     case name of
       None \<Rightarrow> Some None
     | Some name \<Rightarrow>
         if name = manifest_name then map_option Some (section_data (elf_data e) h)
         else manifest_in e hs }"

definition section_data_by_name :: "'s goblin \<Rightarrow> elf \<Rightarrow> bytes option rust" where
  "section_data_by_name gb e = manifest_in e (sections gb e)"

subsection \<open>Symbols\<close>

definition symbol_list :: "'s goblin \<Rightarrow> bytes \<Rightarrow> section_header \<Rightarrow> 's list rust" where
  "symbol_list gb data symtab =
    (if SIZEOF_SYM gb = 0 then panic
     else Some (map (\<lambda>i. sym_at gb data (uadd (sh_offset symtab) (umul i (SIZEOF_SYM gb))))
       [0..<sh_size symtab div SIZEOF_SYM gb]))"

definition symbols :: "'s goblin \<Rightarrow> elf \<Rightarrow> 's list option rust" where
  "symbols gb e =
    (case find (\<lambda>h. sh_type h = SHT_SYMTAB gb) (sections gb e) of
       None \<Rightarrow> Some None
     | Some symtab \<Rightarrow> map_option Some (symbol_list gb (elf_data e) symtab))"

definition elf_entry :: "elf \<Rightarrow> usize" where
  "elf_entry e = e_entry (elf_header e)"

subsection \<open>Names in well-formed tables\<close>

lemma string_end_step:
  "e < length tab \<Longrightarrow> string_end tab e = (if tab ! e = 0 then Suc e else string_end tab (Suc e))"
  "length tab \<le> e \<Longrightarrow> string_end tab e = e"
  by (simp_all add: string_end.simps [of tab e])

lemma string_end_bounds:
  "e \<le> string_end tab e" "e \<le> length tab \<Longrightarrow> string_end tab e \<le> length tab"
proof (induction tab e rule: string_end.induct)
  case (1 tab e)
  {
    case 1
    show ?case using "1.IH"(1) by (cases "e < length tab") (auto simp: string_end_step)
  next
    case 2
    then show ?case using "1.IH"(2) by (cases "e < length tab") (auto simp: string_end_step)
  }
qed

lemma string_end_gt: "i < length tab \<Longrightarrow> i < string_end tab i"
  using string_end_bounds(1) [of "Suc i" tab] by (auto simp: string_end_step)

lemma string_end_zero:
  assumes "0 \<notin> set name"
  shows "string_end (pre @ name @ 0 # post) (length pre) = length pre + length name + 1"
  using assms
proof (induction name arbitrary: pre)
  case Nil
  then show ?case by (simp add: string_end_step)
next
  case (Cons b name)
  then show ?case
    using Cons.IH [of "pre @ [b]"] by (simp add: string_end_step(1) [of "length pre"])
qed

text \<open>A name ends at its zero byte.  One that runs to the end of the table loses its last byte.\<close>

lemma lookup_name_terminated:
  assumes "0 \<notin> set name"
  shows "lookup_name (Some (pre @ name @ 0 # post)) (length pre) = Some (Some name)"
  using assms by (simp add: lookup_name_def string_end_zero slice_def)

lemma string_end_unterminated:
  assumes "0 \<notin> set (drop i tab)" "i \<le> length tab"
  shows "string_end tab i = length tab"
  using assms
proof (induction tab i rule: string_end.induct)
  case (1 tab e)
  show ?case
  proof (cases "e < length tab")
    case True
    then have "drop e tab = tab ! e # drop (Suc e) tab" by (rule Cons_nth_drop_Suc [symmetric])
    then have "tab ! e \<noteq> 0" "0 \<notin> set (drop (Suc e) tab)" using 1(2) by auto
    then show ?thesis using 1(1) True by (simp add: string_end_step)
  next
    case False
    then show ?thesis using 1(3) by (simp add: string_end_step)
  qed
qed

lemma lookup_name_unterminated:
  assumes "0 \<notin> set name" "name \<noteq> []"
  shows "lookup_name (Some (pre @ name)) (length pre) = Some (Some (butlast name))"
proof -
  have "string_end (pre @ name) (length pre) = length pre + length name"
    using string_end_unterminated [of "length pre" "pre @ name"] assms by simp
  moreover obtain n where "length name = Suc n" using assms(2) by (cases name) simp_all
  ultimately show ?thesis by (simp add: lookup_name_def slice_def butlast_conv_take)
qed

lemma lookup_name_returns: "returns (lookup_name tab i)"
proof (cases tab)
  case (Some t)
  show ?thesis
  proof (cases "i < length t")
    case True
    then show ?thesis using string_end_gt [OF True] string_end_bounds(2) [of i t] Some by (auto simp: lookup_name_def slice_def)
  next
    case False
    then show ?thesis using Some by (simp add: lookup_name_def string_end_step)
  qed
qed (simp add: lookup_name_def)

text \<open>The manifest is the first section with its name, when every section before it has a name.\<close>

lemma manifest_in_first:
  assumes "\<forall>h \<in> set before. \<exists>name. lookup_section_name e (sh_name h) = Some (Some name) \<and> name \<noteq> manifest_name"
    and "lookup_section_name e (sh_name h) = Some (Some manifest_name)"
  shows "manifest_in e (before @ h # after) = map_option Some (section_data (elf_data e) h)"
  using assms by (induction before) auto

lemma manifest_in_hidden:
  assumes "lookup_section_name e (sh_name h) = Some None"
  shows "manifest_in e (h # after) = Some None"
  using assms by simp

end
