(* ===== verification/Load.thy ===== *)
theory Load
  imports Elf User_Memory
begin

text \<open>
  Loading of modules, kernel/src/context/load.rs: the check of the segments, the memory of each loadable
  segment with its protection and contents, the function table, and the cache of modules.

  \<^item> The manifest is decoded by the serde_json_core crate, the argument \<open>json\<close>.  The files of the initial
    file system are generated by the build, the argument \<open>initfs\<close>.
  \<^item> A loaded section is its context memory and the bytes that the frames of it hold.  What a kernel mapping
    of fresh frames shows is the argument \<open>junk\<close>, which takes the number of bytes.
\<close>

subsection \<open>Modules\<close>

record symbol_table_entry =
  ste_name :: bytes
  ste_offset :: usize
  ste_visibility :: usize
  ste_abi :: usize

record manifest =
  mf_name :: bytes
  symbol_table :: "symbol_table_entry list"

record loaded_section =
  sec_memory :: context_memory
  sec_data :: bytes

record module =
  mod_name :: bytes
  func_table :: "bytes \<rightharpoonup> usize"
  mod_image :: "loaded_section list"
  actions :: "usize \<rightharpoonup> usize"
  env :: "bytes \<rightharpoonup> bytes"
  bindings :: "usize \<rightharpoonup> usize"

datatype load_error = Failed_To_Parse | Above_Permitted | No_Manifest | Bad_Manifest | No_Such_Module

definition module_function :: "module \<Rightarrow> bytes \<Rightarrow> usize option" where
  "module_function md name = func_table md name"

definition KERNEL_MODULE :: module where
  "KERNEL_MODULE = \<lparr> mod_name = [107, 101, 114, 110, 101, 108], func_table = Map.empty, mod_image = [],
     actions = Map.empty, env = Map.empty, bindings = Map.empty \<rparr>"

definition load_manifest :: "'s goblin \<Rightarrow> (bytes \<Rightarrow> manifest option) \<Rightarrow> elf \<Rightarrow> (load_error + manifest) rust" where
  "load_manifest gb json e = do {
     data \<leftarrow> section_data_by_name gb e;
     Some (case data of
       None \<Rightarrow> Inl No_Manifest
     | Some data \<Rightarrow> (case json data of None \<Rightarrow> Inl Bad_Manifest | Some mf \<Rightarrow> Inr mf)) }"

subsection \<open>Segments\<close>

definition segment_voff :: "program_header \<Rightarrow> usize" where
  "segment_voff seg = p_vaddr seg mod 4096"

definition segment_vaddr :: "program_header \<Rightarrow> usize" where
  "segment_vaddr seg = p_vaddr seg - segment_voff seg"

definition segment_size :: "program_header \<Rightarrow> usize" where
  "segment_size seg = uadd (p_memsz seg) (segment_voff seg)"

definition segment_pages :: "program_header \<Rightarrow> usize" where
  "segment_pages seg = (uadd (segment_size seg) 4095 div 4096 * 4096) div 4096"

definition segment_flags :: "'s goblin \<Rightarrow> program_header \<Rightarrow> entry_flags" where
  "segment_flags gb seg =
    (let flags = NO_EXECUTE OR USER_ACCESSIBLE;
         flags = (if p_flags seg AND PF_R gb = PF_R gb then flags OR PRESENT else flags) in
     if p_flags seg AND PF_X gb = PF_X gb then flags AND NOT NO_EXECUTE
     else if p_flags seg AND PF_W gb = PF_W gb then flags OR WRITABLE
     else flags)"

definition above_permitted :: "'s goblin \<Rightarrow> program_header \<Rightarrow> bool" where
  "above_permitted gb seg \<longleftrightarrow> p_type seg = PT_LOAD gb \<and> segment_vaddr seg \<ge> unat USER_ARG_OFFSET"

text \<open>The loop that clears the bytes of a range.\<close>

definition zero_range :: "bytes \<Rightarrow> usize \<Rightarrow> usize \<Rightarrow> bytes rust" where
  "zero_range mem i j = fold (\<lambda>k m. Option.bind m (\<lambda>mem. set_index mem k 0)) [i..<j] (Some mem)"

definition load_bytes :: "bytes \<Rightarrow> program_header \<Rightarrow> bytes \<Rightarrow> bytes rust" where
  "load_bytes data seg mem = do {
     mem \<leftarrow> zero_range mem 0 (segment_voff seg);
     mem \<leftarrow> with_slice mem (segment_voff seg) (segment_size seg) (\<lambda>w. do {
       file \<leftarrow> slice data (p_offset seg) (uadd (p_offset seg) (p_filesz seg));
       copy_from_slice w file });
     zero_range mem (segment_size seg) (length mem) }"

definition load_segment :: "'s goblin \<Rightarrow> 'a alloc_fn \<Rightarrow> (usize \<Rightarrow> bytes) \<Rightarrow> bytes \<Rightarrow> 'a vm \<Rightarrow> block list \<Rightarrow>
    program_header \<Rightarrow> ('a vm \<times> block list \<times> loaded_section) rust" where
  "load_segment gb al junk data m free seg = do {
     (m, c) \<leftarrow> context_memory_new al m (segment_pages seg) (segment_vaddr seg) (segment_flags gb seg);
     c \<leftarrow> c;
     (m, free, c, _) \<leftarrow> map_to_kernel al m free c (WRITABLE OR NO_EXECUTE);
     _ \<leftarrow> valloc_mapping c;
     mem \<leftarrow> load_bytes data seg (junk (len_bytes c));
     Some (m, free, \<lparr> sec_memory = c, sec_data = mem \<rparr>) }"

fun load_segments :: "'s goblin \<Rightarrow> 'a alloc_fn \<Rightarrow> (usize \<Rightarrow> bytes) \<Rightarrow> bytes \<Rightarrow> 'a vm \<Rightarrow> block list \<Rightarrow>
    program_header list \<Rightarrow> ('a vm \<times> block list \<times> loaded_section list) rust" where
  "load_segments gb al junk data m free [] = Some (m, free, [])"
| "load_segments gb al junk data m free (seg # segs) =
    (if p_type seg \<noteq> PT_LOAD gb then load_segments gb al junk data m free segs
     else do {
       (m, free, sec) \<leftarrow> load_segment gb al junk data m free seg;
       (m, free, secs) \<leftarrow> load_segments gb al junk data m free segs;
       Some (m, free, sec # secs) })"

definition function_table :: "symbol_table_entry list \<Rightarrow> (bytes \<rightharpoonup> usize)" where
  "function_table es = fold (\<lambda>e t. t(ste_name e \<mapsto> ste_offset e)) es Map.empty"

definition load :: "'s goblin \<Rightarrow> (bytes \<Rightarrow> manifest option) \<Rightarrow> 'a alloc_fn \<Rightarrow> (usize \<Rightarrow> bytes) \<Rightarrow>
    'a vm \<Rightarrow> block list \<Rightarrow> bytes \<Rightarrow> ('a vm \<times> block list \<times> (load_error + module)) rust" where
  "load gb json al junk m free data = do {
     e \<leftarrow> elf_from gb data;
     case e of
       Inl _ \<Rightarrow> Some (m, free, Inl Failed_To_Parse)
     | Inr e \<Rightarrow>
         if list_ex (above_permitted gb) (segments gb e) then Some (m, free, Inl Above_Permitted)
         else do {
           mf \<leftarrow> load_manifest gb json e;
           case mf of
             Inl err \<Rightarrow> Some (m, free, Inl err)
           | Inr mf \<Rightarrow> do {
               (m, free, secs) \<leftarrow> load_segments gb al junk (elf_data e) m free (segments gb e);
               Some (m, free, Inr \<lparr> mod_name = mf_name mf, func_table = function_table (symbol_table mf), mod_image = secs,
                 actions = Map.empty, env = Map.empty, bindings = Map.empty \<rparr>) } } }"

subsection \<open>The cache of modules\<close>

type_synonym module_cache = "bytes \<rightharpoonup> module"

definition MODULE_CACHE :: module_cache where
  "MODULE_CACHE = Map.empty(mod_name KERNEL_MODULE \<mapsto> KERNEL_MODULE)"

definition cached_module :: "module_cache \<Rightarrow> bytes \<Rightarrow> module option" where
  "cached_module cache name = cache name"

definition load_and_cache :: "'s goblin \<Rightarrow> (bytes \<Rightarrow> manifest option) \<Rightarrow> 'a alloc_fn \<Rightarrow> (usize \<Rightarrow> bytes) \<Rightarrow>
    'a vm \<Rightarrow> block list \<Rightarrow> module_cache \<Rightarrow> bytes \<Rightarrow>
    ('a vm \<times> block list \<times> module_cache \<times> (load_error + module)) rust" where
  "load_and_cache gb json al junk m free cache data = do {
     (m, free, r) \<leftarrow> load gb json al junk m free data;
     Some (case r of
       Inl err \<Rightarrow> (m, free, cache, Inl err)
     | Inr md \<Rightarrow> (m, free, cache(mod_name md \<mapsto> md), Inr md)) }"

definition initfs_module :: "'s goblin \<Rightarrow> (bytes \<Rightarrow> manifest option) \<Rightarrow> 'a alloc_fn \<Rightarrow> (usize \<Rightarrow> bytes) \<Rightarrow>
    (bytes \<rightharpoonup> bytes) \<Rightarrow> 'a vm \<Rightarrow> block list \<Rightarrow> module_cache \<Rightarrow> bytes \<Rightarrow>
    ('a vm \<times> block list \<times> module_cache \<times> (load_error + module)) rust" where
  "initfs_module gb json al junk initfs m free cache name =
    (case cached_module cache name of
       Some md \<Rightarrow> Some (m, free, cache, Inr md)
     | None \<Rightarrow>
         (case initfs name of
            None \<Rightarrow> Some (m, free, cache, Inl No_Such_Module)
          | Some data \<Rightarrow> load_and_cache gb json al junk m free cache data))"

end
