(* ===== verification/Slab.thy ===== *)
theory Slab
  imports Consts
begin

text \<open>
  The slab heap of the kernel, kernel/slab_allocator: lists of free blocks, slabs of blocks of one size, and
  the heap that picks a slab by size and alignment, or the linked list allocator for large requests.

  \<^item> A list of free blocks is the list of their addresses; the links stand in the free blocks themselves,
    which nobody else uses.
  \<^item> The seven slabs of a heap are one field, a function of the slab.
  \<^item> The linked_list_allocator crate is the argument \<open>ll\<close>.
\<close>

subsection \<open>Lists of free blocks\<close>

record free_block_list =
  fl_len :: usize
  fl_blocks :: "usize list"

definition fl_pop :: "free_block_list \<Rightarrow> free_block_list \<times> usize option" where
  "fl_pop l =
    (case fl_blocks l of
       [] \<Rightarrow> (l, None)
     | b # bs \<Rightarrow> (\<lparr> fl_len = usub (fl_len l) 1, fl_blocks = bs \<rparr>, Some b))"

definition fl_push :: "usize \<Rightarrow> free_block_list \<Rightarrow> free_block_list" where
  "fl_push b l = \<lparr> fl_len = uadd (fl_len l) 1, fl_blocks = b # fl_blocks l \<rparr>"

definition fl_new :: "usize \<Rightarrow> usize \<Rightarrow> usize \<Rightarrow> free_block_list" where
  "fl_new start_addr block num_of_blocks =
    fold (\<lambda>i. fl_push (uadd start_addr (umul i block))) (rev [0..<num_of_blocks]) \<lparr> fl_len = 0, fl_blocks = [] \<rparr>"

subsection \<open>Slabs\<close>

record slab =
  block_size :: usize
  free_list :: free_block_list

definition slab_new :: "usize \<Rightarrow> usize \<Rightarrow> usize \<Rightarrow> slab" where
  "slab_new start_addr slab_size block =
    \<lparr> block_size = block, free_list = fl_new start_addr block (slab_size div block) \<rparr>"

definition used_blocks :: "slab \<Rightarrow> usize" where
  "used_blocks s = fl_len (free_list s)"

text \<open>The blocks are popped from the new list and pushed one by one.\<close>

definition slab_grow :: "slab \<Rightarrow> usize \<Rightarrow> usize \<Rightarrow> slab" where
  "slab_grow s start_addr slab_size =
    s\<lparr>free_list := fold fl_push (fl_blocks (fl_new start_addr (block_size s) (slab_size div block_size s))) (free_list s)\<rparr>"

definition slab_allocate :: "slab \<Rightarrow> slab \<times> usize option" where
  "slab_allocate s = (let (l, b) = fl_pop (free_list s) in (s\<lparr>free_list := l\<rparr>, b))"

definition slab_deallocate :: "slab \<Rightarrow> usize \<Rightarrow> slab" where
  "slab_deallocate s ptr = s\<lparr>free_list := fl_push ptr (free_list s)\<rparr>"

subsection \<open>The heap\<close>

datatype slab_id = Slab64Bytes | Slab128Bytes | Slab256Bytes | Slab512Bytes | Slab1024Bytes | Slab2048Bytes | Slab4096Bytes

datatype heap_allocator = In_Slab slab_id | LinkedListAllocator

record layout =
  lay_size :: usize
  lay_align :: usize

record 'l heap =
  slabs :: "slab_id \<Rightarrow> slab"
  linked_list_allocator :: 'l

record 'l linked_list =
  ll_new :: "usize \<Rightarrow> usize \<Rightarrow> 'l"
  ll_extend :: "'l \<Rightarrow> usize \<Rightarrow> 'l"
  ll_allocate :: "'l \<Rightarrow> layout \<Rightarrow> 'l \<times> usize option"
  ll_deallocate :: "'l \<Rightarrow> usize \<Rightarrow> layout \<Rightarrow> 'l"

abbreviation (input) NUM_OF_SLABS :: usize where "NUM_OF_SLABS \<equiv> 8"
abbreviation (input) MIN_HEAP_SIZE :: usize where "MIN_HEAP_SIZE \<equiv> NUM_OF_SLABS * 4096"

text \<open>The place of a slab in the heap and the size of its blocks.\<close>

fun slab_place :: "slab_id \<Rightarrow> nat \<times> usize" where
  "slab_place Slab64Bytes = (0, 64)"
| "slab_place Slab128Bytes = (1, 128)"
| "slab_place Slab256Bytes = (2, 256)"
| "slab_place Slab512Bytes = (3, 512)"
| "slab_place Slab1024Bytes = (4, 1024)"
| "slab_place Slab2048Bytes = (5, 2048)"
| "slab_place Slab4096Bytes = (6, 4096)"

definition heap_new :: "'l linked_list \<Rightarrow> usize \<Rightarrow> usize \<Rightarrow> 'l heap rust" where
  "heap_new ll heap_start_addr heap_size =
    (if heap_start_addr mod 4096 \<noteq> 0 then panic
     else if \<not> heap_size \<ge> MIN_HEAP_SIZE then panic
     else if heap_size mod MIN_HEAP_SIZE \<noteq> 0 then panic
     else let slab_size = heap_size div NUM_OF_SLABS in
       Some \<lparr> slabs = (\<lambda>k. slab_new (uadd heap_start_addr (umul (fst (slab_place k)) slab_size)) slab_size (snd (slab_place k))),
              linked_list_allocator = ll_new ll (uadd heap_start_addr (umul 7 slab_size)) slab_size \<rparr>)"

definition heap_grow :: "'l linked_list \<Rightarrow> 'l heap \<Rightarrow> usize \<Rightarrow> usize \<Rightarrow> heap_allocator \<Rightarrow> 'l heap" where
  "heap_grow ll h mem_start_addr mem_size a =
    (case a of
       In_Slab k \<Rightarrow> h\<lparr>slabs := (slabs h)(k := slab_grow (slabs h k) mem_start_addr mem_size)\<rparr>
     | LinkedListAllocator \<Rightarrow> h\<lparr>linked_list_allocator := ll_extend ll (linked_list_allocator h) mem_size\<rparr>)"

definition layout_to_allocator :: "layout \<Rightarrow> heap_allocator" where
  "layout_to_allocator lay =
    (if lay_size lay > 4096 then LinkedListAllocator
     else if lay_size lay \<le> 64 \<and> lay_align lay \<le> 64 then In_Slab Slab64Bytes
     else if lay_size lay \<le> 128 \<and> lay_align lay \<le> 128 then In_Slab Slab128Bytes
     else if lay_size lay \<le> 256 \<and> lay_align lay \<le> 256 then In_Slab Slab256Bytes
     else if lay_size lay \<le> 512 \<and> lay_align lay \<le> 512 then In_Slab Slab512Bytes
     else if lay_size lay \<le> 1024 \<and> lay_align lay \<le> 1024 then In_Slab Slab1024Bytes
     else if lay_size lay \<le> 2048 \<and> lay_align lay \<le> 2048 then In_Slab Slab2048Bytes
     else In_Slab Slab4096Bytes)"

definition heap_allocate :: "'l linked_list \<Rightarrow> 'l heap \<Rightarrow> layout \<Rightarrow> 'l heap \<times> usize option" where
  "heap_allocate ll h lay =
    (case layout_to_allocator lay of
       In_Slab k \<Rightarrow> (let (s, p) = slab_allocate (slabs h k) in (h\<lparr>slabs := (slabs h)(k := s)\<rparr>, p))
     | LinkedListAllocator \<Rightarrow>
         (let (l, p) = ll_allocate ll (linked_list_allocator h) lay in (h\<lparr>linked_list_allocator := l\<rparr>, p)))"

definition heap_deallocate :: "'l linked_list \<Rightarrow> 'l heap \<Rightarrow> usize \<Rightarrow> layout \<Rightarrow> 'l heap" where
  "heap_deallocate ll h ptr lay =
    (case layout_to_allocator lay of
       In_Slab k \<Rightarrow> h\<lparr>slabs := (slabs h)(k := slab_deallocate (slabs h k) ptr)\<rparr>
     | LinkedListAllocator \<Rightarrow> h\<lparr>linked_list_allocator := ll_deallocate ll (linked_list_allocator h) ptr lay\<rparr>)"

definition usable_size :: "layout \<Rightarrow> usize \<times> usize" where
  "usable_size lay =
    (case layout_to_allocator lay of
       In_Slab k \<Rightarrow> (lay_size lay, snd (slab_place k))
     | LinkedListAllocator \<Rightarrow> (lay_size lay, lay_size lay))"

text \<open>Runs: every order of allocations and releases, each of what was allocated, with the layout of
  each live block that a slab has given out.\<close>

inductive heap_run :: "'l linked_list \<Rightarrow> 'l heap \<Rightarrow> 'l heap \<Rightarrow> (usize \<rightharpoonup> layout) \<Rightarrow> bool" for ll h0 where
  run_start: "heap_run ll h0 h0 Map.empty"
| run_alloc: "heap_run ll h0 h L \<Longrightarrow> layout_to_allocator lay = In_Slab k \<Longrightarrow> heap_allocate ll h lay = (h', Some p) \<Longrightarrow>
    heap_run ll h0 h' (L(p \<mapsto> lay))"
| run_full: "heap_run ll h0 h L \<Longrightarrow> layout_to_allocator lay = In_Slab k \<Longrightarrow> heap_allocate ll h lay = (h', None) \<Longrightarrow>
    heap_run ll h0 h' L"
| run_dealloc: "heap_run ll h0 h L \<Longrightarrow> L p = Some lay \<Longrightarrow>
    heap_run ll h0 (heap_deallocate ll h p lay) (L(p := None))"
| run_large: "heap_run ll h0 h L \<Longrightarrow> layout_to_allocator lay = LinkedListAllocator \<Longrightarrow> heap_allocate ll h lay = (h', r) \<Longrightarrow>
    heap_run ll h0 h' L"
| run_large_free: "heap_run ll h0 h L \<Longrightarrow> layout_to_allocator lay = LinkedListAllocator \<Longrightarrow>
    heap_run ll h0 (heap_deallocate ll h p lay) L"

subsection \<open>Fresh slabs\<close>

lemma slab_place_range: "fst (slab_place k) \<le> 6" "snd (slab_place k) dvd 4096" "0 < snd (slab_place k)"
  by (cases k; simp)+

lemma slab_place_inj: "fst (slab_place j) = fst (slab_place k) \<longleftrightarrow> j = k"
  by (cases j; cases k; simp)

lemma fl_new_blocks: "fl_blocks (fl_new a b n) = map (\<lambda>i. uadd a (umul i b)) [0..<n]"
proof -
  have "fl_blocks (fold (\<lambda>i. fl_push (f i)) is l) = rev (map f is) @ fl_blocks l" for f :: "nat \<Rightarrow> nat" and "is" l
    by (induction "is" arbitrary: l) (simp_all add: fl_push_def)
  then show ?thesis by (simp add: fl_new_def rev_map)
qed

lemma allocator_size:
  assumes "layout_to_allocator lay = In_Slab k"
  shows "lay_size lay \<le> snd (slab_place k)" "lay_align lay \<le> 4096 \<Longrightarrow> lay_align lay \<le> snd (slab_place k)"
  using assms by (auto simp: layout_to_allocator_def split: if_splits)

text \<open>The blocks of a heap with \<open>n\<close> bytes for each slab.\<close>

definition slab_blocks :: "usize \<Rightarrow> nat \<Rightarrow> slab_id \<Rightarrow> nat set" where
  "slab_blocks start n k =
    {start + fst (slab_place k) * n + i * snd (slab_place k) | i. i < n div snd (slab_place k)}"

lemma block_bounds:
  assumes "p \<in> slab_blocks start n k"
  shows "start + fst (slab_place k) * n \<le> p" "p + snd (slab_place k) \<le> start + Suc (fst (slab_place k)) * n"
proof -
  obtain i where i: "p = start + fst (slab_place k) * n + i * snd (slab_place k)" "i < n div snd (slab_place k)"
    using assms by (auto simp: slab_blocks_def)
  have "Suc i * snd (slab_place k) \<le> n div snd (slab_place k) * snd (slab_place k)" using i(2) by (intro mult_le_mono1) simp
  also have "\<dots> \<le> n" by simp
  finally show "p + snd (slab_place k) \<le> start + Suc (fst (slab_place k)) * n" unfolding i(1) by simp
  show "start + fst (slab_place k) * n \<le> p" unfolding i(1) by simp
qed

lemma blocks_separate:
  assumes p: "p \<in> slab_blocks start n j" and q: "q \<in> slab_blocks start n k" and ne: "p \<noteq> q"
  shows "p + snd (slab_place j) \<le> q \<or> q + snd (slab_place k) \<le> p"
proof (cases "j = k")
  case True
  obtain a b where "p = start + fst (slab_place k) * n + a * snd (slab_place k)"
      "q = start + fst (slab_place k) * n + b * snd (slab_place k)"
    using p q True by (auto simp: slab_blocks_def)
  moreover from this ne have "Suc a \<le> b \<or> Suc b \<le> a" by (metis Suc_leI linorder_neqE_nat)
  then have "Suc a * snd (slab_place k) \<le> b * snd (slab_place k) \<or> Suc b * snd (slab_place k) \<le> a * snd (slab_place k)"
    by (meson mult_le_mono1)
  ultimately show ?thesis using True by auto
next
  case False
  then have "Suc (fst (slab_place j)) \<le> fst (slab_place k) \<or> Suc (fst (slab_place k)) \<le> fst (slab_place j)"
    using slab_place_inj [of j k] by linarith
  then have "Suc (fst (slab_place j)) * n \<le> fst (slab_place k) * n \<or> Suc (fst (slab_place k)) * n \<le> fst (slab_place j) * n"
    by (meson mult_le_mono1)
  then show ?thesis using block_bounds [OF p] block_bounds [OF q] by linarith
qed

lemma block_aligned:
  assumes "p \<in> slab_blocks start n k" "4096 dvd start" "4096 dvd n"
  shows "snd (slab_place k) dvd p"
proof -
  have "snd (slab_place k) dvd start" "snd (slab_place k) dvd n"
    using dvd_trans [OF slab_place_range(2)] assms(2,3) by blast+
  then show ?thesis using assms(1) by (auto simp: slab_blocks_def)
qed

lemma blocks_one_slab:
  assumes "p \<in> slab_blocks start n j" "p \<in> slab_blocks start n k"
  shows "j = k"
proof (rule ccontr)
  assume "j \<noteq> k"
  then have "Suc (fst (slab_place j)) \<le> fst (slab_place k) \<or> Suc (fst (slab_place k)) \<le> fst (slab_place j)"
    using slab_place_inj [of j k] by linarith
  then have "Suc (fst (slab_place j)) * n \<le> fst (slab_place k) * n \<or> Suc (fst (slab_place k)) * n \<le> fst (slab_place j) * n"
    by (meson mult_le_mono1)
  then show False
    using block_bounds [OF assms(1)] block_bounds [OF assms(2)] slab_place_range(3) [of j] slab_place_range(3) [of k] by linarith
qed

lemma card_slab_blocks: "card (slab_blocks start n k) = n div snd (slab_place k)"
proof -
  have "slab_blocks start n k = (\<lambda>i. start + fst (slab_place k) * n + i * snd (slab_place k)) ` {..<n div snd (slab_place k)}"
    by (auto simp: slab_blocks_def)
  moreover have "inj_on (\<lambda>i. start + fst (slab_place k) * n + i * snd (slab_place k)) {..<n div snd (slab_place k)}"
    using slab_place_range(3) [of k] by (auto intro!: inj_onI)
  ultimately show ?thesis by (simp add: card_image)
qed

subsection \<open>The invariant of a heap\<close>

definition free_blocks :: "'l heap \<Rightarrow> slab_id \<Rightarrow> usize list" where
  "free_blocks h k = fl_blocks (free_list (slabs h k))"

definition live_blocks :: "(usize \<rightharpoonup> layout) \<Rightarrow> slab_id \<Rightarrow> usize set" where
  "live_blocks L k = {p. \<exists>lay. L p = Some lay \<and> layout_to_allocator lay = In_Slab k}"

text \<open>The blocks of each slab are either free, once, or live.\<close>

definition heap_inv :: "usize \<Rightarrow> nat \<Rightarrow> 'l heap \<Rightarrow> (usize \<rightharpoonup> layout) \<Rightarrow> bool" where
  "heap_inv start n h L \<longleftrightarrow> (\<forall>lay \<in> ran L. layout_to_allocator lay \<noteq> LinkedListAllocator) \<and>
    (\<forall>k. distinct (free_blocks h k) \<and> set (free_blocks h k) \<union> live_blocks L k = slab_blocks start n k \<and>
      set (free_blocks h k) \<inter> live_blocks L k = {})"

lemma heap_new_inv:
  assumes "heap_new ll start sz = Some h" "start + sz \<le> 2 ^ 64"
  shows "heap_inv start (sz div 8) h Map.empty" "4096 dvd start" "4096 dvd sz div 8"
proof -
  let ?n = "sz div 8"
  have h: "4096 dvd start" "MIN_HEAP_SIZE dvd sz"
    "slabs h = (\<lambda>k. slab_new (uadd start (umul (fst (slab_place k)) ?n)) ?n (snd (slab_place k)))"
    using assms(1) by (auto simp: heap_new_def Let_def mod_eq_0_iff_dvd split: if_splits)
  show "4096 dvd start" by (fact h(1))
  show "4096 dvd ?n" using h(2) by (auto elim!: dvdE)
  have blocks: "free_blocks h k = map (\<lambda>i. start + fst (slab_place k) * ?n + i * snd (slab_place k)) [0..<?n div snd (slab_place k)]" for k
  proof -
    have "8 * ?n \<le> sz" by simp
    moreover have "0 < sz" using assms(1) by (auto simp: heap_new_def split: if_splits)
    then have "0 < ?n" using h(2) by (auto elim!: dvdE)
    moreover have "fst (slab_place k) * ?n \<le> 6 * ?n" using slab_place_range(1) by (rule mult_le_mono1)
    ultimately have top: "start + fst (slab_place k) * ?n + ?n < 2 ^ 64" using assms(2) by linarith
    have "uadd (uadd start (umul (fst (slab_place k)) ?n)) (umul i (snd (slab_place k))) =
        start + fst (slab_place k) * ?n + i * snd (slab_place k)" if "i < ?n div snd (slab_place k)" for i
    proof -
      have "i * snd (slab_place k) \<le> ?n div snd (slab_place k) * snd (slab_place k)" using that by (intro mult_le_mono1) simp
      also have "\<dots> \<le> ?n" by simp
      finally show ?thesis using top by (simp add: uadd_def umul_def)
    qed
    then show ?thesis by (simp add: free_blocks_def h(3) slab_new_def fl_new_blocks)
  qed
  have "distinct (free_blocks h k)" for k
    unfolding blocks using slab_place_range(3) [of k] by (auto simp: distinct_map intro!: inj_onI)
  moreover have "set (free_blocks h k) = slab_blocks start ?n k" for k unfolding blocks by (auto simp: slab_blocks_def)
  ultimately show "heap_inv start ?n h Map.empty" by (simp add: heap_inv_def live_blocks_def)
qed

lemma live_upd:
  "layout_to_allocator lay = In_Slab k \<Longrightarrow> p \<notin> live_blocks L j \<or> j = k \<Longrightarrow>
    live_blocks (L(p \<mapsto> lay)) j = (if j = k then insert p (live_blocks L j) else live_blocks L j)"
  by (auto simp: live_blocks_def)

lemma live_del: "live_blocks (L(p := None)) j = live_blocks L j - {p}"
  by (auto simp: live_blocks_def)

lemma heap_alloc_inv:
  assumes inv: "heap_inv start n h L" and k: "layout_to_allocator lay = In_Slab k" and run: "heap_allocate ll h lay = (h', Some p)"
  shows "heap_inv start n h' (L(p \<mapsto> lay))"
proof -
  obtain bs where bs: "free_blocks h k = p # bs" "\<And>j. free_blocks h' j = (if j = k then bs else free_blocks h j)"
    using run k by (cases "free_blocks h k")
      (auto simp: heap_allocate_def slab_allocate_def fl_pop_def free_blocks_def split: list.splits)
  have here: "p \<in> slab_blocks start n k" "p \<notin> set bs" "p \<notin> live_blocks L k"
    using inv bs(1) unfolding heap_inv_def by (metis Un_iff list.set_intros(1), metis distinct.simps(2), metis IntI empty_iff list.set_intros(1))
  have "p \<notin> live_blocks L j \<or> j = k" for j
    using inv here(1) blocks_one_slab [of p start n j k] unfolding heap_inv_def by blast
  note live = live_upd [OF k this]
  have each: "distinct (free_blocks h j) \<and> set (free_blocks h j) \<union> live_blocks L j = slab_blocks start n j \<and>
      set (free_blocks h j) \<inter> live_blocks L j = {}" for j using inv unfolding heap_inv_def by blast
  have "distinct (free_blocks h' j) \<and> set (free_blocks h' j) \<union> live_blocks (L(p \<mapsto> lay)) j = slab_blocks start n j \<and>
      set (free_blocks h' j) \<inter> live_blocks (L(p \<mapsto> lay)) j = {}" for j
    using each [of j] here(2) unfolding live bs(2) by (cases "j = k") (auto simp: bs(1))
  moreover have "\<forall>l \<in> ran (L(p \<mapsto> lay)). layout_to_allocator l \<noteq> LinkedListAllocator"
    using inv k unfolding heap_inv_def by (auto simp: ran_def split: if_splits)
  ultimately show ?thesis unfolding heap_inv_def by blast
qed

lemma heap_dealloc_inv:
  assumes inv: "heap_inv start n h L" and p: "L p = Some lay"
  shows "heap_inv start n (heap_deallocate ll h p lay) (L(p := None))"
proof -
  have "lay \<in> ran L" using p by (rule ranI)
  then obtain k where k: "layout_to_allocator lay = In_Slab k"
    using inv by (cases "layout_to_allocator lay") (auto simp: heap_inv_def)
  let ?h = "heap_deallocate ll h p lay"
  have live: "p \<in> live_blocks L j \<longleftrightarrow> j = k" for j using p k by (auto simp: live_blocks_def)
  have free: "free_blocks ?h j = (if j = k then p # free_blocks h j else free_blocks h j)" for j
    by (simp add: heap_deallocate_def k slab_deallocate_def fl_push_def free_blocks_def)
  have each: "distinct (free_blocks h j) \<and> set (free_blocks h j) \<union> live_blocks L j = slab_blocks start n j \<and>
      set (free_blocks h j) \<inter> live_blocks L j = {}" for j using inv unfolding heap_inv_def by blast
  have "distinct (free_blocks ?h j) \<and> set (free_blocks ?h j) \<union> live_blocks (L(p := None)) j = slab_blocks start n j \<and>
      set (free_blocks ?h j) \<inter> live_blocks (L(p := None)) j = {}" for j
    using each [of j] live [of j] unfolding live_del free by (cases "j = k") auto
  moreover have "\<forall>l \<in> ran (L(p := None)). layout_to_allocator l \<noteq> LinkedListAllocator"
    using inv unfolding heap_inv_def by (auto simp: ran_def split: if_splits)
  ultimately show ?thesis unfolding heap_inv_def by blast
qed

lemma large_keeps:
  assumes "layout_to_allocator lay = LinkedListAllocator"
  shows "free_blocks (fst (heap_allocate ll h lay)) = free_blocks h" "free_blocks (heap_deallocate ll h p lay) = free_blocks h"
  using assms by (auto simp: heap_allocate_def heap_deallocate_def free_blocks_def fun_eq_iff split: prod.splits)

lemma full_keeps:
  assumes "layout_to_allocator lay = In_Slab k" "snd (heap_allocate ll h lay) = None"
  shows "free_blocks (fst (heap_allocate ll h lay)) = free_blocks h" "free_blocks h k = []"
  using assms by (auto simp: heap_allocate_def slab_allocate_def fl_pop_def free_blocks_def fun_eq_iff split: list.splits)

lemma heap_run_inv:
  assumes "heap_run ll h0 h L" "heap_inv start n h0 Map.empty"
  shows "heap_inv start n h L"
  using assms
proof (induction rule: heap_run.induct)
  case (run_alloc h L lay k h' p)
  then show ?case using heap_alloc_inv by blast
next
  case (run_full h L lay k h')
  then show ?case using full_keeps(1) [of lay k ll h] by (simp add: heap_inv_def)
next
  case (run_dealloc h L p lay)
  then show ?case using heap_dealloc_inv by blast
next
  case (run_large h L lay h' r)
  then show ?case using large_keeps(1) [of lay ll h] by (simp add: heap_inv_def)
next
  case (run_large_free h L lay p)
  then show ?case using large_keeps(2) [of lay ll h p] by (simp add: heap_inv_def)
qed

lemma heap_live:
  assumes inv: "heap_inv start n h L" and p: "L p = Some lay"
  obtains k where "layout_to_allocator lay = In_Slab k" "p \<in> slab_blocks start n k" "snd (usable_size lay) = snd (slab_place k)"
proof -
  have "lay \<in> ran L" using p by (rule ranI)
  then obtain k where k: "layout_to_allocator lay = In_Slab k"
    using inv by (cases "layout_to_allocator lay") (auto simp: heap_inv_def)
  moreover have "p \<in> live_blocks L k" using p k by (auto simp: live_blocks_def)
  then have "p \<in> slab_blocks start n k" using inv unfolding heap_inv_def by blast
  ultimately show thesis using that by (simp add: usable_size_def)
qed

lemma place_power: "snd (slab_place k) = 2 ^ (fst (slab_place k) + 6)"
  by (cases k) simp_all

lemma live_aligned:
  assumes "layout_to_allocator lay = In_Slab k" "p \<in> slab_blocks start n k" "4096 dvd start" "4096 dvd n"
    and "lay_align lay = 2 ^ e" "e \<le> 12"
  shows "lay_align lay dvd p"
proof -
  have "(2 :: nat) ^ e \<le> 2 ^ 12" by (rule power_increasing) (use assms(6) in simp_all)
  then have "(2 :: nat) ^ e \<le> 2 ^ (fst (slab_place k) + 6)"
    using allocator_size(2) [OF assms(1)] unfolding assms(5) place_power by simp
  then have "e \<le> fst (slab_place k) + 6" by (rule power_le_imp_le_exp [rotated]) simp
  then have "lay_align lay dvd snd (slab_place k)" unfolding assms(5) place_power by (rule le_imp_power_dvd)
  then show ?thesis using block_aligned [OF assms(2-4)] by (rule dvd_trans)
qed

text \<open>C28: the heap for requests of up to one page.  After any sequence of allocations and releases, each live
  block lies in the heap, below the part of the linked list allocator, is as large as usable_size says and so
  large enough, has the alignment that was asked for, up to a page, and does not overlap another live block.
  No block is lost: an allocation fails only when all blocks of its slab are live.\<close>

theorem heap_blocks_separate:
  assumes "heap_new ll start sz = Some h0" "start + sz \<le> 2 ^ 64" "heap_run ll h0 h L"
  shows "(\<forall>p lay. L p = Some lay \<longrightarrow>
      start \<le> p \<and> p + snd (usable_size lay) \<le> start + 7 * (sz div 8) \<and> lay_size lay \<le> snd (usable_size lay) \<and>
      (\<forall>e \<le> 12. lay_align lay = 2 ^ e \<longrightarrow> lay_align lay dvd p) \<and>
      (\<forall>q lay'. L q = Some lay' \<and> q \<noteq> p \<longrightarrow> p + snd (usable_size lay) \<le> q \<or> q + snd (usable_size lay') \<le> p)) \<and>
    (\<forall>lay k. layout_to_allocator lay = In_Slab k \<and> snd (heap_allocate ll h lay) = None \<longrightarrow>
      card (live_blocks L k) = sz div 8 div snd (slab_place k))"
proof (intro conjI allI impI, goal_cases)
  note new = heap_new_inv [OF assms(1,2)]
  note inv = heap_run_inv [OF assms(3) new(1)]
  {
    case (1 p lay)
    then show ?case by (rule heap_live [OF inv]) (use block_bounds(1) in fastforce)
  next
    case (2 p lay)
    then obtain k where k: "p \<in> slab_blocks start (sz div 8) k" "snd (usable_size lay) = snd (slab_place k)"
      using heap_live [OF inv] by metis
    have "Suc (fst (slab_place k)) * (sz div 8) \<le> 7 * (sz div 8)"
      using slab_place_range(1) [of k] by (intro mult_le_mono1) simp
    then show ?case using block_bounds(2) [OF k(1)] k(2) by linarith
  next
    case (3 p lay)
    then show ?case by (rule heap_live [OF inv]) (use allocator_size(1) in fastforce)
  next
    case (4 p lay e)
    then show ?case using heap_live [OF inv 4(1)] live_aligned [OF _ _ new(2,3) 4(3,2)] by metis
  next
    case (5 p lay q lay')
    obtain k where k: "p \<in> slab_blocks start (sz div 8) k" "snd (usable_size lay) = snd (slab_place k)"
      using heap_live [OF inv 5(1)] by metis
    obtain j where j: "q \<in> slab_blocks start (sz div 8) j" "snd (usable_size lay') = snd (slab_place j)"
      using heap_live [OF inv conjunct1 [OF 5(2)]] by metis
    have "p \<noteq> q" using 5(2) by blast
    then show ?case using blocks_separate [OF k(1) j(1)] k(2) j(2) by simp
  next
    case (6 lay k)
    then have "free_blocks h k = []" using full_keeps(2) by blast
    then have "live_blocks L k = slab_blocks start (sz div 8) k" using inv unfolding heap_inv_def by (metis Un_empty_left set_empty)
    then show ?case by (simp add: card_slab_blocks)
  }
qed

text \<open>The heap of the kernel, with a linked list allocator that has nothing to give.\<close>

definition no_list :: "unit linked_list" where
  "no_list = \<lparr> ll_new = (\<lambda>_ _. ()), ll_extend = (\<lambda>l _. l), ll_allocate = (\<lambda>l _. (l, None)), ll_deallocate = (\<lambda>l _ _. l) \<rparr>"

lemma kernel_heap:
  obtains h0 h where "heap_new no_list (unat KERNEL_HEAP_OFFSET) (unat KERNEL_HEAP_SIZE) = Some h0"
    "heap_run no_list h0 h [unat KERNEL_HEAP_OFFSET \<mapsto> \<lparr> lay_size = 24, lay_align = 8 \<rparr>]"
proof -
  let ?lay = "\<lparr> lay_size = 24, lay_align = 8 \<rparr>" and ?start = "unat KERNEL_HEAP_OFFSET"
  have nums: "?start = 0xFFFFFE8000000000" "unat KERNEL_HEAP_SIZE = 0x100000"
    by (simp_all add: offsets KERNEL_HEAP_SIZE_def)
  obtain h0 where h0: "heap_new no_list ?start (unat KERNEL_HEAP_SIZE) = Some h0" unfolding nums by (simp add: heap_new_def Let_def)
  have lay: "layout_to_allocator ?lay = In_Slab Slab64Bytes" by (simp add: layout_to_allocator_def)
  have "slabs h0 Slab64Bytes = slab_new ?start 0x20000 64"
    using h0 unfolding nums by (auto simp: heap_new_def Let_def uadd_def umul_def)
  then have list: "free_list (slabs h0 Slab64Bytes) = fl_new ?start 64 0x800" by (simp add: slab_new_def)
  have "[0..<0x800 :: nat] = 0 # [Suc 0..<0x800]" by (rule upt_conv_Cons) simp
  moreover have "uadd ?start (umul 0 64) = ?start" by (simp add: nums uadd_def umul_def)
  ultimately have "fl_blocks (fl_new ?start 64 0x800) = ?start # map (\<lambda>i. uadd ?start (umul i 64)) [Suc 0..<0x800]"
    by (simp only: fl_new_blocks list.map)
  then have "\<exists>l. fl_pop (free_list (slabs h0 Slab64Bytes)) = (l, Some ?start)" unfolding list fl_pop_def by simp
  then obtain h where "heap_allocate no_list h0 ?lay = (h, Some ?start)"
    by (auto simp: heap_allocate_def lay slab_allocate_def)
  then have "heap_run no_list h0 h [?start \<mapsto> ?lay]" by (rule run_alloc [OF run_start lay])
  then show thesis using that h0 by blast
qed

theorem heap_blocks_separate_witness:
  "\<exists>h0 h. heap_new no_list (unat KERNEL_HEAP_OFFSET) (unat KERNEL_HEAP_SIZE) = Some h0 \<and>
     heap_run no_list h0 h [unat KERNEL_HEAP_OFFSET \<mapsto> \<lparr> lay_size = 24, lay_align = 8 \<rparr>] \<and>
     8 dvd unat KERNEL_HEAP_OFFSET"
proof -
  obtain h0 h where h: "heap_new no_list (unat KERNEL_HEAP_OFFSET) (unat KERNEL_HEAP_SIZE) = Some h0"
    "heap_run no_list h0 h [unat KERNEL_HEAP_OFFSET \<mapsto> \<lparr> lay_size = 24, lay_align = 8 \<rparr>]" by (rule kernel_heap)
  have "unat KERNEL_HEAP_OFFSET + unat KERNEL_HEAP_SIZE \<le> 2 ^ 64" by (simp add: offsets KERNEL_HEAP_SIZE_def)
  note all = conjunct1 [OF heap_blocks_separate [OF h(1) this h(2)]]
  let ?lay = "\<lparr> lay_size = 24, lay_align = 8 \<rparr>"
  have "\<forall>e \<le> 12. lay_align ?lay = 2 ^ e \<longrightarrow> lay_align ?lay dvd unat KERNEL_HEAP_OFFSET"
    using all [rule_format, of "unat KERNEL_HEAP_OFFSET" ?lay] by simp
  from this [rule_format, of 3] have "8 dvd unat KERNEL_HEAP_OFFSET" by simp
  then show ?thesis using h by blast
qed

end
