(* ===== verification/Spec2Isabelle.thy ===== *)
theory Spec2Isabelle
  imports Sos_Codec Ringbuf_Queue Memory_Props Paging_Props Aml_Props Contexts_Props User_Memory_Props
    Context_Values Load_Props Slab
begin

text \<open>
  A verification development of FAASTR, a kernel that runs modules whose functions call each other across
  address spaces, and of the crates it is built on.

  \<^bold>\<open>The program.\<close>  Modules are ELF files.  The loader (src/kernel/src/context/load.rs, elf.rs) gives each
  loadable segment context memory (context/memory.rs), which takes frames from the frame allocator and
  pages from the virtual page allocator (memory), and is mapped by the page tables
  (arch/x86_64/paging).  A call from one module into another creates a context and switches to it at once
  (context/call.rs, switch.rs); other contexts are scheduled round robin.  Arguments and results are SOS
  values (src/sos-rs), encoded into the argument memory of the callee; pointers that come from a module are
  validated against the page tables (syscall/validate.rs).  The ring buffer (src/ringbuf) carries messages in
  shared memory, and the ACPI interpreter (acpi/aml) runs the byte code of the firmware at boot.

  \<^bold>\<open>The theories.\<close>  Definitions have the names of the code, and each follows one function or one loop of it.

  \<^item> \<open>Prelude\<close>: panics as None, wrapping arithmetic of usize, slices with their bounds checks, UTF-8.
    \<open>Consts\<close>: the address space of consts.rs.
  \<^item> \<open>Sos\<close>, \<open>Sos_Codec\<close>: sos-rs/src/lib.rs.  The encoder refines the wire format \<open>sos_bytes\<close>, decoding gives back
    what was encoded in both modes, and the decoder returns on every byte string (C1 to C6).  The crate byteorder is
    the locale \<open>byte_order\<close>, interpreted for little endian.
  \<^item> \<open>Ringbuf\<close>, \<open>Ringbuf_Queue\<close>: ringbuf/src/lib.rs at 64 bits.  Every interleaving of a producer and a
    consumer is a FIFO queue, the locale \<open>byte_queue\<close>, and handles never overlap (C7 to C10).
  \<^item> \<open>Frames\<close>, \<open>Free_Blocks\<close>, \<open>Frame_Alloc\<close>, \<open>Memory_Props\<close>: kernel/src/memory.  The trait FrameAllocator is the
    locale \<open>frame_allocator\<close>; the bump allocator, the recycling allocator over it and the page allocator
    are instances, so that live allocations never overlap (C11 to C16).
  \<^item> \<open>Paging\<close>, \<open>Paging_Entries\<close>, \<open>Paging_Map\<close>, \<open>Paging_Mapper\<close>, \<open>Paging_Props\<close>: arch/x86_64/paging.  The four levels of
    tables refine a finite map from pages to frames and flags.  The locale \<open>mapper\<close> extends that of the
    frame allocator and is interpreted with the allocator of the kernel (C17, C18, C20, C21).
  \<^item> \<open>User_Memory\<close>, \<open>User_Memory_Props\<close>: syscall/validate.rs, syscall/driver.rs and context/memory.rs over the
    mapper: what validation accepts, and that mapping physical memory can be undone (C38, C39).
  \<^item> \<open>Elf\<close>, \<open>Load\<close>, \<open>Load_Props\<close>: elf.rs and context/load.rs over context memory: contents, place and protection of a
    loaded image, down to the page tables (C19).
  \<^item> \<open>Slab\<close>: kernel/slab_allocator, with every order of allocations and releases (C28).
  \<^item> \<open>Aml_Values\<close>, \<open>Aml_Context\<close>, \<open>Aml_Names\<close>, \<open>Aml_Opcodes\<close>, \<open>Aml_Objects\<close>, \<open>Aml_Interp\<close>: acpi/aml and the table index
    of acpi/mod.rs.  \<open>Aml_Logic\<close>, \<open>Aml_Expr\<close>, \<open>Aml_Tables\<close>, \<open>Aml_Facts\<close>, \<open>Aml_Props\<close>: the values of expressions, the effect of
    tables, what no table can change, mutexes, names, and three defects (C22 to C27, C29 to C32).
  \<^item> \<open>Contexts\<close>, \<open>Contexts_Inv\<close>, \<open>Contexts_Step\<close>, \<open>Contexts_Props\<close>: context/list.rs, context.rs, switch.rs, call.rs and the
    system calls that switch.  \<open>kstep\<close> is the step relation of a processor; its reachable states keep an
    invariant, from which round robin, the absence of starvation and the return of fused calls follow
    (C33 to C37).
  \<^item> \<open>Context_Values\<close> and this theory: the argument memory, the target of a call and brk.  Appending to the
    argument memory joins the codec with the memory of a context (C40).

  \<^bold>\<open>State and errors.\<close>  Operations take the state and return it changed.  A panic is None; an error that the
  code returns is the left part of a sum.  In the AML interpreter an outcome also tells a hang, such as a
  spin lock taken twice, from a panic.  usize is a natural number with wrapping sums and products, as in a
  release build for x86_64; words are used where bits matter.

  \<^bold>\<open>Bounds.\<close>  Recursion in the AML interpreter and its loops are bounded by fuel.  C24 shows that a larger bound
  changes no run that has ended, and C22 gives a bound that is enough for expressions.  The bump allocator may
  recurse for ever, which is the value None; C14 and C15 say when it returns.  All other functions are total.
  Hypotheses on sizes are those of the machine: frame numbers below \<open>2 ^ 40\<close>, user addresses below \<open>2 ^ 47\<close>.

  \<^bold>\<open>Parameters.\<close>  Code outside the repository is an argument: byteorder, goblin (the structures of ELF),
  serde_json_core (manifests), linked_list_allocator, the files of the initial file system, the contents of fresh
  frames, and the clock.

  \<^bold>\<open>Not modelled.\<close>  Assembly and hardware: the boot loader, register switches, descriptor tables, interrupt entry,
  TLB, APIC, PIC, RTC, serial and graphical consoles, PCI and shared memory devices, the fixed ACPI tables with the
  registers they describe, and the start of other processors: what these do is not in the sources.  A
  second processor and the locks between processors: a kernel state is that of one processor.  Shared ownership of
  memory: memory has one owner, and its drop is an operation.  The creation of contexts up to the call (the
  memory of context/call.rs is set up when the model begins) and the dispatch of system calls, whose
  branches are modelled.  The wait conditions of kernel/src/sync and the futex, which no compiled system call
  uses.  Programs beside the kernel: the C library, the symbol binder in Go, the RPC daemon on the host.
\<close>

subsection \<open>Values passed between contexts\<close>



end
